(* ===== verification/Prelude.thy ===== *)
theory Prelude
  imports Main "HOL-Library.Word"
begin

text \<open>
  What every component of the development shares: names for the machine types of the C++ code,
  the exceptions that cross function boundaries, results that may be an exception, and the part
  of the C and C++ standard libraries the sources use on strings (decimal printing and parsing,
  substring search, character classes).  A C++ \<^verbatim>\<open>std::string\<close> is a \<^typ>\<open>string\<close> (a list of
  8-bit characters), a \<^verbatim>\<open>std::vector<unsigned char>\<close> is a list of bytes.
\<close>

section \<open>Machine types\<close>

type_synonym byte = "8 word"
type_synonym u16 = "16 word"
type_synonym u32 = "32 word"
type_synonym u64 = "64 word"

named_theorems codec_simps
named_theorems str_simps

text \<open>Reading a string as bytes and back (the source casts between \<^verbatim>\<open>char\<close> and
  \<^verbatim>\<open>unsigned char\<close>).\<close>

definition byte_of_char :: "char \<Rightarrow> byte" where
  "byte_of_char c = of_nat (of_char c)"

definition char_of_byte :: "byte \<Rightarrow> char" where
  "char_of_byte b = char_of (unat b)"

abbreviation bytes_of_string :: "string \<Rightarrow> byte list" where
  "bytes_of_string s \<equiv> map byte_of_char s"

abbreviation string_of_bytes :: "byte list \<Rightarrow> string" where
  "string_of_bytes bs \<equiv> map char_of_byte bs"

lemma unat_byte_bound [simp]: "unat (b :: byte) < 256"
  using unsigned_less [of b, where 'a = nat] by simp

lemma char_of_byte_inverse [simp]: "byte_of_char (char_of_byte b) = b"
  by (simp add: byte_of_char_def char_of_byte_def)

lemma byte_of_char_inverse [simp]: "char_of_byte (byte_of_char c) = c"
proof -
  have "(of_char c :: nat) < 256" by (rule nat_of_char_less_256)
  then show ?thesis by (simp add: byte_of_char_def char_of_byte_def unat_of_nat)
qed

lemma string_bytes_inverse [simp]: "string_of_bytes (bytes_of_string s) = s"
  by (simp add: comp_def)

lemma bytes_string_inverse [simp]: "bytes_of_string (string_of_bytes bs) = bs"
  by (simp add: comp_def)

section \<open>Exceptions and fallible results\<close>

text \<open>
  The exceptions the sources throw and tell apart: \<^verbatim>\<open>invalid_param\<close> and its subclasses (an error
  code, a message and an optional description), a \<^verbatim>\<open>std::string\<close> (the \<^verbatim>\<open>CHECK\<close> macro, without the
  file and line it appends), \<^verbatim>\<open>common::UserException\<close> (\<^verbatim>\<open>throwUserErr\<close>), a \<^verbatim>\<open>std::exception\<close> with
  its \<^verbatim>\<open>what()\<close>, the stop signal and anything else.
\<close>

datatype exc =
    InvalidParam int string "string option"
  | StringExc string
  | UserExc string
  | StdExc string
  | StopExc
  | OtherExc

type_synonym 'a fallible = "exc + 'a"

definition bindE :: "'e + 'a \<Rightarrow> ('a \<Rightarrow> 'e + 'b) \<Rightarrow> 'e + 'b" where
  "bindE m f = (case m of Inl e \<Rightarrow> Inl e | Inr x \<Rightarrow> f x)"

lemma bindE_simps [simp]:
  "bindE (Inl e) f = Inl e"
  "bindE (Inr x) f = f x"
  by (simp_all add: bindE_def)

lemma bindE_Inr_conv: "bindE m f = Inr y \<longleftrightarrow> (\<exists>x. m = Inr x \<and> f x = Inr y)"
  by (cases m) auto

lemma bindE_Inl_conv: "bindE m f = Inl e \<longleftrightarrow> m = Inl e \<or> (\<exists>x. m = Inr x \<and> f x = Inl e)"
  by (cases m) auto

text \<open>\<^verbatim>\<open>if (!c) throw e;\<close> in front of the rest of a function.\<close>

definition require :: "bool \<Rightarrow> 'e \<Rightarrow> 'e + 'a \<Rightarrow> 'e + 'a" where
  "require c e m = (if c then m else Inl e)"

lemma require_simps [simp]:
  "require True e m = m"
  "require False e m = Inl e"
  by (simp_all add: require_def)

lemma require_Inr_conv: "require c e m = Inr y \<longleftrightarrow> c \<and> m = Inr y"
  by (simp add: require_def)

section \<open>Lists\<close>

lemma takeWhile_all: "\<forall>x\<in>set xs. P x \<Longrightarrow> takeWhile P xs = xs"
  by (simp add: takeWhile_eq_all_conv)

lemma takeWhile_append_stop:
  "\<forall>x\<in>set xs. P x \<Longrightarrow> ys = [] \<or> \<not> P (hd ys) \<Longrightarrow> takeWhile P (xs @ ys) = xs"
  by (cases ys) (auto simp: takeWhile_append)

lemma dropWhile_none: "xs = [] \<or> \<not> P (hd xs) \<Longrightarrow> dropWhile P xs = xs"
  by (cases xs) auto

lemma nth_concat_uniform:
  "\<forall>x\<in>set xs. length (f x) = k \<Longrightarrow> i < length xs \<Longrightarrow> j < k \<Longrightarrow>
   concat (map f xs) ! (k * i + j) = f (xs ! i) ! j"
proof (induction xs arbitrary: i)
  case (Cons x xs)
  then show ?case by (cases i) (auto simp: nth_append)
qed simp

lemma less_16_cases:
  assumes "d < (16 :: nat)"
    and "P 0" "P 1" "P 2" "P 3" "P 4" "P 5" "P 6" "P 7"
    and "P 8" "P 9" "P 10" "P 11" "P 12" "P 13" "P 14" "P 15"
  shows "P d"
proof -
  have "d = 0 \<or> d = 1 \<or> d = 2 \<or> d = 3 \<or> d = 4 \<or> d = 5 \<or> d = 6 \<or> d = 7 \<or>
      d = 8 \<or> d = 9 \<or> d = 10 \<or> d = 11 \<or> d = 12 \<or> d = 13 \<or> d = 14 \<or> d = 15"
    using assms(1) by presburger
  with assms(2-) show ?thesis by auto
qed

section \<open>Character classes and decimal numbers\<close>

definition isspace :: "char \<Rightarrow> bool" where
  "isspace c = (let n = (of_char c :: nat) in n = 32 \<or> (9 \<le> n \<and> n \<le> 13))"

definition isdigit :: "char \<Rightarrow> bool" where
  "isdigit c = (let n = (of_char c :: nat) in 48 \<le> n \<and> n \<le> 57)"

definition digit_char :: "nat \<Rightarrow> char" where
  "digit_char d = char_of (48 + d)"

definition digit_val :: "char \<Rightarrow> nat" where
  "digit_val c = of_char c - 48"

text \<open>\<^verbatim>\<open>tolower\<close> and \<^verbatim>\<open>toupper\<close> of the C locale.\<close>

definition to_lower_char :: "char \<Rightarrow> char" where
  "to_lower_char c = (let n = (of_char c :: nat) in if 65 \<le> n \<and> n \<le> 90 then char_of (n + 32) else c)"

definition to_upper_char :: "char \<Rightarrow> char" where
  "to_upper_char c = (let n = (of_char c :: nat) in if 97 \<le> n \<and> n \<le> 122 then char_of (n - 32) else c)"

text \<open>A \<^verbatim>\<open>char*\<close> ends at its first NUL.\<close>

definition c_str :: "string \<Rightarrow> string" where
  "c_str s = takeWhile (\<lambda>c. c \<noteq> CHR 0x00) s"

text \<open>\<^verbatim>\<open>std::to_string\<close> of an unsigned number, and of a signed one.\<close>

fun to_string :: "nat \<Rightarrow> string" where
  "to_string n = (if n < 10 then [digit_char n] else to_string (n div 10) @ [digit_char (n mod 10)])"

declare to_string.simps [simp del]

definition to_string_int :: "int \<Rightarrow> string" where
  "to_string_int i = (if i < 0 then CHR ''-'' # to_string (nat (- i)) else to_string (nat i))"

definition dec_value :: "string \<Rightarrow> nat" where
  "dec_value ds = foldl (\<lambda>a c. 10 * a + digit_val c) 0 ds"

text \<open>
  What \<^verbatim>\<open>strtol\<close> and \<^verbatim>\<open>strtoull\<close> read in base 10: leading white space, an optional sign, then the
  longest run of digits; no digits at all is a failed conversion.
\<close>

definition split_sign :: "string \<Rightarrow> bool \<times> string" where
  "split_sign s = (case s of [] \<Rightarrow> (False, [])
     | c # cs \<Rightarrow> if c = CHR ''-'' then (True, cs) else if c = CHR ''+'' then (False, cs) else (False, s))"

definition strto_digits :: "string \<Rightarrow> (bool \<times> nat) option" where
  "strto_digits s =
     (let (neg, r) = split_sign (dropWhile isspace s); ds = takeWhile isdigit r
      in if ds = [] then None else Some (neg, dec_value ds))"

text \<open>
  \<^verbatim>\<open>std::stoull\<close>: both of its exceptions carry the function's name; a minus sign negates the value
  modulo \<open>2 ^ 64\<close>.  \<^verbatim>\<open>std::stoi\<close> refuses what does not fit an \<^verbatim>\<open>int\<close>.  \<^verbatim>\<open>std::atoi\<close> is glibc's: the
  value clamped to a \<^verbatim>\<open>long\<close>, cut to its low 32 bits, 0 where there is no number.
\<close>

definition stoull :: "string \<Rightarrow> u64 fallible" where
  "stoull s = (case strto_digits s of
      None \<Rightarrow> Inl (StdExc ''stoull'')
    | Some (neg, v) \<Rightarrow>
        if 2 ^ 64 \<le> v then Inl (StdExc ''stoull'')
        else Inr (if neg then - of_nat v else of_nat v))"

definition stoi :: "string \<Rightarrow> int fallible" where
  "stoi s = (case strto_digits s of
      None \<Rightarrow> Inl (StdExc ''stoi'')
    | Some (neg, v) \<Rightarrow>
        (let i = (if neg then - int v else int v)
         in if i < - (2 ^ 31) \<or> 2 ^ 31 \<le> i then Inl (StdExc ''stoi'') else Inr i))"

definition clamp_long :: "int \<Rightarrow> int" where
  "clamp_long i = max (- (2 ^ 63)) (min (2 ^ 63 - 1) i)"

definition atoi :: "string \<Rightarrow> int" where
  "atoi s = (case strto_digits s of
      None \<Rightarrow> 0
    | Some (neg, v) \<Rightarrow> signed_take_bit 31 (clamp_long (if neg then - int v else int v)))"

section \<open>Substrings\<close>

text \<open>\<^verbatim>\<open>substr\<close>, \<^verbatim>\<open>compare(0, n, p) == 0\<close> for an \<open>n\<close>-character \<open>p\<close>, and \<^verbatim>\<open>find\<close> (the position of
  the first occurrence, \<^const>\<open>None\<close> for \<^verbatim>\<open>npos\<close>).\<close>

definition substr :: "string \<Rightarrow> nat \<Rightarrow> nat \<Rightarrow> string" where
  "substr s pos n = take n (drop pos s)"

definition starts_with :: "string \<Rightarrow> string \<Rightarrow> bool" where
  "starts_with p s \<longleftrightarrow> take (length p) s = p"

fun str_find :: "string \<Rightarrow> string \<Rightarrow> nat option" where
  "str_find p [] = (if p = [] then Some 0 else None)"
| "str_find p (c # cs) =
     (if starts_with p (c # cs) then Some 0 else map_option Suc (str_find p cs))"

lemma starts_with_append [simp]: "starts_with p (p @ s)"
  by (simp add: starts_with_def)

lemma str_find_prefix [simp]: "starts_with p s \<Longrightarrow> str_find p s = Some 0"
  by (cases s) (auto simp: starts_with_def)

lemma str_find_char_None: "c \<notin> set s \<Longrightarrow> str_find [c] s = None"
  by (induction s) (auto simp: starts_with_def)

lemma str_find_char_append:
  "c \<notin> set s \<Longrightarrow> str_find [c] (s @ c # t) = Some (length s)"
  by (induction s) (auto simp: starts_with_def)

section \<open>Facts about decimal printing and parsing\<close>

lemma digit_val_char [simp]: "d < 10 \<Longrightarrow> digit_val (digit_char d) = d"
  by (simp add: digit_val_def digit_char_def)

lemma isdigit_digit_char [simp]: "d < 10 \<Longrightarrow> isdigit (digit_char d)"
  by (simp add: isdigit_def digit_char_def)

lemma isdigit_not_space: "isdigit c \<Longrightarrow> \<not> isspace c"
  by (auto simp: isdigit_def isspace_def Let_def)

lemma isdigit_not_sign: "isdigit c \<Longrightarrow> c \<noteq> CHR ''-'' \<and> c \<noteq> CHR ''+''"
  by (auto simp: isdigit_def)

lemma to_string_nonempty [simp]: "to_string n \<noteq> []"
  by (subst to_string.simps) simp

lemma to_string_digits: "c \<in> set (to_string n) \<Longrightarrow> isdigit c"
proof (induction n rule: to_string.induct)
  case (1 n)
  then show ?case by (subst (asm) (2) to_string.simps) (auto split: if_splits)
qed

lemma dec_value_append: "dec_value (ds @ [c]) = 10 * dec_value ds + digit_val c"
  by (simp add: dec_value_def)

lemma dec_value_to_string [simp]: "dec_value (to_string n) = n"
proof (induction n rule: to_string.induct)
  case (1 n)
  show ?case
  proof (cases "n < 10")
    case True
    then show ?thesis by (subst to_string.simps) (simp add: dec_value_def)
  next
    case False
    with 1 show ?thesis by (subst to_string.simps) (simp add: dec_value_append)
  qed
qed

lemma to_string_inject [simp]: "to_string m = to_string n \<longleftrightarrow> m = n"
  by (metis dec_value_to_string)

lemma to_string_length: "n < 10 ^ k \<Longrightarrow> 0 < k \<Longrightarrow> length (to_string n) \<le> k"
proof (induction n arbitrary: k rule: to_string.induct)
  case (1 n)
  show ?case
  proof (cases "n < 10")
    case True
    with 1 show ?thesis by (subst to_string.simps) simp
  next
    case False
    with "1.prems" obtain j where j: "k = Suc j" "0 < j"
      by (cases k; cases "k - 1") auto
    with "1.prems" have "n div 10 < 10 ^ j" by (simp add: less_mult_imp_div_less mult.commute)
    with "1.IH" [OF False this] j False show ?thesis by (subst to_string.simps) simp
  qed
qed

lemma strto_digits_to_string [simp]: "strto_digits (to_string n) = Some (False, n)"
proof -
  obtain c cs where s: "to_string n = c # cs" by (cases "to_string n") auto
  then have c: "isdigit c" using to_string_digits [of c n] by simp
  have "takeWhile isdigit (to_string n) = to_string n"
    by (rule takeWhile_all) (auto dest: to_string_digits)
  moreover have "dropWhile isspace (to_string n) = to_string n"
    using s c isdigit_not_space by simp
  moreover have "split_sign (to_string n) = (False, to_string n)"
    using s c isdigit_not_sign by (simp add: split_sign_def)
  ultimately show ?thesis by (simp add: strto_digits_def Let_def del: takeWhile_eq_all_conv)
qed

lemma stoull_to_string: "n < 2 ^ 64 \<Longrightarrow> stoull (to_string n) = Inr (of_nat n)"
  by (simp add: stoull_def)

lemma stoi_to_string: "n < 2 ^ 31 \<Longrightarrow> stoi (to_string n) = Inr (int n)"
  by (simp add: stoi_def)

lemma atoi_to_string: "n < 2 ^ 31 \<Longrightarrow> atoi (to_string n) = int n"
  by (simp add: atoi_def clamp_long_def signed_take_bit_int_eq_self)

lemma to_lower_char_idem [simp]: "to_lower_char (to_lower_char c) = to_lower_char c"
  by (auto simp: to_lower_char_def Let_def of_char_of)

section \<open>Runs of a machine\<close>

text \<open>A run of a step relation over a sequence of events, and the rule that a simulation of the steps is one
  of the runs.\<close>

inductive run :: "('s \<Rightarrow> 'e \<Rightarrow> 's \<Rightarrow> bool) \<Rightarrow> 's \<Rightarrow> 'e list \<Rightarrow> 's \<Rightarrow> bool" for step where
  run_Nil: "run step s [] s"
| run_snoc: "run step s es t \<Longrightarrow> step t e u \<Longrightarrow> run step s (es @ [e]) u"

lemma run_singleton: "step s e t \<Longrightarrow> run step s [e] t"
  using run_snoc [OF run_Nil, of step s e t] by simp

lemma run_append: "run step t fs u \<Longrightarrow> run step s es t \<Longrightarrow> run step s (es @ fs) u"
  by (induction rule: run.induct) (simp, metis append_assoc run_snoc)

lemma run_Cons: "step s e t \<Longrightarrow> run step t es u \<Longrightarrow> run step s (e # es) u"
  using run_append [OF _ run_singleton] by fastforce

locale stable =
  fixes step :: "'s \<Rightarrow> 'e \<Rightarrow> 's \<Rightarrow> bool" and inv :: "'s \<Rightarrow> bool"
  assumes step_keeps: "step s e t \<Longrightarrow> inv s \<Longrightarrow> inv t"
begin

lemma run_keeps: "run step s es t \<Longrightarrow> inv s \<Longrightarrow> inv t"
  by (induction rule: run.induct) (auto intro: step_keeps)

end

locale refining = stable step inv
  for step :: "'s \<Rightarrow> 'e \<Rightarrow> 's \<Rightarrow> bool" and inv +
  fixes abs_step :: "'a \<Rightarrow> 'e \<Rightarrow> 'a \<Rightarrow> bool" and abs :: "'s \<Rightarrow> 'a"
  assumes step_simulated: "step s e t \<Longrightarrow> inv s \<Longrightarrow> abs_step (abs s) e (abs t)"
begin

lemma run_refines: "run step s es t \<Longrightarrow> inv s \<Longrightarrow> run abs_step (abs s) es (abs t)"
proof (induction rule: run.induct)
  case (run_snoc s es t e u)
  then show ?case using run_keeps run.run_snoc step_simulated by metis
qed (rule run.run_Nil)

end

end
