(* ===== verification/Convert_Strings.thy ===== *)
theory Convert_Strings
  imports Prelude
begin

text \<open>
  Hexadecimal text: \<^verbatim>\<open>src/src/common/convertStrings.h\<close> (namespace \<^verbatim>\<open>common\<close>),
  \<^verbatim>\<open>src/src/common/string_utils.cpp\<close> (namespace \<^verbatim>\<open>string_utils\<close>) and the two conversions of
  \<^verbatim>\<open>src/src/cpplib_open_ssl_decor/crypto.cpp\<close>.  The lookup tables are kept as the source has them;
  the lemmas show that every table-driven printer is the arithmetic one, that every reader inverts
  it, and that \<^verbatim>\<open>uintToHexStr\<close> and \<^verbatim>\<open>hexStrToInt\<close> are inverse on 64-bit numbers.
\<close>

section \<open>Printing\<close>

text \<open>The digit of a value below 16, and the template \<^verbatim>\<open>toHex(begin, end)\<close>.\<close>

definition hex_char :: "nat \<Rightarrow> char" where
  "hex_char d = (if d \<le> 9 then char_of (d + 48) else char_of (d - 10 + 97))"

definition toHex_iter :: "byte list \<Rightarrow> string" where
  "toHex_iter bs =
     concat (map (\<lambda>c. let m = unat c mod 16; d = unat c div 16 in [hex_char d, hex_char m]) bs)"

definition HexLookup2 :: string where
  "HexLookup2 =
    ''000102030405060708090a0b0c0d0e0f'' @
    ''101112131415161718191a1b1c1d1e1f'' @
    ''202122232425262728292a2b2c2d2e2f'' @
    ''303132333435363738393a3b3c3d3e3f'' @
    ''404142434445464748494a4b4c4d4e4f'' @
    ''505152535455565758595a5b5c5d5e5f'' @
    ''606162636465666768696a6b6c6d6e6f'' @
    ''707172737475767778797a7b7c7d7e7f'' @
    ''808182838485868788898a8b8c8d8e8f'' @
    ''909192939495969798999a9b9c9d9e9f'' @
    ''a0a1a2a3a4a5a6a7a8a9aaabacadaeaf'' @
    ''b0b1b2b3b4b5b6b7b8b9babbbcbdbebf'' @
    ''c0c1c2c3c4c5c6c7c8c9cacbcccdcecf'' @
    ''d0d1d2d3d4d5d6d7d8d9dadbdcdddedf'' @
    ''e0e1e2e3e4e5e6e7e8e9eaebecedeeef'' @
    ''f0f1f2f3f4f5f6f7f8f9fafbfcfdfeff''"

text \<open>The tables of \<^verbatim>\<open>string_utils.cpp\<close> and \<^verbatim>\<open>crypto.cpp\<close> have the same sixteen rows.\<close>

definition string_utils_hex :: string where
  "string_utils_hex = HexLookup2"

definition crypto_HexLookup :: string where
  "crypto_HexLookup = HexLookup2"

text \<open>\<^verbatim>\<open>bin2hex2\<close> writes the two characters of byte \<open>i\<close> at \<open>dst[2i]\<close> and \<open>dst[2i+1]\<close>.\<close>

function bin2hex2 :: "byte list \<Rightarrow> nat \<Rightarrow> nat \<Rightarrow> string \<Rightarrow> string" where
  "bin2hex2 src len i dst =
     (if i < len
      then let h = 2 * unat (src ! i)
           in bin2hex2 src len (Suc i)
                (dst[i * 2 := HexLookup2 ! h, i * 2 + 1 := HexLookup2 ! (h + 1)])
      else dst)"
  by pat_completeness auto
termination
  by (relation "measure (\<lambda>(src, len, i, dst). len - i)") auto

declare bin2hex2.simps [simp del]

definition toHex :: "byte list \<Rightarrow> string" where
  "toHex vec = bin2hex2 vec (length vec) 0 (replicate (length vec * 2) (CHR 0x00))"

definition string_utils_bin2hex :: "byte list \<Rightarrow> string" where
  "string_utils_bin2hex src =
     foldl (\<lambda>res b. res @ [string_utils_hex ! (unat b * 2), string_utils_hex ! (unat b * 2 + 1)]) [] src"

definition string_utils_bin2hex_buf :: "byte list \<Rightarrow> nat \<Rightarrow> string \<Rightarrow> string" where
  "string_utils_bin2hex_buf buf sz res =
     foldl (\<lambda>res i. let c = unat (buf ! i) * 2
                     in res[i * 2 := string_utils_hex ! c, i * 2 + 1 := string_utils_hex ! (c + 1)])
           res [0..<sz]"

definition string_utils_bin2hex_append :: "string \<Rightarrow> string \<Rightarrow> string" where
  "string_utils_bin2hex_append buf res =
     foldl (\<lambda>r c. (r @ [string_utils_hex ! (unat (byte_of_char c) * 2)])
                     @ [string_utils_hex ! (unat (byte_of_char c) * 2 + 1)]) res buf"

definition bin2hex :: "byte list \<Rightarrow> string" where
  "bin2hex message =
     foldl (\<lambda>res b. res @ [crypto_HexLookup ! (2 * unat b), crypto_HexLookup ! (2 * unat b + 1)]) [] message"

section \<open>Reading\<close>

text \<open>The table \<^verbatim>\<open>DecLookup2\<close>; an initialiser shorter than the array leaves zeroes.\<close>

definition DecLookup2 :: "nat list" where
  "DecLookup2 =
    [0,  0,  0,  0,  0,  0,  0, 0, 0, 0, 0, 0, 0, 0, 0, 0,
     0,  0,  0,  0,  0,  0,  0, 0, 0, 0, 0, 0, 0, 0, 0, 0, 0, 0, 0, 0, 0,
     0,  0,  0,  0,  0,  0,  0, 0, 0, 0, 0, 0, 1, 2, 3, 4, 5, 6, 7, 8, 9,
     0,  0,  0,  0,  0,  0,  0,
     10, 11, 12, 13, 14, 15,
     0,  0,  0,  0,  0,  0,  0, 0, 0, 0, 0, 0, 0,
     0,  0,  0,  0,  0,  0,  0, 0, 0, 0, 0, 0, 0,
     10, 11, 12, 13, 14, 15,
     0,  0,  0,  0,  0,  0,  0, 0, 0, 0, 0, 0, 0, 0, 0, 0] @ replicate 137 0"

definition dec_lookup :: "char \<Rightarrow> nat" where
  "dec_lookup c = DecLookup2 ! of_char c"

text \<open>One byte from two digits: \<^verbatim>\<open>d = table[a] << 4; d |= table[b]\<close> in an \<^verbatim>\<open>unsigned char\<close>.\<close>

unbundle bit_operations_syntax

definition hex_pair :: "char \<Rightarrow> char \<Rightarrow> byte" where
  "hex_pair a b = push_bit 4 (of_nat (dec_lookup a)) OR of_nat (dec_lookup b)"

text \<open>
  \<^verbatim>\<open>hex2bin2\<close> and the loop of \<^verbatim>\<open>hex2bin\<close>: pairs of characters; the character after the last one
  of an odd string is its terminating NUL, as \<^verbatim>\<open>std::string::operator[]\<close> gives it.
\<close>

fun hex2bin2 :: "string \<Rightarrow> byte list" where
  "hex2bin2 [] = []"
| "hex2bin2 [a] = [hex_pair a (CHR 0x00)]"
| "hex2bin2 (a # b # cs) = hex_pair a b # hex2bin2 cs"

definition fromHex :: "string \<Rightarrow> byte list" where
  "fromHex hex =
     (let begin = (if substr hex 0 2 = ''0x'' then 2 else 0)
      in if length hex mod 2 \<noteq> 0 then [] else hex2bin2 (drop begin hex))"

definition hex2bin :: "string \<Rightarrow> byte list" where
  "hex2bin src =
     (if 2 < length src \<and> src ! 0 = CHR ''0'' \<and> src ! 1 = CHR ''x''
      then hex2bin2 (drop 2 src) else hex2bin2 src)"

section \<open>Numbers\<close>

text \<open>The loop of \<^verbatim>\<open>uintToHexStr\<close>: the digit is put in front of what is already printed.\<close>

fun uintToHexStr_loop :: "nat \<Rightarrow> string \<Rightarrow> string" where
  "uintToHexStr_loop num res =
     (if num \<noteq> 0 then uintToHexStr_loop (num div 16) (hex_char (num mod 16) # res) else res)"

declare uintToHexStr_loop.simps [simp del]

definition uintToHexStr :: "u64 \<Rightarrow> string" where
  "uintToHexStr num = (if num = 0 then ''0x0'' else ''0x'' @ uintToHexStr_loop (unat num) [])"

text \<open>The digit value of \<^verbatim>\<open>hexStrToInt\<close>; anything that is no digit counts 0.\<close>

definition hex_digit_val :: "char \<Rightarrow> nat" where
  "hex_digit_val c =
     (let n = of_char c in
      if 48 \<le> n \<and> n \<le> 57 then n - 48
      else if 97 \<le> n \<and> n \<le> 102 then n - 97 + 10
      else if 65 \<le> n \<and> n \<le> 70 then n - 65 + 10 else 0)"

definition hexStrToInt :: "string \<Rightarrow> u64" where
  "hexStrToInt str =
     (let copy = (if str_find ''0x'' str = Some 0 then drop 2 str else str)
      in foldl (\<lambda>result c. result * 16 + of_nat (hex_digit_val c)) 0 copy)"

section \<open>Case\<close>

definition to_lower :: "string \<Rightarrow> string" where
  "to_lower str = map to_lower_char str"

definition to_upper :: "string \<Rightarrow> string" where
  "to_upper str = map to_upper_char str"

section \<open>Digits and tables\<close>

abbreviation hex_text :: "string \<Rightarrow> bool" where
  "hex_text s \<equiv> \<forall>c\<in>set s. \<exists>d<16. c = hex_char d"

abbreviation hex_digits :: string where
  "hex_digits \<equiv> ''0123456789abcdef''"

lemmas hex_eval = hex_char_def char_of_def bit_0

lemma hex_digits_nth: "d < 16 \<Longrightarrow> hex_digits ! d = hex_char d"
  by (erule less_16_cases) (simp_all add: hex_eval)

lemma hex_digit_val_hex_char [simp]: "d < 16 \<Longrightarrow> hex_digit_val (hex_char d) = d"
  by (erule less_16_cases) (simp_all add: hex_eval hex_digit_val_def)

lemma dec_lookup_hex_char [simp]: "d < 16 \<Longrightarrow> dec_lookup (hex_char d) = d"
  by (erule less_16_cases) (simp_all add: hex_eval dec_lookup_def DecLookup2_def)

lemma hex_char_not_x: "d < 16 \<Longrightarrow> hex_char d \<noteq> CHR ''x''"
  by (erule less_16_cases) (simp_all add: hex_eval)

lemma HexLookup2_rows:
  "HexLookup2 = concat (map (\<lambda>a. concat (map (\<lambda>b. [a, b]) hex_digits)) hex_digits)"
  by (simp add: HexLookup2_def)

lemma hex_row_nth: "m < 16 \<Longrightarrow> j < 2 \<Longrightarrow>
  concat (map (\<lambda>b. [a, b]) hex_digits) ! (2 * m + j) = [a, hex_char m] ! j"
  by (subst nth_concat_uniform) (simp_all only: hex_digits_nth, simp_all)

lemma HexLookup2_at:
  assumes "n < 256" and "j < 2"
  shows "HexLookup2 ! (2 * n + j) = [hex_char (n div 16), hex_char (n mod 16)] ! j"
proof -
  have d: "n div 16 < 16" and i: "2 * n + j = 32 * (n div 16) + (2 * (n mod 16) + j)"
    using assms div_mult_mod_eq [of n 16] by linarith+
  have r: "2 * (n mod 16) + j < 32" using assms(2) mod_less_divisor [of 16 n] by linarith
  have "HexLookup2 ! (2 * n + j) =
      concat (map (\<lambda>b. [hex_digits ! (n div 16), b]) hex_digits) ! (2 * (n mod 16) + j)"
    unfolding HexLookup2_rows i
    by (subst nth_concat_uniform [where k = 32]) (use d r in simp_all)
  then show ?thesis using d assms(2) by (simp only: hex_digits_nth hex_row_nth mod_less_divisor)
qed

lemma HexLookup2_nth [simp]:
  "n < 256 \<Longrightarrow> HexLookup2 ! (2 * n) = hex_char (n div 16)"
  "n < 256 \<Longrightarrow> HexLookup2 ! Suc (2 * n) = hex_char (n mod 16)"
  "n < 256 \<Longrightarrow> HexLookup2 ! (n * 2) = hex_char (n div 16)"
  "n < 256 \<Longrightarrow> HexLookup2 ! Suc (n * 2) = hex_char (n mod 16)"
  using HexLookup2_at [of n 0] HexLookup2_at [of n 1] by (simp_all add: mult.commute)

section \<open>The printers agree\<close>

lemma toHex_iter_simps [simp]:
  "toHex_iter [] = []"
  "toHex_iter (b # bs) = hex_char (unat b div 16) # hex_char (unat b mod 16) # toHex_iter bs"
  by (simp_all add: toHex_iter_def Let_def)

lemma toHex_iter_append [simp]: "toHex_iter (as @ bs) = toHex_iter as @ toHex_iter bs"
  by (induction as) auto

lemma length_toHex_iter [simp]: "length (toHex_iter bs) = 2 * length bs"
  by (induction bs) auto

lemma hex_text_toHex_iter: "hex_text (toHex_iter bs)"
proof (induction bs)
  case (Cons b bs)
  have "unat b div 16 < 16" using unat_byte_bound [of b] by linarith
  moreover have "unat b mod 16 < 16" by simp
  ultimately show ?case using Cons by (auto simp del: mod_less_divisor)
qed simp

lemma hex_char_not_nul: "d < 16 \<Longrightarrow> hex_char d \<noteq> CHR 0x00"
  by (erule less_16_cases) (simp_all add: hex_eval)

lemma c_str_hex: "hex_text s \<Longrightarrow> c_str s = s"
  unfolding c_str_def by (rule takeWhile_all) (metis hex_char_not_nul)

lemma foldl_hex_pairs:
  "foldl (\<lambda>res b. res @ [hex_char (unat b div 16), hex_char (unat b mod 16)]) acc (bs :: byte list)
     = acc @ toHex_iter bs"
  by (induction bs arbitrary: acc) auto

lemma bin2hex_eq: "bin2hex bs = toHex_iter bs"
  by (simp add: bin2hex_def crypto_HexLookup_def foldl_hex_pairs)

lemma string_utils_bin2hex_eq: "string_utils_bin2hex bs = toHex_iter bs"
  by (simp add: string_utils_bin2hex_def string_utils_hex_def foldl_hex_pairs)

lemma string_utils_bin2hex_append_eq:
  "string_utils_bin2hex_append buf res = res @ toHex_iter (bytes_of_string buf)"
  unfolding string_utils_bin2hex_append_def string_utils_hex_def
  by (induction buf arbitrary: res) auto

lemma bin2hex2_loop:
  "i \<le> length src \<Longrightarrow> length dst = 2 * length src \<Longrightarrow>
   bin2hex2 src (length src) i dst = take (2 * i) dst @ toHex_iter (drop i src)"
proof (induction src "length src" i dst rule: bin2hex2.induct)
  case (1 src i dst)
  show ?case
  proof (cases "i < length src")
    case True
    let ?a = "hex_char (unat (src ! i) div 16)" and ?b = "hex_char (unat (src ! i) mod 16)"
    let ?dst = "dst[i * 2 := ?a, Suc (i * 2) := ?b]"
    have take: "take (2 * Suc i) ?dst = take (2 * i) dst @ [?a, ?b]"
    proof -
      have "2 * i < length dst" and "Suc (2 * i) < length dst" using True "1.prems" by simp_all
      then show ?thesis by (simp add: take_Suc_conv_app_nth mult.commute del: take_update_swap)
    qed
    have "bin2hex2 src (length src) i dst = bin2hex2 src (length src) (Suc i) ?dst"
      by (subst bin2hex2.simps) (simp add: True)
    also have "\<dots> = take (2 * Suc i) ?dst @ toHex_iter (drop (Suc i) src)"
      using "1.hyps" [OF True refl] True "1.prems" by simp
    also have "\<dots> = take (2 * i) dst @ toHex_iter (drop i src)"
      unfolding take using True by (simp add: Cons_nth_drop_Suc [symmetric])
    finally show ?thesis .
  next
    case False
    with "1.prems" show ?thesis by (subst bin2hex2.simps) simp
  qed
qed

lemma bin2hex2_foldl:
  "bin2hex2 src len i dst =
     foldl (\<lambda>res i. res[i * 2 := string_utils_hex ! (unat (src ! i) * 2),
                         i * 2 + 1 := string_utils_hex ! (unat (src ! i) * 2 + 1)]) dst [i..<len]"
proof (induction src len i dst rule: bin2hex2.induct)
  case (1 src len i dst)
  then show ?case
    by (subst bin2hex2.simps)
      (auto simp: Let_def upt_conv_Cons string_utils_hex_def mult.commute simp del: upt_Suc)
qed

lemma string_utils_bin2hex_buf_eq:
  "length res = 2 * length buf \<Longrightarrow> string_utils_bin2hex_buf buf (length buf) res = toHex_iter buf"
  using bin2hex2_loop [of 0 buf res]
  by (simp add: string_utils_bin2hex_buf_def Let_def bin2hex2_foldl)

lemma toHex_eq: "toHex bs = toHex_iter bs"
  using bin2hex2_loop [of 0 bs] by (simp add: toHex_def)

lemmas hex_printers = toHex_eq bin2hex_eq string_utils_bin2hex_eq string_utils_bin2hex_append_eq

section \<open>The readers invert the printers\<close>

lemma hex_pair_digits: "hex_pair (hex_char (unat b div 16)) (hex_char (unat b mod 16)) = b"
proof -
  have d: "unat b div 16 < 16" using unat_byte_bound [of b] by linarith
  then have "hex_pair (hex_char (unat b div 16)) (hex_char (unat b mod 16)) =
      push_bit 4 (of_nat (unat b div 16)) OR of_nat (unat b mod 16)"
    by (simp add: hex_pair_def)
  also have "of_nat (unat b div 16) = drop_bit 4 b"
    using d by (intro word_unat_eq_iff [THEN iffD2]) (simp add: drop_bit_eq_div unat_div unat_of_nat)
  also have "of_nat (unat b mod 16) = take_bit 4 b"
    by (rule word_unat_eq_iff [THEN iffD2]) (simp add: take_bit_eq_mod unat_mod unat_of_nat)
  also have "push_bit 4 (drop_bit 4 b) OR take_bit 4 b = b" by (rule bit_eqI) (auto simp: bit_simps)
  finally show ?thesis .
qed

lemma hex2bin2_toHex_iter [simp]: "hex2bin2 (toHex_iter bs) = bs"
  by (induction bs) (auto simp: hex_pair_digits)

lemma toHex_iter_second: "toHex_iter bs = a # b # cs \<Longrightarrow> b \<noteq> CHR ''x''"
  using hex_text_toHex_iter [of bs] hex_char_not_x by fastforce

lemma hex2bin_toHex_iter: "hex2bin (toHex_iter bs) = bs"
proof (cases bs)
  case (Cons b bs')
  then show ?thesis
    using hex_char_not_x [of "unat b mod 16"] by (auto simp: hex2bin_def hex_pair_digits)
qed (simp add: hex2bin_def)

lemma hex2bin_0x_toHex_iter: "bs \<noteq> [] \<Longrightarrow> hex2bin (''0x'' @ toHex_iter bs) = bs"
  by (cases bs) (auto simp: hex2bin_def hex_pair_digits)

lemma fromHex_toHex_iter: "fromHex (toHex_iter bs) = bs"
proof (cases bs)
  case (Cons b bs')
  then show ?thesis
    using hex_char_not_x [of "unat b mod 16"] by (auto simp: fromHex_def substr_def hex_pair_digits)
qed (simp add: fromHex_def)

lemma fromHex_0x_toHex_iter: "fromHex (''0x'' @ toHex_iter bs) = bs"
  by (simp add: fromHex_def substr_def)

lemma toHex_iter_inject [simp]: "toHex_iter as = toHex_iter bs \<longleftrightarrow> as = bs"
  by (metis hex2bin2_toHex_iter)

section \<open>Numbers in hexadecimal\<close>

definition hex_value :: "string \<Rightarrow> nat" where
  "hex_value s = foldl (\<lambda>a c. 16 * a + hex_digit_val c) 0 s"

lemma foldl_word_hex:
  "foldl (\<lambda>result c. result * 16 + of_nat (hex_digit_val c)) (of_nat a :: u64) s =
     of_nat (foldl (\<lambda>a c. 16 * a + hex_digit_val c) a s)"
proof (induction s arbitrary: a)
  case (Cons c s)
  have "of_nat a * 16 + of_nat (hex_digit_val c) = (of_nat (16 * a + hex_digit_val c) :: u64)"
    by (simp add: mult.commute)
  then show ?case using Cons [of "16 * a + hex_digit_val c"] by (simp add: mult.commute)
qed simp

lemma hexStrToInt_plain:
  "\<not> starts_with ''0x'' s \<Longrightarrow> hexStrToInt s = of_nat (hex_value s)"
proof -
  assume "\<not> starts_with ''0x'' s"
  then have "str_find ''0x'' s \<noteq> Some 0"
    by (cases s) (auto simp: starts_with_def)
  then show ?thesis
    using foldl_word_hex [of 0 s] by (simp add: hexStrToInt_def hex_value_def)
qed

lemma hexStrToInt_0x: "hexStrToInt (''0x'' @ s) = of_nat (hex_value s)"
  using foldl_word_hex [of 0 s] by (simp add: hexStrToInt_def hex_value_def starts_with_def)

lemma hex_text_not_0x: "hex_text s \<Longrightarrow> \<not> starts_with ''0x'' s"
  using hex_char_not_x by (cases s; cases "tl s") (fastforce simp: starts_with_def)+

definition be_value :: "byte list \<Rightarrow> nat" where
  "be_value bs = foldl (\<lambda>a b. 256 * a + unat b) 0 bs"

lemma hex_value_toHex_iter: "hex_value (toHex_iter bs) = be_value bs"
proof -
  have "foldl (\<lambda>a c. 16 * a + hex_digit_val c) x (toHex_iter bs) = foldl (\<lambda>a b. 256 * a + unat b) x bs" for x
  proof (induction bs arbitrary: x)
    case (Cons b bs)
    have "unat b div 16 < 16" using unat_byte_bound [of b] by linarith
    moreover have "16 * (16 * x + unat b div 16) + unat b mod 16 = 256 * x + unat b"
      using div_mult_mod_eq [of "unat b" 16] by simp
    ultimately show ?case using Cons [of "256 * x + unat b"] by (simp add: add.commute)
  qed simp
  then show ?thesis by (simp add: hex_value_def be_value_def)
qed

lemma hexStrToInt_toHex_iter: "hexStrToInt (toHex_iter bs) = of_nat (be_value bs)"
  using hexStrToInt_plain [OF hex_text_not_0x [OF hex_text_toHex_iter]]
  by (simp add: hex_value_toHex_iter)

lemma hex_value_loop:
  "foldl (\<lambda>a c. 16 * a + hex_digit_val c) 0 (uintToHexStr_loop n res) =
   foldl (\<lambda>a c. 16 * a + hex_digit_val c) n res"
proof (induction n res rule: uintToHexStr_loop.induct)
  case (1 n res)
  show ?case
  proof (cases "n = 0")
    case True
    then show ?thesis by (subst uintToHexStr_loop.simps) simp
  next
    case False
    then have "16 * (n div 16) + hex_digit_val (hex_char (n mod 16)) = n"
      by simp
    with False "1" show ?thesis by (subst uintToHexStr_loop.simps) simp
  qed
qed

lemma hexStrToInt_uintToHexStr: "hexStrToInt (uintToHexStr n) = n"
proof (cases "n = 0")
  case True
  then show ?thesis
    using hexStrToInt_0x [of "''0''"] by (simp add: uintToHexStr_def hex_value_def hex_digit_val_def)
next
  case False
  then show ?thesis
    using hexStrToInt_0x [of "uintToHexStr_loop (unat n) []"]
    by (simp add: uintToHexStr_def hex_value_def hex_value_loop)
qed

section \<open>Properties\<close>

text \<open>Every table-driven hexadecimal printer of the program (\<^verbatim>\<open>common::toHex\<close>, which fills a
  preallocated string by index, \<^verbatim>\<open>bin2hex\<close> of the crypto decorator and all three \<^verbatim>\<open>string_utils::bin2hex\<close>)
  prints what the arithmetic template \<^verbatim>\<open>toHex(begin, end)\<close> prints.\<close>

lemma hex_printers_agree:
  "toHex bs = toHex_iter bs \<and> bin2hex bs = toHex_iter bs \<and> string_utils_bin2hex bs = toHex_iter bs \<and>
   string_utils_bin2hex_append buf res = res @ toHex_iter (bytes_of_string buf) \<and>
   string_utils_bin2hex_buf bs (length bs) (replicate (2 * length bs) c) = toHex_iter bs"
  by (simp add: hex_printers string_utils_bin2hex_buf_eq)

text \<open>\<^verbatim>\<open>fromHex\<close> and \<^verbatim>\<open>hex2bin\<close> read back the bytes that the printers wrote, with and without the
  \<^verbatim>\<open>0x\<close> prefix (which \<^verbatim>\<open>hex2bin\<close> strips only in front of at least one digit).\<close>

lemma hex_readers_invert:
  "fromHex (toHex bs) = bs \<and> fromHex (''0x'' @ toHex bs) = bs \<and>
   hex2bin (bin2hex bs) = bs \<and> hex2bin (''0x'' @ bin2hex (b # bs)) = b # bs"
  unfolding hex_printers
  by (intro conjI fromHex_toHex_iter fromHex_0x_toHex_iter hex2bin_toHex_iter hex2bin_0x_toHex_iter) simp

text \<open>\<^verbatim>\<open>hexStrToInt\<close> reads back every 64-bit number that \<^verbatim>\<open>uintToHexStr\<close> printed, zero included,
  and reads the hexadecimal form of a byte string as its big-endian value modulo \<open>2 ^ 64\<close>.\<close>

lemma hex_numbers_roundtrip:
  "hexStrToInt (uintToHexStr n) = n \<and> hexStrToInt (toHex bs) = of_nat (be_value bs)"
  by (simp add: hexStrToInt_uintToHexStr hexStrToInt_toHex_iter hex_printers)

end
