(* ===== verification/Crypto_Decor.thy ===== *)
theory Crypto_Decor
  imports Convert_Strings
begin

text \<open>
  The OpenSSL decorator \<^verbatim>\<open>src/src/cpplib_open_ssl_decor/crypto.cpp\<close>: key loading and dumping, message
  digests, signing, signature checking, wallet and address generation.  OpenSSL is not part of the
  sources: its calls are the fields of the record \<open>openssl\<close>, one per call, with the return codes the
  decorator tests; \<open>'k\<close> is the type of an \<^verbatim>\<open>EVP_PKEY\<close>.  Releasing handles has no effect on results
  and is left out.  Arithmetic on iterators outside a vector, undefined in C++, is \<^const>\<open>OtherExc\<close>.
\<close>

section \<open>The OpenSSL calls\<close>

datatype evp_md = EVP_sha256 | EVP_ripemd160

record 'k openssl =
  BIO_new :: bool
  d2i_PUBKEY_bio :: "byte list \<Rightarrow> 'k option"
  d2i_PrivateKey_bio :: "byte list \<Rightarrow> 'k option"
  i2d_PUBKEY_bio :: "'k \<Rightarrow> int \<times> byte list"
  i2d_PrivateKey_bio :: "'k \<Rightarrow> int \<times> byte list"
  BIO_read_rc :: "byte list \<Rightarrow> int"
  EVP_PKEY_CTX_new_id :: bool
  EVP_PKEY_paramgen_init :: int
  EVP_PKEY_CTX_set_curve :: int
  EVP_PKEY_keygen_init :: int
  EVP_PKEY_keygen :: "int \<times> 'k"
  EVP_MD_CTX_create :: bool
  EVP_DigestInit :: "evp_md \<Rightarrow> int"
  EVP_DigestUpdate :: "evp_md \<Rightarrow> byte list \<Rightarrow> int"
  EVP_DigestFinal :: "evp_md \<Rightarrow> byte list \<Rightarrow> int \<times> byte list"
  EVP_DigestSignInit :: "'k \<Rightarrow> int"
  EVP_DigestSignUpdate :: "'k \<Rightarrow> byte list \<Rightarrow> int"
  EVP_DigestSignFinal_size :: "'k \<Rightarrow> byte list \<Rightarrow> int"
  EVP_DigestSignFinal :: "'k \<Rightarrow> byte list \<Rightarrow> int \<times> byte list"
  EVP_DigestVerifyInit :: "'k \<Rightarrow> int"
  EVP_DigestVerifyUpdate :: "'k \<Rightarrow> byte list \<Rightarrow> int"
  EVP_DigestVerifyFinal :: "'k \<Rightarrow> byte list \<Rightarrow> byte list \<Rightarrow> int"

text \<open>The wallet structure of \<^verbatim>\<open>crypto.h\<close>.\<close>

record CRYPTO_wallet =
  private_key_buf :: "byte list"
  public_key_buf :: "byte list"
  mh_address_buf :: "byte list"
  wallet_nonce :: int

section \<open>Keys\<close>

definition crypto_generate_keypair :: "'k openssl \<Rightarrow> 'k fallible" where
  "crypto_generate_keypair ssl =
     require (EVP_PKEY_CTX_new_id ssl) (StdExc ''Cannot create key context'')
    (require (EVP_PKEY_paramgen_init ssl = 1) (StdExc ''Cannot initialise key parameters'')
    (require (\<not> EVP_PKEY_CTX_set_curve ssl \<le> 0) (StdExc ''Cannot set secp256k1 algorithm'')
    (require (EVP_PKEY_keygen_init ssl = 1) (StdExc ''Cannot initialise keys generator'')
    (require (fst (EVP_PKEY_keygen ssl) = 1) (StdExc ''Cannot generate keys'')
      (Inr (snd (EVP_PKEY_keygen ssl)))))))"

definition crypto_dump_key :: "'k openssl \<Rightarrow> 'k \<Rightarrow> bool \<Rightarrow> byte list fallible" where
  "crypto_dump_key ssl pkey pubkey =
     require (BIO_new ssl) (StdExc ''Cannot create BIO object'')
    (bindE (if pubkey
            then require (fst (i2d_PUBKEY_bio ssl pkey) = 1) (StdExc ''Cannot write public key to BIO'')
                   (Inr (snd (i2d_PUBKEY_bio ssl pkey)))
            else require (fst (i2d_PrivateKey_bio ssl pkey) = 1) (StdExc ''Cannot private write key to BIO'')
                   (Inr (snd (i2d_PrivateKey_bio ssl pkey))))
       (\<lambda>key_buf. require (0 < BIO_read_rc ssl key_buf) (StdExc ''Cannot read BIO'') (Inr key_buf)))"

definition crypto_dump_private_key :: "'k openssl \<Rightarrow> 'k \<Rightarrow> byte list fallible" where
  "crypto_dump_private_key ssl pkey = crypto_dump_key ssl pkey False"

definition crypto_dump_public_key :: "'k openssl \<Rightarrow> 'k \<Rightarrow> byte list fallible" where
  "crypto_dump_public_key ssl pkey = crypto_dump_key ssl pkey True"

definition crypto_load_key :: "'k openssl \<Rightarrow> byte list \<Rightarrow> bool \<Rightarrow> 'k fallible" where
  "crypto_load_key ssl key_buf pubkey =
     require (BIO_new ssl) (StdExc ''Cannot create BIO object'')
       (if pubkey
        then case d2i_PUBKEY_bio ssl key_buf of
               None \<Rightarrow> Inl (StdExc ''Cannot load public key from BIO'') | Some pkey \<Rightarrow> Inr pkey
        else case d2i_PrivateKey_bio ssl key_buf of
               None \<Rightarrow> Inl (StdExc ''Cannot load private key from BIO'') | Some pkey \<Rightarrow> Inr pkey)"

definition crypto_load_private_key :: "'k openssl \<Rightarrow> byte list \<Rightarrow> 'k fallible" where
  "crypto_load_private_key ssl key_buf = crypto_load_key ssl key_buf False"

definition crypto_load_public_key :: "'k openssl \<Rightarrow> byte list \<Rightarrow> 'k fallible" where
  "crypto_load_public_key ssl key_buf = crypto_load_key ssl key_buf True"

section \<open>Digests and addresses\<close>

definition digest_message :: "'k openssl \<Rightarrow> evp_md \<Rightarrow> byte list \<Rightarrow> byte list fallible" where
  "digest_message ssl type data =
     require (EVP_MD_CTX_create ssl) (StdExc ''Digest context create problem'')
    (require (EVP_DigestInit ssl type = 1) (StdExc ''Digest init problem'')
    (require (EVP_DigestUpdate ssl type data = 1) (StdExc ''Digest update problem'')
    (require (fst (EVP_DigestFinal ssl type data) = 1) (StdExc ''Digest processing problem'')
      (Inr (snd (EVP_DigestFinal ssl type data))))))"

definition crypto_generate_address :: "'k openssl \<Rightarrow> byte list \<Rightarrow> byte list fallible" where
  "crypto_generate_address ssl pub_buf =
     require (65 \<le> length pub_buf) OtherExc
    (bindE (digest_message ssl EVP_sha256 (drop (length pub_buf - 65) pub_buf)) (\<lambda>buf2.
     bindE (digest_message ssl EVP_ripemd160 buf2) (\<lambda>buf3.
     let buf3 = 0 # buf3 in
     bindE (digest_message ssl EVP_sha256 buf3) (\<lambda>buf1.
     bindE (digest_message ssl EVP_sha256 buf1) (\<lambda>buf2.
     require (4 \<le> length buf2) OtherExc (Inr (buf3 @ take 4 buf2)))))))"

definition CRYPTO_generate_address :: "'k openssl \<Rightarrow> string \<Rightarrow> string fallible" where
  "CRYPTO_generate_address ssl public_key =
     bindE (crypto_generate_address ssl (hex2bin public_key)) (\<lambda>buf. Inr (bin2hex buf))"

text \<open>\<^verbatim>\<open>vector::resize(4)\<close> cuts, or fills with zeroes.\<close>

definition resize :: "nat \<Rightarrow> byte list \<Rightarrow> byte list" where
  "resize n bs = take n bs @ replicate (n - length bs) 0"

definition CRYPTO_check_address :: "'k openssl \<Rightarrow> string \<Rightarrow> bool fallible" where
  "CRYPTO_check_address ssl mh_address =
     (let buf = hex2bin mh_address
      in require (4 \<le> length buf) OtherExc
        (bindE (digest_message ssl EVP_sha256 (take (length buf - 4) buf)) (\<lambda>buf2.
         bindE (digest_message ssl EVP_sha256 buf2) (\<lambda>buf1.
         Inr (resize 4 buf1 = drop (length buf - 4) buf)))))"

section \<open>Signatures\<close>

definition crypto_sign_data :: "'k openssl \<Rightarrow> string \<Rightarrow> byte list \<Rightarrow> byte list fallible" where
  "crypto_sign_data ssl private_key data =
     bindE (crypto_load_private_key ssl (hex2bin private_key)) (\<lambda>pkey.
       require (EVP_MD_CTX_create ssl) (StdExc ''Cannot create digest context'')
      (require (EVP_DigestSignInit ssl pkey = 1) (StdExc ''Cannot initialise SHA-256 signing'')
      (require (EVP_DigestSignUpdate ssl pkey data = 1) (StdExc ''Cannot sign the data'')
      (require (EVP_DigestSignFinal_size ssl pkey data = 1) (StdExc ''Cannot obtain signature size'')
      (require (fst (EVP_DigestSignFinal ssl pkey data) = 1) (StdExc ''Cannot obtain signature'')
        (Inr (snd (EVP_DigestSignFinal ssl pkey data))))))))"

definition crypto_check_sign_data :: "'k openssl \<Rightarrow> byte list \<Rightarrow> string \<Rightarrow> byte list \<Rightarrow> bool fallible" where
  "crypto_check_sign_data ssl sign public_key data =
     require (EVP_MD_CTX_create ssl) (StdExc ''Cannot create digest context'')
    (bindE (crypto_load_public_key ssl (hex2bin public_key)) (\<lambda>pkey.
       require (EVP_DigestVerifyInit ssl pkey = 1) (StdExc ''Cannot initialise SHA-256 verifying'')
      (require (EVP_DigestVerifyUpdate ssl pkey data = 1) (StdExc ''Cannot verify the data'')
      (let rc = EVP_DigestVerifyFinal ssl pkey data sign
       in if rc = 0 then Inr False else if rc = 1 then Inr True
          else Inl (StdExc ''Serious error of signature verification'')))))"

definition CRYPTO_sign_text :: "'k openssl \<Rightarrow> string \<Rightarrow> string \<Rightarrow> byte list fallible" where
  "CRYPTO_sign_text ssl private_key txt = crypto_sign_data ssl private_key (bytes_of_string txt)"

definition CRYPTO_sign_data :: "'k openssl \<Rightarrow> string \<Rightarrow> byte list \<Rightarrow> byte list fallible" where
  "CRYPTO_sign_data ssl private_key data = crypto_sign_data ssl private_key data"

definition CRYPTO_check_sign_text :: "'k openssl \<Rightarrow> byte list \<Rightarrow> string \<Rightarrow> string \<Rightarrow> bool fallible" where
  "CRYPTO_check_sign_text ssl sign public_key txt =
     crypto_check_sign_data ssl sign public_key (bytes_of_string txt)"

definition CRYPTO_check_sign_data :: "'k openssl \<Rightarrow> byte list \<Rightarrow> string \<Rightarrow> byte list \<Rightarrow> bool fallible" where
  "CRYPTO_check_sign_data ssl sign public_key data = crypto_check_sign_data ssl sign public_key data"

section \<open>Wallets\<close>

text \<open>The wallet argument is overwritten except for its nonce.\<close>

definition CRYPTO_generate_wallet :: "'k openssl \<Rightarrow> CRYPTO_wallet \<Rightarrow> CRYPTO_wallet fallible" where
  "CRYPTO_generate_wallet ssl wallet =
     bindE (crypto_generate_keypair ssl) (\<lambda>pkey.
     bindE (crypto_dump_public_key ssl pkey) (\<lambda>pub.
     bindE (crypto_dump_private_key ssl pkey) (\<lambda>prv.
     bindE (crypto_generate_address ssl pub) (\<lambda>addr.
     Inr (wallet\<lparr>public_key_buf := pub, private_key_buf := prv, mh_address_buf := addr\<rparr>)))))"

text \<open>The overload on strings: private key, public key and address in hexadecimal.\<close>

definition CRYPTO_generate_wallet_text :: "'k openssl \<Rightarrow> (string \<times> string \<times> string) fallible" where
  "CRYPTO_generate_wallet_text ssl =
     bindE (CRYPTO_generate_wallet ssl
        \<lparr>private_key_buf = [], public_key_buf = [], mh_address_buf = [], wallet_nonce = 0\<rparr>)
       (\<lambda>w. Inr (bin2hex (private_key_buf w), bin2hex (public_key_buf w), bin2hex (mh_address_buf w)))"

definition CRYPTO_init_wallet :: "CRYPTO_wallet \<Rightarrow> string \<Rightarrow> string \<Rightarrow> string \<Rightarrow> CRYPTO_wallet" where
  "CRYPTO_init_wallet wallet private_key public_key mh_address =
     wallet\<lparr>private_key_buf := hex2bin private_key, public_key_buf := hex2bin public_key,
            mh_address_buf := hex2bin mh_address\<rparr>"

definition CRYPTO_generate_public :: "'k openssl \<Rightarrow> string \<Rightarrow> string fallible" where
  "CRYPTO_generate_public ssl private_key =
     bindE (crypto_load_private_key ssl (hex2bin private_key)) (\<lambda>pkey.
     bindE (crypto_dump_public_key ssl pkey) (\<lambda>pub. Inr (bin2hex pub)))"

section \<open>Addresses carry their checksum\<close>

lemma hex2bin_bin2hex [simp]: "hex2bin (bin2hex bs) = bs"
  by (simp add: bin2hex_eq hex2bin_toHex_iter)

lemma hex2bin_0x_bin2hex: "bs \<noteq> [] \<Longrightarrow> hex2bin (''0x'' @ bin2hex bs) = bs"
  by (simp add: bin2hex_eq hex2bin_0x_toHex_iter del: append_Cons)

lemma resize_long [simp]: "n \<le> length bs \<Longrightarrow> resize n bs = take n bs"
  by (simp add: resize_def)

lemma check_address_bytes:
  assumes "crypto_generate_address ssl pub = Inr buf" and "hex2bin a = buf"
  shows "CRYPTO_check_address ssl a = Inr True"
proof -
  from assms(1) obtain body d1 d2 where "digest_message ssl EVP_sha256 body = Inr d1"
    "digest_message ssl EVP_sha256 d1 = Inr d2" "4 \<le> length d2" "buf = body @ take 4 d2"
    by (fastforce simp: crypto_generate_address_def Let_def require_Inr_conv bindE_Inr_conv)
  then show ?thesis by (simp add: CRYPTO_check_address_def assms(2))
qed

lemma generated_address_nonempty: "crypto_generate_address ssl pub = Inr buf \<Longrightarrow> \<exists>bs. buf = 0 # bs"
  by (auto simp: crypto_generate_address_def Let_def require_Inr_conv bindE_Inr_conv)

lemma hex_char_0: "hex_char 0 = CHR ''0''"
  by (simp add: hex_char_def char_of_def bit_0)

lemma generated_address_text:
  assumes "CRYPTO_generate_address ssl pk = Inr a"
  shows "starts_with ''00'' a \<and> CRYPTO_check_address ssl a = Inr True \<and>
    CRYPTO_check_address ssl (''0x'' @ a) = Inr True"
proof -
  from assms obtain buf where g: "crypto_generate_address ssl (hex2bin pk) = Inr buf" and a: "a = bin2hex buf"
    by (auto simp: CRYPTO_generate_address_def bindE_Inr_conv)
  then obtain bs where buf: "buf = 0 # bs" using generated_address_nonempty by blast
  have "hex2bin (''0x'' @ bin2hex buf) = buf" using buf by (intro hex2bin_0x_bin2hex) simp
  then have "CRYPTO_check_address ssl (''0x'' @ a) = Inr True" unfolding a by (rule check_address_bytes [OF g])
  moreover have "CRYPTO_check_address ssl a = Inr True" unfolding a by (rule check_address_bytes [OF g]) simp
  moreover have "starts_with ''00'' a" by (simp add: a buf bin2hex_eq starts_with_def hex_char_0)
  ultimately show ?thesis by simp
qed

text \<open>What the decorator relies on in OpenSSL's digests: the calls succeed and give 32 and 20 bytes.\<close>

definition digests_ok :: "'k openssl \<Rightarrow> bool" where
  "digests_ok ssl \<longleftrightarrow> EVP_MD_CTX_create ssl \<and>
     (\<forall>t d. EVP_DigestInit ssl t = 1 \<and> EVP_DigestUpdate ssl t d = 1 \<and> fst (EVP_DigestFinal ssl t d) = 1 \<and>
        length (snd (EVP_DigestFinal ssl t d)) = (case t of EVP_sha256 \<Rightarrow> 32 | EVP_ripemd160 \<Rightarrow> 20))"

lemma digest_message_ok:
  "digests_ok ssl \<Longrightarrow> digest_message ssl t d = Inr (snd (EVP_DigestFinal ssl t d))"
  by (simp add: digests_ok_def digest_message_def)

abbreviation sha256_of :: "'k openssl \<Rightarrow> byte list \<Rightarrow> byte list" where
  "sha256_of ssl d \<equiv> snd (EVP_DigestFinal ssl EVP_sha256 d)"

lemma generate_address_total:
  "digests_ok ssl \<Longrightarrow> 65 \<le> length pub \<Longrightarrow> \<exists>buf. crypto_generate_address ssl pub = Inr buf \<and> length buf = 25"
  by (simp add: crypto_generate_address_def digest_message_ok Let_def) (simp add: digests_ok_def)

lemma check_address_iff:
  assumes "digests_ok ssl"
  shows "CRYPTO_check_address ssl a = Inr True \<longleftrightarrow>
    (\<exists>body. hex2bin a = body @ take 4 (sha256_of ssl (sha256_of ssl body)))"
proof -
  have len: "length (sha256_of ssl d) = 32" for d using assms by (simp add: digests_ok_def)
  show ?thesis
  proof
    assume "CRYPTO_check_address ssl a = Inr True"
    then show "\<exists>body. hex2bin a = body @ take 4 (sha256_of ssl (sha256_of ssl body))"
      by (intro exI [of _ "take (length (hex2bin a) - 4) (hex2bin a)"])
        (simp add: CRYPTO_check_address_def Let_def require_Inr_conv digest_message_ok [OF assms] len)
  qed (auto simp: CRYPTO_check_address_def Let_def digest_message_ok [OF assms] len)
qed

section \<open>Properties\<close>

text \<open>With working digests, a public key of at least 65 bytes always has an address; it is 25
  bytes (50 hexadecimal digits) starting with 00, and \<^verbatim>\<open>CRYPTO_check_address\<close> accepts it with and
  without \<^verbatim>\<open>0x\<close>.\<close>

lemma generated_address_valid:
  assumes "digests_ok ssl" and "65 \<le> length (hex2bin pk)"
  shows "\<exists>a. CRYPTO_generate_address ssl pk = Inr a \<and> length a = 50 \<and> starts_with ''00'' a \<and>
    CRYPTO_check_address ssl a = Inr True \<and> CRYPTO_check_address ssl (''0x'' @ a) = Inr True"
proof -
  obtain buf where "crypto_generate_address ssl (hex2bin pk) = Inr buf" "length buf = 25"
    using generate_address_total [OF assms] by blast
  then have "CRYPTO_generate_address ssl pk = Inr (bin2hex buf)" and "length (bin2hex buf) = 50"
    by (simp_all add: CRYPTO_generate_address_def bin2hex_eq)
  then show ?thesis using generated_address_text by blast
qed

text \<open>A concrete provider, for evaluation: keys are byte lists, digests cut or pad their input.\<close>

definition sample_ssl :: "byte list openssl" where
  "sample_ssl = \<lparr>BIO_new = True, d2i_PUBKEY_bio = Some, d2i_PrivateKey_bio = Some,
     i2d_PUBKEY_bio = (\<lambda>k. (1, k)), i2d_PrivateKey_bio = (\<lambda>k. (1, k)), BIO_read_rc = (\<lambda>b. int (length b)),
     EVP_PKEY_CTX_new_id = True, EVP_PKEY_paramgen_init = 1, EVP_PKEY_CTX_set_curve = 1,
     EVP_PKEY_keygen_init = 1, EVP_PKEY_keygen = (1, replicate 70 5), EVP_MD_CTX_create = True,
     EVP_DigestInit = (\<lambda>_. 1), EVP_DigestUpdate = (\<lambda>_ _. 1),
     EVP_DigestFinal = (\<lambda>t d. (1, resize (case t of EVP_sha256 \<Rightarrow> 32 | EVP_ripemd160 \<Rightarrow> 20) d)),
     EVP_DigestSignInit = (\<lambda>_. 1), EVP_DigestSignUpdate = (\<lambda>_ _. 1), EVP_DigestSignFinal_size = (\<lambda>_ _. 1),
     EVP_DigestSignFinal = (\<lambda>k d. (1, resize 4 k @ d)), EVP_DigestVerifyInit = (\<lambda>_. 1),
     EVP_DigestVerifyUpdate = (\<lambda>_ _. 1),
     EVP_DigestVerifyFinal = (\<lambda>k d s. if s = resize 4 k @ d then 1 else 0)\<rparr>"

lemma length_resize [simp]: "length (resize n bs) = n"
  by (simp add: resize_def)

lemma sample_ssl_digests_ok: "digests_ok sample_ssl"
  by (simp add: digests_ok_def sample_ssl_def)

lemma generated_address_valid_witness:
  "\<exists>a. CRYPTO_generate_address sample_ssl (bin2hex (replicate 65 7)) = Inr a \<and> length a = 50 \<and>
    starts_with ''00'' a \<and> CRYPTO_check_address sample_ssl a = Inr True \<and>
    CRYPTO_check_address sample_ssl (''0x'' @ a) = Inr True"
  by (rule generated_address_valid) (simp_all add: sample_ssl_digests_ok)

text \<open>With working digests \<^verbatim>\<open>CRYPTO_check_address\<close> accepts exactly the texts whose last four bytes
  are the first four of the double SHA-256 of the others.\<close>

lemma check_address_exact:
  assumes "digests_ok ssl"
  shows "CRYPTO_check_address ssl a = Inr True \<longleftrightarrow>
    (\<exists>body. hex2bin a = body @ take 4 (sha256_of ssl (sha256_of ssl body)))"
  by (rule check_address_iff [OF assms])

lemma check_address_exact_witness:
  "CRYPTO_check_address sample_ssl (bin2hex [1, 2, 3, 4, 5, 1, 2, 3, 4]) = Inr True \<longleftrightarrow>
    (\<exists>body. hex2bin (bin2hex [1, 2, 3, 4, 5, 1, 2, 3, 4]) =
       body @ take 4 (sha256_of sample_ssl (sha256_of sample_ssl body)))"
  by (rule check_address_exact [OF sample_ssl_digests_ok])

text \<open>A generated wallet is consistent: the public key and the address derived again from its
  printed private key are the printed ones, and the address check accepts the address, provided
  OpenSSL reads back the private keys it writes.\<close>

lemma generated_wallet_consistent:
  assumes "CRYPTO_generate_wallet_text ssl = Inr (prv, pub, addr)"
    and "\<And>k. fst (i2d_PrivateKey_bio ssl k) = 1 \<Longrightarrow>
      d2i_PrivateKey_bio ssl (snd (i2d_PrivateKey_bio ssl k)) = Some k"
  shows "CRYPTO_generate_public ssl prv = Inr pub \<and> CRYPTO_generate_address ssl pub = Inr addr \<and>
    CRYPTO_check_address ssl addr = Inr True"
proof -
  from assms(1) obtain k pb qb ab where k: "crypto_dump_public_key ssl k = Inr pb" "crypto_dump_private_key ssl k = Inr qb"
    and ab: "crypto_generate_address ssl pb = Inr ab"
    and t: "prv = bin2hex qb" "pub = bin2hex pb" "addr = bin2hex ab"
    by (auto simp: CRYPTO_generate_wallet_text_def CRYPTO_generate_wallet_def bindE_Inr_conv)
  have "crypto_load_private_key ssl qb = Inr k"
    using k(2) assms(2) by (auto simp: crypto_dump_private_key_def crypto_dump_key_def crypto_load_private_key_def
        crypto_load_key_def require_Inr_conv bindE_Inr_conv)
  with k(1) ab show ?thesis
    using check_address_bytes [OF ab, of addr]
    by (simp add: t CRYPTO_generate_public_def CRYPTO_generate_address_def)
qed

lemma sample_wallet: "\<exists>prv pub addr. CRYPTO_generate_wallet_text sample_ssl = Inr (prv, pub, addr)"
  using generate_address_total [OF sample_ssl_digests_ok, of "replicate 70 5"]
  by (auto simp: CRYPTO_generate_wallet_text_def CRYPTO_generate_wallet_def crypto_generate_keypair_def
      crypto_dump_public_key_def crypto_dump_private_key_def crypto_dump_key_def)
    (simp_all add: sample_ssl_def)

lemma generated_wallet_consistent_witness:
  "\<exists>prv pub addr. CRYPTO_generate_wallet_text sample_ssl = Inr (prv, pub, addr) \<and>
    CRYPTO_generate_public sample_ssl prv = Inr pub \<and> CRYPTO_generate_address sample_ssl pub = Inr addr \<and>
    CRYPTO_check_address sample_ssl addr = Inr True"
proof -
  obtain prv pub addr where w: "CRYPTO_generate_wallet_text sample_ssl = Inr (prv, pub, addr)"
    using sample_wallet by blast
  have "CRYPTO_generate_public sample_ssl prv = Inr pub \<and> CRYPTO_generate_address sample_ssl pub = Inr addr \<and>
      CRYPTO_check_address sample_ssl addr = Inr True"
    using w by (rule generated_wallet_consistent) (simp add: sample_ssl_def)
  with w show ?thesis by blast
qed

end
