(* ===== verification/Tx_Utils.thy ===== *)
theory Tx_Utils
  imports Crypto_Decor
begin

text \<open>
  \<^verbatim>\<open>src/src/task_handlers/utils.{h,cpp}\<close>: endpoint addresses, compact integers, the serialised form
  of a transaction that is signed and hashed, its parser, and address validation.  Integers wider
  than a byte are written little-endian behind a marker byte 250, 251 or 252; the reader works on
  hexadecimal text and swaps the byte order in place.  The lemmas show that reading inverts writing,
  for single integers and for whole transactions, and where it does not.
\<close>

section \<open>Endpoint addresses\<close>

record endpoint =
  host :: string
  port :: string
  path :: string
  use_ssl :: bool

definition parse_address :: "string \<Rightarrow> endpoint \<Rightarrow> endpoint" where
  "parse_address address e =
     (let tmp = address;
          (e, tmp) = (case str_find ''http://'' tmp of
              Some _ \<Rightarrow> (e\<lparr>port := ''80''\<rparr>, drop 7 tmp) | None \<Rightarrow> (e, tmp));
          (e, tmp) = (case str_find ''https://'' tmp of
              Some _ \<Rightarrow> (e\<lparr>port := ''443'', use_ssl := True\<rparr>, drop 8 tmp) | None \<Rightarrow> (e, tmp));
          (e, tmp) = (case str_find ''/'' tmp of
              Some pos \<Rightarrow> (e\<lparr>path := drop pos tmp\<rparr>, take pos tmp) | None \<Rightarrow> (e, tmp));
          (e, tmp) = (case str_find '':'' tmp of
              Some pos \<Rightarrow> (e\<lparr>port := drop (pos + 1) tmp\<rparr>, take pos tmp) | None \<Rightarrow> (e, tmp))
      in e\<lparr>host := tmp\<rparr>)"

section \<open>Compact integers\<close>

fun toLittleEndian :: "nat \<Rightarrow> nat \<Rightarrow> byte list" where
  "toLittleEndian 0 v = []"
| "toLittleEndian (Suc n) v = of_nat (v mod 256) # toLittleEndian n (v div 256)"

definition write_compact_int :: "nat \<Rightarrow> byte list \<Rightarrow> byte list" where
  "write_compact_int v buf =
     buf @ (if v \<le> 249 then toLittleEndian 1 v
            else if v \<le> 2 ^ 16 - 1 then toLittleEndian 1 250 @ toLittleEndian 2 v
            else if v \<le> 2 ^ 32 - 1 then toLittleEndian 1 251 @ toLittleEndian 4 v
            else toLittleEndian 1 252 @ toLittleEndian 8 v)"

text \<open>The in-place loop of \<^verbatim>\<open>reverse_byte_order\<close> from index \<open>i\<close> up to \<open>cnt\<close>.\<close>

definition swap_at :: "nat \<Rightarrow> nat \<Rightarrow> 'a list \<Rightarrow> 'a list" where
  "swap_at i j xs = xs[i := xs ! j, j := xs ! i]"

definition reverse_byte_order :: "string \<Rightarrow> string" where
  "reverse_byte_order hex =
     (let sz = length hex; cnt = sz div 2 - (sz div 2) mod 2
      in foldl (\<lambda>h i. if i mod 2 \<noteq> 0 then swap_at i (sz - i) h else swap_at i (sz - i - 2) h)
           hex [0..<cnt])"

definition read_compact_int :: "string \<Rightarrow> (u64 \<times> string) fallible" where
  "read_compact_int buf =
     (let finish = (\<lambda>tmp rest. Inr (hexStrToInt (reverse_byte_order tmp), rest))
      in if length buf < 2 then Inr (0, buf)
         else if take 2 buf = ''fa'' then
           require (6 \<le> length buf) (StdExc ''Can not read compact uint16'')
             (finish (take 4 (drop 2 buf)) (drop 4 (drop 2 buf)))
         else if take 2 buf = ''fb'' then
           require (10 \<le> length buf) (StdExc ''Can not read compact uint32'')
             (finish (take 8 (drop 2 buf)) (drop 8 (drop 2 buf)))
         else if take 2 buf = ''fc'' then
           require (18 \<le> length buf) (StdExc ''Can not read compact uint64'')
             (finish (take 16 (drop 2 buf)) (drop 16 (drop 2 buf)))
         else
           require (4 \<le> length buf) (StdExc ''Can not read compact uint8'')
             (finish (take 2 buf) (drop 2 buf)))"

section \<open>Transactions\<close>

text \<open>The variadic arguments of \<^verbatim>\<open>gen_sign\<close> and \<^verbatim>\<open>make_tx\<close>; an argument of another type than the
  format asks for is undefined, \<^const>\<open>None\<close>.\<close>

datatype fmt_arg = A32 u32 | A64 u64 | AStr string

definition strip_0x :: "string \<Rightarrow> string" where
  "strip_0x param =
     (if 2 < length param \<and> param ! 0 = CHR ''0'' \<and> param ! 1 = CHR ''x'' then drop 2 param else param)"

fun append_args :: "string \<Rightarrow> fmt_arg list \<Rightarrow> byte list \<Rightarrow> byte list option" where
  "append_args [] args data = Some data"
| "append_args (f # fmt) args data =
     (if f = CHR ''d'' \<or> f = CHR ''u'' then
        (case args of A32 v # args' \<Rightarrow> append_args fmt args' (write_compact_int (unat v) data) | _ \<Rightarrow> None)
      else if f = CHR ''D'' \<or> f = CHR ''U'' then
        (case args of A64 v # args' \<Rightarrow> append_args fmt args' (write_compact_int (unat v) data) | _ \<Rightarrow> None)
      else if f = CHR ''x'' then
        (case args of AStr s # args' \<Rightarrow> append_args fmt args' (data @ hex2bin (strip_0x (c_str s))) | _ \<Rightarrow> None)
      else if f = CHR ''s'' then
        (case args of AStr s # args' \<Rightarrow> append_args fmt args' (data @ bytes_of_string (c_str s)) | _ \<Rightarrow> None)
      else append_args fmt args data)"

text \<open>\<^verbatim>\<open>gen_sign\<close> returns its success with the transaction text and the result (the signature or the
  error message); the two strings keep their old value where the code does not write them.\<close>

definition gen_sign :: "'k openssl \<Rightarrow> string \<Rightarrow> string \<Rightarrow> string \<Rightarrow> string \<Rightarrow> fmt_arg list \<Rightarrow>
    (bool \<times> string \<times> string) fallible" where
  "gen_sign ssl transaction result prv_key fmt args =
     (case append_args fmt args [] of
        None \<Rightarrow> Inl OtherExc
      | Some data \<Rightarrow>
          if data = [] then Inr (False, transaction, result)
          else case CRYPTO_sign_data ssl prv_key data of
                 Inr sign \<Rightarrow> Inr (True, bin2hex data, bin2hex sign)
               | Inl (StdExc what) \<Rightarrow> Inr (False, transaction, ''generate sign failed: '' @ what)
               | Inl e \<Rightarrow> Inl e)"

definition make_tx :: "(byte list \<Rightarrow> byte list) \<Rightarrow> string \<Rightarrow> string \<Rightarrow> fmt_arg list \<Rightarrow> (bool \<times> string) fallible" where
  "make_tx sha256 result fmt args =
     (case append_args fmt args [] of
        None \<Rightarrow> Inl OtherExc
      | Some data \<Rightarrow>
          if data = [] then Inr (False, result)
          else Inr (True, bin2hex (sha256 (sha256 data))))"

record parsed_tx =
  tx_to :: string
  tx_value :: u64
  tx_fee :: u64
  tx_nonce :: u64
  tx_data_size :: u64
  tx_data :: string

text \<open>\<^verbatim>\<open>parse_tansaction\<close> writes its output arguments as it goes; a text shorter than an address is
  read behind its end.\<close>

definition parse_tansaction :: "string \<Rightarrow> parsed_tx \<Rightarrow> (bool \<times> parsed_tx) fallible" where
  "parse_tansaction t out =
     require (50 \<le> length t) OtherExc
      (let out = out\<lparr>tx_to := tx_to out @ ''0x'' @ take 50 t\<rparr>
       in case read_compact_int (drop 50 t) of Inl _ \<Rightarrow> Inr (False, out)
        | Inr (v, t) \<Rightarrow> let out = out\<lparr>tx_value := v\<rparr> in
          case read_compact_int t of Inl _ \<Rightarrow> Inr (False, out)
        | Inr (v, t) \<Rightarrow> let out = out\<lparr>tx_fee := v\<rparr> in
          case read_compact_int t of Inl _ \<Rightarrow> Inr (False, out)
        | Inr (v, t) \<Rightarrow> let out = out\<lparr>tx_nonce := v\<rparr> in
          case read_compact_int t of Inl _ \<Rightarrow> Inr (False, out)
        | Inr (v, t) \<Rightarrow> Inr (True, out\<lparr>tx_data_size := v, tx_data := t\<rparr>))"

definition validate_address :: "'k openssl \<Rightarrow> string \<Rightarrow> bool fallible" where
  "validate_address ssl v =
     (if length v = 26 * 2 \<and> substr v 0 2 = ''0x'' \<and> substr v 2 2 = ''00''
      then CRYPTO_check_address ssl v else Inr False)"

section \<open>Swapping the byte order\<close>

text \<open>Where the character at position \<open>p\<close> comes from.\<close>

definition mirror :: "nat \<Rightarrow> nat \<Rightarrow> nat" where
  "mirror sz p = (if p mod 2 \<noteq> 0 then sz - p else sz - p - 2)"

lemma mirror_byte:
  "q < k \<Longrightarrow> j < 2 \<Longrightarrow> mirror (2 * k) (2 * q + j) = 2 * (k - 1 - q) + j"
  by (cases "j = 0") (auto simp: mirror_def less_2_cases_iff)

lemma byte_position:
  assumes "p < 2 * (k :: nat)"
  obtains q j where "p = 2 * q + j" "q < k" "j < 2"
proof
  show "p = 2 * (p div 2) + p mod 2" "p div 2 < k" "p mod 2 < 2" using assms by simp_all
qed

lemma mirror_step:
  assumes "even sz" "p < sz"
  shows "mirror sz p < sz" "mirror sz (mirror sz p) = p"
proof -
  from assms obtain k where sz: "sz = 2 * k" by (elim evenE)
  with assms obtain q j where q: "p = 2 * q + j" "q < k" "j < 2" by (auto elim: byte_position)
  have m: "mirror (2 * k) p = 2 * (k - 1 - q) + j" unfolding q(1) using q by (intro mirror_byte)
  have "mirror (2 * k) (2 * (k - 1 - q) + j) = 2 * (k - 1 - (k - 1 - q)) + j"
    using q by (intro mirror_byte) auto
  with q m show "mirror sz p < sz" "mirror sz (mirror sz p) = p" unfolding sz by simp_all
qed

lemma length_swap_at [simp]: "length (swap_at i j xs) = length xs"
  by (simp add: swap_at_def)

lemma nth_swap_at:
  "i < length xs \<Longrightarrow> j < length xs \<Longrightarrow> p < length xs \<Longrightarrow>
   swap_at i j xs ! p = xs ! (if p = i then j else if p = j then i else p)"
  by (auto simp: swap_at_def nth_list_update)

lemma mirror_half:
  assumes "even sz" "i < sz div 2 - (sz div 2) mod 2"
  shows "i < mirror sz i" "i < sz"
proof -
  from assms obtain k where sz: "sz = 2 * k" by (elim evenE)
  have "i < 2 * (k div 2)" using assms(2) unfolding sz by (simp add: minus_mod_eq_mult_div)
  then obtain q j where q: "i = 2 * q + j" "q < k div 2" "j < 2" by (auto elim: byte_position)
  then have "mirror (2 * k) (2 * q + j) = 2 * (k - 1 - q) + j" by (intro mirror_byte) auto
  moreover have "q < k - 1 - q" using q(2) by linarith
  ultimately show "i < mirror sz i" "i < sz" using q unfolding sz by simp_all
qed

lemma reverse_byte_order_steps:
  assumes "even (length hex)" "n \<le> length hex div 2 - (length hex div 2) mod 2"
  defines "h \<equiv> foldl (\<lambda>h i. if i mod 2 \<noteq> 0 then swap_at i (length hex - i) h
                               else swap_at i (length hex - i - 2) h) hex [0..<n]"
  shows "length h = length hex \<and> (\<forall>p < length hex. h ! p =
    hex ! (if p < n \<or> mirror (length hex) p < n then mirror (length hex) p else p))"
  using assms(2) unfolding h_def
proof (induction n)
  case (Suc n)
  let ?sz = "length hex"
  let ?f = "\<lambda>h i. if i mod 2 \<noteq> 0 then swap_at i (?sz - i) h else swap_at i (?sz - i - 2) h"
  let ?h = "foldl ?f hex [0..<n]"
  have IH: "length ?h = ?sz" "\<And>p. p < ?sz \<Longrightarrow> ?h ! p = hex ! (if p < n \<or> mirror ?sz p < n then mirror ?sz p else p)"
    using Suc by auto
  have n: "n < mirror ?sz n" "n < ?sz" and m: "mirror ?sz n < ?sz" "mirror ?sz (mirror ?sz n) = n"
    using Suc.prems assms(1) mirror_half [of ?sz n] mirror_step [of ?sz n] by auto
  have step: "foldl ?f hex [0..<Suc n] = swap_at n (mirror ?sz n) ?h"
    by (simp add: mirror_def)
  have "swap_at n (mirror ?sz n) ?h ! p =
      hex ! (if p < Suc n \<or> mirror ?sz p < Suc n then mirror ?sz p else p)" if "p < ?sz" for p
  proof -
    have inj: "mirror ?sz p = n \<longleftrightarrow> p = mirror ?sz n"
      using mirror_step [OF assms(1)] that n m by metis
    show ?thesis
      using that n m IH inj by (auto simp: nth_swap_at less_Suc_eq)
  qed
  then show ?case unfolding step using IH(1) by simp
qed auto

lemma reverse_byte_order_nth:
  assumes "even (length hex)"
  shows "length (reverse_byte_order hex) = length hex"
    "p < length hex \<Longrightarrow> reverse_byte_order hex ! p = hex ! mirror (length hex) p"
proof -
  let ?sz = "length hex" and ?cnt = "length hex div 2 - (length hex div 2) mod 2"
  note * = reverse_byte_order_steps [OF assms order_refl]
  then show "length (reverse_byte_order hex) = ?sz"
    by (simp add: reverse_byte_order_def Let_def)
  assume p: "p < ?sz"
  obtain k where k: "?sz = 2 * k" using assms by (elim evenE)
  obtain q j where q: "p = 2 * q + j" "q < k" "j < 2" using p unfolding k by (rule byte_position)
  then have "mirror ?sz p = 2 * (k - 1 - q) + j" unfolding k q(1) by (intro mirror_byte)
  moreover have "?cnt = 2 * (k div 2)" unfolding k by (simp add: minus_mod_eq_mult_div)
  moreover have "q < k div 2 \<or> k - 1 - q < k div 2 \<or> k - 1 - q = q" using q(2) by linarith
  ultimately have "\<not> (p < ?cnt \<or> mirror ?sz p < ?cnt) \<Longrightarrow> mirror ?sz p = p"
    using q by auto
  with * p show "reverse_byte_order hex ! p = hex ! mirror ?sz p"
    by (simp add: reverse_byte_order_def Let_def) metis
qed

lemma reverse_byte_order_involution:
  assumes "even (length hex)"
  shows "reverse_byte_order (reverse_byte_order hex) = hex"
proof (rule nth_equalityI)
  note l = reverse_byte_order_nth(1) [OF assms]
  show len: "length (reverse_byte_order (reverse_byte_order hex)) = length hex"
    using assms by (simp add: reverse_byte_order_nth)
  fix p assume "p < length (reverse_byte_order (reverse_byte_order hex))"
  then have p: "p < length hex" unfolding len .
  then show "reverse_byte_order (reverse_byte_order hex) ! p = hex ! p"
    using assms l mirror_step [OF assms p] by (simp add: reverse_byte_order_nth)
qed

lemma toHex_iter_nth:
  "i < length bs \<Longrightarrow> j < 2 \<Longrightarrow>
   toHex_iter bs ! (2 * i + j) = [hex_char (unat (bs ! i) div 16), hex_char (unat (bs ! i) mod 16)] ! j"
  unfolding toHex_iter_def by (subst nth_concat_uniform [where k = 2]) (auto simp: Let_def)

lemma reverse_byte_order_toHex: "reverse_byte_order (toHex_iter bs) = toHex_iter (rev bs)"
proof (rule nth_equalityI)
  have e: "even (length (toHex_iter bs))" by simp
  then show len: "length (reverse_byte_order (toHex_iter bs)) = length (toHex_iter (rev bs))"
    by (simp only: reverse_byte_order_nth) simp
  fix p assume "p < length (reverse_byte_order (toHex_iter bs))"
  then have p: "p < 2 * length bs" unfolding len by simp
  then obtain q j where q: "p = 2 * q + j" "q < length bs" "j < 2" by (rule byte_position)
  have "reverse_byte_order (toHex_iter bs) ! p = toHex_iter bs ! mirror (2 * length bs) p"
    using reverse_byte_order_nth(2) [OF e, of p] p by simp
  also have "\<dots> = toHex_iter bs ! (2 * (length bs - 1 - q) + j)"
    unfolding q(1) using q by (subst mirror_byte) auto
  also have "\<dots> = toHex_iter (rev bs) ! p"
    unfolding q(1) using q by (subst (1 2) toHex_iter_nth) (auto simp: rev_nth)
  finally show "reverse_byte_order (toHex_iter bs) ! p = toHex_iter (rev bs) ! p" .
qed

section \<open>Reading inverts writing\<close>

lemma length_toLittleEndian [simp]: "length (toLittleEndian n v) = n"
  by (induction n arbitrary: v) auto

lemma be_value_snoc: "be_value (bs @ [b]) = 256 * be_value bs + unat b"
  by (simp add: be_value_def)

lemma be_value_toLittleEndian: "be_value (rev (toLittleEndian n v)) = v mod 256 ^ n"
proof (induction n arbitrary: v)
  case (Suc n)
  have "unat (of_nat (v mod 256) :: byte) = v mod 256" by (simp add: unat_of_nat)
  with Suc show ?case by (simp add: be_value_snoc mod_mult2_eq)
qed (simp add: be_value_def)

lemma hex_of_little_endian:
  "v < 256 ^ n \<Longrightarrow> hexStrToInt (reverse_byte_order (toHex_iter (toLittleEndian n v))) = of_nat v"
  by (simp add: reverse_byte_order_toHex hexStrToInt_toHex_iter be_value_toLittleEndian)

lemma hex_markers:
  "toHex_iter [250] = ''fa''" "toHex_iter [251] = ''fb''" "toHex_iter [252] = ''fc''"
  by (simp_all add: hex_eval)

lemma take_toHex_marker:
  "take 2 (toHex_iter (b # bs) @ rest) = toHex_iter [b]"
  by (simp add: numeral_2_eq_2)

lemma marker_iff [simp]:
  "toHex_iter [b] = ''fa'' \<longleftrightarrow> b = 250" "toHex_iter [b] = ''fb'' \<longleftrightarrow> b = 251" "toHex_iter [b] = ''fc'' \<longleftrightarrow> b = 252"
  unfolding hex_markers [symmetric] by (simp_all del: toHex_iter_simps)


lemma read_compact_int_marked:
  assumes "m \<in> {250, 251, 252}" and "n = (if m = 250 then 2 else if m = 251 then 4 else 8)" and "v < 256 ^ n"
  shows "read_compact_int (toHex_iter (m # toLittleEndian n v) @ rest) = Inr (of_nat v, rest)"
proof -
  let ?h = "toHex_iter (toLittleEndian n v)"
  have t: "take 2 (toHex_iter (m # toLittleEndian n v) @ rest) = toHex_iter [m]" by (rule take_toHex_marker)
  have d: "drop 2 (toHex_iter (m # toLittleEndian n v) @ rest) = ?h @ rest" by (simp add: numeral_2_eq_2)
  have "length ?h = 2 * n" by simp
  then have "take (2 * n) (?h @ rest) = ?h" "drop (2 * n) (?h @ rest) = rest" by simp_all
  with assms hex_of_little_endian [OF assms(3)] show ?thesis
    unfolding read_compact_int_def Let_def t d by (auto simp del: toHex_iter_simps)
qed

lemma read_compact_int_byte:
  assumes "v \<le> 249" and "2 \<le> length rest"
  shows "read_compact_int (toHex_iter [of_nat v] @ rest) = Inr (of_nat v, rest)"
proof -
  have "unat (of_nat v :: byte) = v" using assms(1) by (simp add: unat_of_nat)
  then have "(of_nat v :: byte) \<noteq> 250" "(of_nat v :: byte) \<noteq> 251" "(of_nat v :: byte) \<noteq> 252"
    using assms(1) by auto
  moreover have "hexStrToInt (reverse_byte_order (toHex_iter [of_nat v])) = of_nat v"
    using hex_of_little_endian [of v 1] assms(1) by (simp del: toHex_iter_simps)
  moreover have "length (toHex_iter [of_nat v :: byte]) = 2" by simp
  ultimately show ?thesis using assms(2) by (simp add: read_compact_int_def Let_def del: toHex_iter_simps)
qed

lemma read_write_compact_int:
  assumes "v < 2 ^ 64" and "249 < v \<or> 2 \<le> length rest"
  shows "read_compact_int (toHex_iter (write_compact_int v []) @ rest) = Inr (of_nat v, rest)"
proof -
  consider "v \<le> 249" | "249 < v" "v \<le> 2 ^ 16 - 1" | "2 ^ 16 - 1 < v" "v \<le> 2 ^ 32 - 1" | "2 ^ 32 - 1 < v"
    by linarith
  then show ?thesis
  proof cases
    case 1
    with assms read_compact_int_byte [of v rest] show ?thesis by (simp add: write_compact_int_def)
  next
    case 2
    then show ?thesis using read_compact_int_marked [of 250 2 v rest] by (simp add: write_compact_int_def)
  next
    case 3
    then show ?thesis using read_compact_int_marked [of 251 4 v rest] by (simp add: write_compact_int_def)
  next
    case 4
    then show ?thesis using assms read_compact_int_marked [of 252 8 v rest] by (simp add: write_compact_int_def)
  qed
qed

text \<open>The one-byte form at the very end of the text is refused.\<close>

lemma read_compact_int_last_byte:
  assumes "v \<le> 249" and "length rest < 2"
  shows "read_compact_int (toHex_iter (write_compact_int v []) @ rest) = Inl (StdExc ''Can not read compact uint8'')"
proof -
  have "unat (of_nat v :: byte) = v" using assms(1) by (simp add: unat_of_nat)
  then have "(of_nat v :: byte) \<noteq> 250" "(of_nat v :: byte) \<noteq> 251" "(of_nat v :: byte) \<noteq> 252"
    using assms(1) by auto
  moreover have "length (toHex_iter [of_nat v :: byte]) = 2" by simp
  ultimately show ?thesis using assms
    by (simp add: read_compact_int_def Let_def write_compact_int_def del: toHex_iter_simps)
qed

section \<open>Whole transactions\<close>

lemma write_compact_int_append: "write_compact_int v buf = buf @ write_compact_int v []"
  by (simp add: write_compact_int_def)

lemma c_str_bin2hex [simp]: "c_str (bin2hex bs) = bin2hex bs" "c_str (''0x'' @ bin2hex bs) = ''0x'' @ bin2hex bs"
proof -
  show *: "c_str (bin2hex bs) = bin2hex bs" by (simp only: bin2hex_eq c_str_hex [OF hex_text_toHex_iter])
  show "c_str (''0x'' @ bin2hex bs) = ''0x'' @ bin2hex bs" using * by (simp add: c_str_def)
qed

lemma strip_0x_bin2hex [simp]: "strip_0x (bin2hex bs) = bin2hex bs"
  using hex_char_not_x [of "unat (hd bs) mod 16"] by (cases bs) (auto simp: strip_0x_def bin2hex_eq)

lemma strip_0x_prefix: "bs \<noteq> [] \<Longrightarrow> strip_0x (''0x'' @ bin2hex bs) = bin2hex bs"
  by (cases bs) (auto simp: strip_0x_def bin2hex_eq)

text \<open>The bytes the handlers sign: format \<^verbatim>\<open>xUUUux\<close>.\<close>

lemma append_args_tx:
  assumes "a \<noteq> []"
  shows "append_args ''xUUUux'' [AStr (''0x'' @ bin2hex a), A64 v, A64 f, A64 n, A32 sz, AStr (bin2hex d)] [] =
    Some (a @ write_compact_int (unat v) [] @ write_compact_int (unat f) [] @
      write_compact_int (unat n) [] @ write_compact_int (unat sz) [] @ d)"
  by (simp add: strip_0x_prefix [OF assms] del: append_Cons) (simp add: write_compact_int_append [of _ "_ @ _"]
      strip_0x_prefix [OF assms, simplified] write_compact_int_append [of _ a])

lemma gen_sign_tx:
  assumes "a \<noteq> []"
    and "gen_sign ssl t0 r0 prv ''xUUUux''
      [AStr (''0x'' @ bin2hex a), A64 v, A64 f, A64 n, A32 sz, AStr (bin2hex d)] = Inr (True, t, s)"
  shows "t = bin2hex (a @ write_compact_int (unat v) [] @ write_compact_int (unat f) [] @
      write_compact_int (unat n) [] @ write_compact_int (unat sz) [] @ d)"
  using assms(2) unfolding gen_sign_def append_args_tx [OF assms(1)]
  by (auto split: if_splits sum.splits exc.splits)

lemma length_compact: "0 < length (toHex_iter (write_compact_int v []))" "2 \<le> length (toHex_iter (write_compact_int v []))"
  by (simp_all add: write_compact_int_def)

lemma parse_tansaction_bytes:
  fixes v f n :: u64 and sz :: u32 and a d :: "byte list"
  assumes "length a = 25"
  defines "t \<equiv> bin2hex (a @ write_compact_int (unat v) [] @ write_compact_int (unat f) [] @
      write_compact_int (unat n) [] @ write_compact_int (unat sz) [] @ d)"
  shows "d \<noteq> [] \<or> 249 < unat sz \<Longrightarrow>
      parse_tansaction t out = Inr (True, out\<lparr>tx_to := tx_to out @ ''0x'' @ bin2hex a, tx_value := v, tx_fee := f,
        tx_nonce := n, tx_data_size := of_nat (unat sz), tx_data := bin2hex d\<rparr>)"
    and "d = [] \<Longrightarrow> unat sz \<le> 249 \<Longrightarrow>
      parse_tansaction t out = Inr (False, out\<lparr>tx_to := tx_to out @ ''0x'' @ bin2hex a, tx_value := v, tx_fee := f,
        tx_nonce := n\<rparr>)"
proof -
  let ?c = "\<lambda>k. toHex_iter (write_compact_int k [])"
  have t: "t = toHex_iter a @ ?c (unat v) @ ?c (unat f) @ ?c (unat n) @ ?c (unat sz) @ toHex_iter d"
    by (simp add: t_def bin2hex_eq)
  have len: "length (toHex_iter a) = 50" using assms by simp
  have read: "read_compact_int (?c (unat w) @ ?c k @ rest) = Inr (w, ?c k @ rest)" for w :: u64 and k rest
  proof -
    have "2 \<le> length (?c k @ rest)" using length_compact(2) [of k] by (simp only: length_append)
    then have "read_compact_int (?c (unat w) @ ?c k @ rest) = Inr (of_nat (unat w), ?c k @ rest)"
      using unsigned_less [of w, where 'a = nat] by (intro read_write_compact_int) auto
    then show ?thesis by simp
  qed
  have parts: "50 \<le> length t" "take 50 t = toHex_iter a"
    "drop 50 t = ?c (unat v) @ ?c (unat f) @ ?c (unat n) @ ?c (unat sz) @ toHex_iter d"
    unfolding t by (simp_all add: len del: length_toHex_iter)
  note step = parse_tansaction_def parts read Let_def bin2hex_eq
  show "parse_tansaction t out = Inr (True, out\<lparr>tx_to := tx_to out @ ''0x'' @ bin2hex a, tx_value := v, tx_fee := f,
      tx_nonce := n, tx_data_size := of_nat (unat sz), tx_data := bin2hex d\<rparr>)" if "d \<noteq> [] \<or> 249 < unat sz"
  proof -
    have "unat sz < 2 ^ 64" using unsigned_less [of sz, where 'a = nat] by simp
    moreover have "249 < unat sz \<or> 2 \<le> length (toHex_iter d)" using that by (cases d) auto
    ultimately have "read_compact_int (?c (unat sz) @ toHex_iter d) = Inr (of_nat (unat sz), toHex_iter d)"
      by (rule read_write_compact_int)
    then show ?thesis by (simp add: step)
  qed
  show "parse_tansaction t out = Inr (False, out\<lparr>tx_to := tx_to out @ ''0x'' @ bin2hex a, tx_value := v, tx_fee := f,
      tx_nonce := n\<rparr>)" if "d = []" "unat sz \<le> 249"
    using that read_compact_int_last_byte [of "unat sz" "[]"] read [of n "unat sz" "[]"] by (simp add: step)
qed

section \<open>Addresses\<close>

lemma validate_generated:
  assumes "digests_ok ssl" and "65 \<le> length (hex2bin pk)"
  shows "\<exists>a. CRYPTO_generate_address ssl pk = Inr a \<and> validate_address ssl (''0x'' @ a) = Inr True"
proof -
  obtain buf where b: "crypto_generate_address ssl (hex2bin pk) = Inr buf" "length buf = 25"
    using generate_address_total [OF assms] by blast
  let ?a = "bin2hex buf"
  have g: "CRYPTO_generate_address ssl pk = Inr ?a" using b by (simp add: CRYPTO_generate_address_def)
  have "length ?a = 50" using b by (simp add: bin2hex_eq)
  moreover have "take 2 ?a = ''00''" using generated_address_text [OF g] by (simp add: starts_with_def numeral_2_eq_2)
  ultimately show ?thesis
    using g generated_address_text [OF g] by (auto simp: validate_address_def substr_def)
qed

text \<open>The checks in front of the checksum keep the iterator arithmetic inside the vector.\<close>

lemma length_hex2bin2: "length (hex2bin2 s) = (length s + 1) div 2"
  by (induction s rule: hex2bin2.induct) auto

lemma validate_address_defined:
  assumes "digests_ok ssl"
  shows "\<exists>b. validate_address ssl v = Inr b"
proof (cases "length v = 52")
  case True
  then have "4 \<le> length (hex2bin v)" by (simp add: hex2bin_def length_hex2bin2)
  then show ?thesis
    by (auto simp: validate_address_def CRYPTO_check_address_def Let_def digest_message_ok [OF assms])
qed (auto simp: validate_address_def)

section \<open>Properties\<close>


lemma sample_gen_sign:
  "\<exists>t s. gen_sign sample_ssl t0 r0 ''ab'' ''xUUUux''
     [AStr (''0x'' @ bin2hex (replicate 25 3)), A64 v, A64 f, A64 n, A32 sz, AStr (bin2hex d)] = Inr (True, t, s)"
proof -
  have "replicate 25 3 \<noteq> ([] :: byte list)" by simp
  then show ?thesis unfolding gen_sign_def append_args_tx [OF \<open>replicate 25 3 \<noteq> []\<close>]
    by (simp add: CRYPTO_sign_data_def crypto_sign_data_def crypto_load_private_key_def crypto_load_key_def
        sample_ssl_def)
qed


text \<open>A transaction without data (an empty data field of size 0, or any size below 250 with no
  data behind it) that \<^verbatim>\<open>gen_sign\<close> serialised is refused by \<^verbatim>\<open>parse_tansaction\<close>: the one-byte branch of
  \<^verbatim>\<open>read_compact_int\<close> asks for two characters more than it reads.\<close>

lemma transaction_without_data_refused:
  assumes "length a = 25" and "unat sz \<le> 249"
    and "gen_sign ssl t0 r0 prv ''xUUUux''
      [AStr (''0x'' @ bin2hex a), A64 v, A64 f, A64 n, A32 sz, AStr (bin2hex [])] = Inr (True, t, s)"
  shows "\<exists>out'. parse_tansaction t out = Inr (False, out')"
proof -
  have "a \<noteq> []" using assms(1) by auto
  then have "t = bin2hex (a @ write_compact_int (unat v) [] @ write_compact_int (unat f) [] @
      write_compact_int (unat n) [] @ write_compact_int (unat sz) [] @ [])"
    using assms(3) by (rule gen_sign_tx)
  then show ?thesis using parse_tansaction_bytes(2) [OF assms(1) refl assms(2)] by blast
qed

lemma transaction_without_data_refused_witness:
  "\<exists>t s out'. gen_sign sample_ssl [] [] ''ab'' ''xUUUux''
     [AStr (''0x'' @ bin2hex (replicate 25 3)), A64 5, A64 0, A64 7, A32 0, AStr (bin2hex [])] = Inr (True, t, s) \<and>
   parse_tansaction t \<lparr>tx_to = [], tx_value = 0, tx_fee = 0, tx_nonce = 0, tx_data_size = 0, tx_data = []\<rparr> =
     Inr (False, out')"
proof -
  obtain t s where g: "gen_sign sample_ssl [] [] ''ab'' ''xUUUux''
     [AStr (''0x'' @ bin2hex (replicate 25 3)), A64 5, A64 0, A64 7, A32 0, AStr (bin2hex [])] = Inr (True, t, s)"
    using sample_gen_sign by blast
  show ?thesis using transaction_without_data_refused [OF _ _ g] g by force
qed

text \<open>\<^verbatim>\<open>reverse_byte_order\<close>, which swaps characters in place, reverses the bytes of every
  hexadecimal text, and is its own inverse on texts of even length.\<close>

lemma reverse_byte_order_correct:
  "reverse_byte_order (toHex_iter bs) = toHex_iter (rev bs) \<and>
   (even (length hex) \<longrightarrow> reverse_byte_order (reverse_byte_order hex) = hex)"
  by (simp add: reverse_byte_order_toHex reverse_byte_order_involution)

lemma reverse_byte_order_correct_witness:
  "even (length ''0a0b0c'') \<and> reverse_byte_order (reverse_byte_order ''0a0b0c'') = ''0a0b0c''"
  using reverse_byte_order_correct [of "[]" "''0a0b0c''"] by simp

text \<open>With working digests \<^verbatim>\<open>validate_address\<close> is defined on every string (its guards keep the
  checksum comparison inside the decoded vector) and accepts the address derived from every public
  key of at least 65 bytes.\<close>

lemma validate_address_sound:
  assumes "digests_ok ssl" and "65 \<le> length (hex2bin pk)"
  shows "(\<exists>b. validate_address ssl v = Inr b) \<and>
    (\<exists>a. CRYPTO_generate_address ssl pk = Inr a \<and> validate_address ssl (''0x'' @ a) = Inr True)"
  using validate_address_defined [OF assms(1)] validate_generated [OF assms] by blast

lemma validate_address_sound_witness:
  "(\<exists>b. validate_address sample_ssl ''0x00'' = Inr b) \<and>
    (\<exists>a. CRYPTO_generate_address sample_ssl (bin2hex (replicate 66 9)) = Inr a \<and>
      validate_address sample_ssl (''0x'' @ a) = Inr True)"
  by (rule validate_address_sound) (simp_all add: sample_ssl_digests_ok)

end
