(* ===== verification/Serialize.thy ===== *)
theory Serialize
  imports Prelude
begin

text \<open>
  The big-endian serialisation of \<^verbatim>\<open>src/src/sync/utils/serialize.h\<close>.  The width \<^verbatim>\<open>sizeof(T)\<close> of the
  templates is the argument \<open>sz\<close>; positions are \<^typ>\<open>u64\<close> values and wrap as \<^verbatim>\<open>size_t\<close> does, which
  the reader of a length-prefixed string relies on the input not to provoke.  A read outside the
  string, undefined in C++, is the error \<^const>\<open>OtherExc\<close>.  The contract between an encoder and a
  decoder that reads at a position and returns the next one is the locale \<open>codec\<close>; integers, strings,
  byte vectors and variants are interpretations of it.
\<close>

section \<open>Writing\<close>

text \<open>The loop of \<^verbatim>\<open>toBinaryStringBigEndian\<close>; the first argument is \<open>i + 1\<close>.\<close>

fun put_big_endian :: "nat \<Rightarrow> nat \<Rightarrow> nat \<Rightarrow> string \<Rightarrow> string" where
  "put_big_endian 0 oldSize val buf = buf"
| "put_big_endian (Suc i) oldSize val buf =
     (if val \<noteq> 0
      then put_big_endian i oldSize (val div 256) (buf[oldSize + i := char_of (val mod 256)])
      else buf)"

definition toBinaryStringBigEndian :: "nat \<Rightarrow> nat \<Rightarrow> string" where
  "toBinaryStringBigEndian sz val = put_big_endian sz 0 val (replicate sz (CHR 0x00))"

definition toBinaryStringBigEndian_buffer :: "nat \<Rightarrow> nat \<Rightarrow> string \<Rightarrow> string" where
  "toBinaryStringBigEndian_buffer sz val buffer =
     put_big_endian sz (length buffer) val (buffer @ replicate sz (CHR 0x00))"

definition serializeIntBigEndian :: "nat \<Rightarrow> nat \<Rightarrow> string" where
  "serializeIntBigEndian sz intValue = toBinaryStringBigEndian sz intValue"

definition serializeIntBigEndian_buffer :: "nat \<Rightarrow> nat \<Rightarrow> string \<Rightarrow> string" where
  "serializeIntBigEndian_buffer sz intValue buffer = toBinaryStringBigEndian_buffer sz intValue buffer"

definition serializeStringBigEndian :: "string \<Rightarrow> string" where
  "serializeStringBigEndian str = serializeIntBigEndian 8 (length str) @ str"

definition serializeVectorBigEndian :: "byte list \<Rightarrow> string" where
  "serializeVectorBigEndian v = serializeIntBigEndian 8 (length v) @ string_of_bytes v"

definition serializeVectorBigEndian_buffer :: "byte list \<Rightarrow> string \<Rightarrow> string" where
  "serializeVectorBigEndian_buffer v buffer =
     serializeIntBigEndian_buffer 8 (length v) buffer @ string_of_bytes v"

definition serializeStringBigEndian_buffer :: "string \<Rightarrow> string \<Rightarrow> string" where
  "serializeStringBigEndian_buffer str buffer =
     serializeIntBigEndian_buffer 8 (length str) buffer @ str"

section \<open>Reading\<close>

fun get_big_endian :: "nat \<Rightarrow> string \<Rightarrow> u64 \<Rightarrow> nat \<Rightarrow> nat \<Rightarrow> nat \<Rightarrow> nat fallible" where
  "get_big_endian sz raw fromPos i 0 val = Inr val"
| "get_big_endian sz raw fromPos i (Suc k) val =
     (let p = unat (of_nat i + fromPos)
      in if p < length raw
         then get_big_endian sz raw fromPos (Suc i) k ((val * 256 + of_char (raw ! p)) mod 256 ^ sz)
         else Inl OtherExc)"

definition fromBinaryStringBigEndian :: "nat \<Rightarrow> string \<Rightarrow> u64 \<Rightarrow> (nat \<times> u64) fallible" where
  "fromBinaryStringBigEndian sz raw fromPos =
     (if length raw < unat (of_nat sz + fromPos) then Inr (0, fromPos)
      else bindE (get_big_endian sz raw fromPos 0 sz 0)
             (\<lambda>val. Inr (val, fromPos + of_nat sz)))"

definition deserializeIntBigEndian_at :: "nat \<Rightarrow> string \<Rightarrow> u64 \<Rightarrow> (nat \<times> u64) fallible" where
  "deserializeIntBigEndian_at sz raw fromPos = fromBinaryStringBigEndian sz raw fromPos"

definition deserializeIntBigEndian :: "nat \<Rightarrow> string \<Rightarrow> u64 \<Rightarrow> (nat \<times> u64) fallible" where
  "deserializeIntBigEndian sz raw fromPos =
     bindE (deserializeIntBigEndian_at sz raw fromPos)
       (\<lambda>(val, endPos). if endPos \<noteq> fromPos then Inr (val, endPos)
                        else Inl (StringExc ''Incorrect raw''))"

text \<open>\<^verbatim>\<open>std::string::substr\<close> throws when the position lies behind the end.\<close>

definition substr_checked :: "string \<Rightarrow> u64 \<Rightarrow> nat \<Rightarrow> string fallible" where
  "substr_checked raw pos n =
     (if length raw < unat pos then Inl (StdExc ''out_of_range'') else Inr (substr raw (unat pos) n))"

definition deserializeStringBigEndian_at :: "string \<Rightarrow> u64 \<Rightarrow> (string \<times> u64) fallible" where
  "deserializeStringBigEndian_at raw fromPos =
     bindE (deserializeIntBigEndian_at 8 raw fromPos)
       (\<lambda>(sizeString, endPos).
          if fromPos = endPos then Inr ('''', endPos)
          else bindE (substr_checked raw endPos sizeString)
                 (\<lambda>str. Inr (str, endPos + of_nat sizeString)))"

definition deserializeVectorBigEndian_at :: "string \<Rightarrow> u64 \<Rightarrow> (byte list \<times> u64) fallible" where
  "deserializeVectorBigEndian_at raw fromPos =
     bindE (deserializeIntBigEndian_at 8 raw fromPos)
       (\<lambda>(sizeString, endPos).
          if fromPos = endPos then Inr ([], endPos)
          else bindE (substr_checked raw endPos sizeString)
                 (\<lambda>tmp. Inr (bytes_of_string tmp, endPos + of_nat sizeString)))"

definition deserializeStringBigEndian :: "string \<Rightarrow> u64 \<Rightarrow> (string \<times> u64) fallible" where
  "deserializeStringBigEndian raw fromPos =
     bindE (deserializeStringBigEndian_at raw fromPos)
       (\<lambda>(str, endPos). if endPos \<noteq> fromPos then Inr (str, endPos)
                        else Inl (StringExc ''Incorrect raw''))"

definition deserializeVectorBigEndian :: "string \<Rightarrow> u64 \<Rightarrow> (byte list \<times> u64) fallible" where
  "deserializeVectorBigEndian raw fromPos =
     bindE (deserializeVectorBigEndian_at raw fromPos)
       (\<lambda>(str, endPos). if endPos \<noteq> fromPos then Inr (str, endPos)
                        else Inl (StringExc ''Incorrect raw''))"

section \<open>The names the rest of the program uses\<close>

definition serializeInt :: "nat \<Rightarrow> nat \<Rightarrow> string" where
  "serializeInt sz intValue = serializeIntBigEndian sz intValue"

definition serializeInt_buffer :: "nat \<Rightarrow> nat \<Rightarrow> string \<Rightarrow> string" where
  "serializeInt_buffer sz intValue buffer = serializeIntBigEndian_buffer sz intValue buffer"

definition serializeString :: "string \<Rightarrow> string" where
  "serializeString str = serializeStringBigEndian str"

definition serializeVector :: "byte list \<Rightarrow> string" where
  "serializeVector v = serializeVectorBigEndian v"

definition serializeVector_buffer :: "byte list \<Rightarrow> string \<Rightarrow> string" where
  "serializeVector_buffer v buffer = serializeVectorBigEndian_buffer v buffer"

definition serializeString_buffer :: "string \<Rightarrow> string \<Rightarrow> string" where
  "serializeString_buffer str buffer = serializeStringBigEndian_buffer str buffer"

definition deserializeInt :: "nat \<Rightarrow> string \<Rightarrow> u64 \<Rightarrow> (nat \<times> u64) fallible" where
  "deserializeInt sz raw fromPos = deserializeIntBigEndian sz raw fromPos"

definition deserializeString :: "string \<Rightarrow> u64 \<Rightarrow> (string \<times> u64) fallible" where
  "deserializeString raw fromPos = deserializeStringBigEndian raw fromPos"

definition deserializeVector :: "string \<Rightarrow> u64 \<Rightarrow> (byte list \<times> u64) fallible" where
  "deserializeVector raw fromPos = deserializeVectorBigEndian raw fromPos"

section \<open>Variants\<close>

text \<open>
  A \<^verbatim>\<open>std::variant\<close> is the index of its alternative with the value held there; \<open>None\<close> stands for
  \<^verbatim>\<open>std::monostate\<close>.  The serialisers of the alternatives are arguments, as they are members of the
  template's types.  \<^verbatim>\<open>tryParse\<close> leaves the status alone for every index but the one read, and for
  \<^verbatim>\<open>std::monostate\<close>.
\<close>

definition serializeVariant :: "('a \<Rightarrow> string \<Rightarrow> string) \<Rightarrow> nat \<times> 'a option \<Rightarrow> string \<Rightarrow> string" where
  "serializeVariant ser v buffer =
     (let buffer' = serializeInt_buffer 8 (fst v) buffer
      in case snd v of None \<Rightarrow> buffer' | Some arg \<Rightarrow> ser arg buffer')"

definition tryParse :: "(string \<Rightarrow> u64 \<Rightarrow> ('a \<times> u64) fallible) option \<Rightarrow> nat \<Rightarrow> string \<Rightarrow> nat \<Rightarrow>
    u64 \<times> (nat \<times> 'a option) \<Rightarrow> (u64 \<times> (nat \<times> 'a option)) fallible" where
  "tryParse alt I raw number st =
     (if I = number
      then case alt of None \<Rightarrow> Inr st
           | Some deser \<Rightarrow> bindE (deser raw (fst st)) (\<lambda>(x, endPos). Inr (endPos, (I, Some x)))
      else Inr st)"

fun parseVarintImpl :: "(string \<Rightarrow> u64 \<Rightarrow> ('a \<times> u64) fallible) option list \<Rightarrow> nat \<Rightarrow> string \<Rightarrow> nat \<Rightarrow>
    u64 \<times> (nat \<times> 'a option) \<Rightarrow> (u64 \<times> (nat \<times> 'a option)) fallible" where
  "parseVarintImpl [] I raw number st = Inr st"
| "parseVarintImpl (alt # alts) I raw number st =
     bindE (tryParse alt I raw number st) (parseVarintImpl alts (Suc I) raw number)"

definition deserializeVarint :: "(string \<Rightarrow> u64 \<Rightarrow> ('a \<times> u64) fallible) option list \<Rightarrow> string \<Rightarrow>
    u64 \<Rightarrow> nat \<times> 'a option \<Rightarrow> (u64 \<times> (nat \<times> 'a option)) fallible" where
  "deserializeVarint alts raw fromPos status =
     bindE (deserializeInt 8 raw fromPos)
       (\<lambda>(number, fromPos).
          if number < length alts then parseVarintImpl alts 0 raw number (fromPos, status)
          else Inl (StringExc ''Incorrect type in transaction status''))"

section \<open>What is written\<close>

fun be_chars :: "nat \<Rightarrow> nat \<Rightarrow> string" where
  "be_chars 0 v = []"
| "be_chars (Suc n) v = be_chars n (v div 256) @ [char_of (v mod 256)]"

lemma length_be_chars [simp]: "length (be_chars n v) = n"
  by (induction n arbitrary: v) auto

lemma be_chars_0: "be_chars n 0 = replicate n (CHR 0x00)"
proof (induction n)
  case (Suc n)
  moreover have "char_of (0 :: nat) = CHR 0x00" by code_simp
  ultimately show ?case by (simp add: replicate_append_same)
qed simp

lemma put_big_endian_eq:
  "put_big_endian n (length pre) v (pre @ replicate n (CHR 0x00) @ post) = pre @ be_chars n v @ post"
proof (induction n arbitrary: v post)
  case (Suc n)
  have upd: "(pre @ replicate (Suc n) (CHR 0x00) @ post)[length pre + n := c] =
      pre @ replicate n (CHR 0x00) @ (c # post)" for c
  proof -
    have "replicate (Suc n) (CHR 0x00) = replicate n (CHR 0x00) @ [CHR 0x00]"
      by (simp add: replicate_append_same)
    then show ?thesis by (simp add: list_update_append del: replicate_Suc)
  qed
  show ?case
    using Suc.IH [of "v div 256" "char_of (v mod 256) # post"]
    by (cases "v = 0") (simp_all only: put_big_endian.simps upd be_chars_0, simp_all)
qed simp

lemma toBinaryStringBigEndian_eq: "toBinaryStringBigEndian n v = be_chars n v"
  using put_big_endian_eq [of n "[]" v "[]"] by (simp add: toBinaryStringBigEndian_def)

lemma toBinaryStringBigEndian_buffer_eq:
  "toBinaryStringBigEndian_buffer n v buffer = buffer @ be_chars n v"
  using put_big_endian_eq [of n buffer v "[]"] by (simp add: toBinaryStringBigEndian_buffer_def)

lemmas int_writers [codec_simps] =
  serializeIntBigEndian_def serializeIntBigEndian_buffer_def serializeInt_def serializeInt_buffer_def
  toBinaryStringBigEndian_eq toBinaryStringBigEndian_buffer_eq

lemmas text_writers [codec_simps] =
  serializeStringBigEndian_def serializeStringBigEndian_buffer_def
  serializeVectorBigEndian_def serializeVectorBigEndian_buffer_def
  serializeString_def serializeString_buffer_def serializeVector_def serializeVector_buffer_def

section \<open>What is read\<close>

definition be_number :: "nat \<Rightarrow> nat \<Rightarrow> string \<Rightarrow> nat" where
  "be_number sz v cs = foldl (\<lambda>v c. (v * 256 + of_char c) mod 256 ^ sz) v cs"

lemma be_number_simps [simp]:
  "be_number sz v [] = v"
  "be_number sz v (c # cs) = be_number sz ((v * 256 + of_char c) mod 256 ^ sz) cs"
  by (simp_all add: be_number_def)

lemma be_number_append: "be_number sz v (as @ bs) = be_number sz (be_number sz v as) bs"
  by (simp add: be_number_def)

lemma be_number_be_chars:
  "n \<le> sz \<Longrightarrow> v < 256 ^ n \<Longrightarrow> be_number sz 0 (be_chars n v) = v"
proof (induction n arbitrary: v)
  case (Suc n)
  have "v div 256 < 256 ^ n" using Suc.prems by (simp add: less_mult_imp_div_less mult.commute)
  moreover have "v < 256 ^ sz"
    using Suc.prems power_increasing [of "Suc n" sz "256 :: nat"] by simp
  ultimately show ?case using Suc by (simp add: be_number_append)
qed simp

lemma get_big_endian_eq:
  "length raw < 2 ^ 64 \<Longrightarrow> unat fromPos + i + k \<le> length raw \<Longrightarrow>
   get_big_endian sz raw fromPos i k v = Inr (be_number sz v (take k (drop (unat fromPos + i) raw)))"
proof (induction k arbitrary: i v)
  case (Suc k)
  have p: "unat (of_nat i + fromPos :: u64) = unat fromPos + i"
    using Suc.prems by (simp add: unat_word_ariths unat_of_nat)
  have "drop (unat fromPos + i) raw =
      raw ! (unat fromPos + i) # drop (Suc (unat fromPos + i)) raw"
    using Suc.prems by (simp add: Cons_nth_drop_Suc)
  with Suc p show ?case by (simp add: Let_def)
qed simp

lemma fromBinaryStringBigEndian_at:
  assumes "length (pre @ cs @ post) < 2 ^ 64" and "length cs = sz"
  shows "fromBinaryStringBigEndian sz (pre @ cs @ post) (of_nat (length pre)) =
    Inr (be_number sz 0 cs, of_nat (length pre + sz))"
proof -
  have u: "unat (of_nat (length pre) :: u64) = length pre"
    using assms by (simp add: unat_of_nat)
  have "unat (of_nat sz + of_nat (length pre) :: u64) = sz + length pre"
    using assms by (simp add: unat_of_nat flip: of_nat_add)
  with assms u show ?thesis
    by (simp add: fromBinaryStringBigEndian_def get_big_endian_eq add.commute)
qed

section \<open>The contract of an encoding\<close>

text \<open>Reading \<open>n\<close> values one after the other, as the \<^verbatim>\<open>fromPos\<close> references thread the position.\<close>

fun dec_many :: "(string \<Rightarrow> u64 \<Rightarrow> ('a \<times> u64) fallible) \<Rightarrow> nat \<Rightarrow> string \<Rightarrow> u64 \<Rightarrow> ('a list \<times> u64) fallible" where
  "dec_many dec 0 raw pos = Inr ([], pos)"
| "dec_many dec (Suc n) raw pos =
     bindE (dec raw pos) (\<lambda>(x, pos'). bindE (dec_many dec n raw pos') (\<lambda>(xs, q). Inr (x # xs, q)))"

locale codec =
  fixes enc :: "'a \<Rightarrow> string"
    and dec :: "string \<Rightarrow> u64 \<Rightarrow> ('a \<times> u64) fallible"
    and ok :: "'a \<Rightarrow> bool"
  assumes dec_enc: "ok x \<Longrightarrow> length (pre @ enc x @ post) < 2 ^ 64 \<Longrightarrow>
    dec (pre @ enc x @ post) (of_nat (length pre)) = Inr (x, of_nat (length pre + length (enc x)))"
begin

lemma dec_enc_start:
  "ok x \<Longrightarrow> length (enc x @ post) < 2 ^ 64 \<Longrightarrow> dec (enc x @ post) 0 = Inr (x, of_nat (length (enc x)))"
  using dec_enc [of x "[]" post] by simp

lemma prefix_free:
  assumes "ok x" "ok y" "length (enc x @ s) < 2 ^ 64" "enc x @ s = enc y @ t"
  shows "x = y \<and> s = t"
proof -
  have "dec (enc x @ s) 0 = Inr (x, of_nat (length (enc x)))"
    using assms(1,3) by (rule dec_enc_start)
  moreover have "dec (enc y @ t) 0 = Inr (y, of_nat (length (enc y)))"
    using assms(3) unfolding assms(4) by (rule dec_enc_start [OF assms(2)])
  ultimately have "x = y" using assms(4) by simp
  with assms(4) show ?thesis by simp
qed

lemma dec_many_concat:
  "\<forall>x\<in>set xs. ok x \<Longrightarrow> length (pre @ concat (map enc xs) @ post) < 2 ^ 64 \<Longrightarrow>
   dec_many dec (length xs) (pre @ concat (map enc xs) @ post) (of_nat (length pre)) =
     Inr (xs, of_nat (length pre + length (concat (map enc xs))))"
proof (induction xs arbitrary: pre)
  case (Cons x xs)
  have "dec (pre @ enc x @ concat (map enc xs) @ post) (of_nat (length pre)) =
      Inr (x, of_nat (length pre + length (enc x)))"
    using Cons.prems by (intro dec_enc) auto
  moreover have "dec_many dec (length xs) ((pre @ enc x) @ concat (map enc xs) @ post)
      (of_nat (length (pre @ enc x))) =
      Inr (xs, of_nat (length (pre @ enc x) + length (concat (map enc xs))))"
    using Cons.prems by (intro Cons.IH) auto
  ultimately show ?case by (simp add: add.assoc)
qed simp

end

section \<open>The encodings keep the contract\<close>

lemma of_nat_pos_eq:
  assumes "a + n < 2 ^ 64" "0 < n"
  shows "of_nat (a + n) \<noteq> (of_nat a :: u64)"
proof
  assume "of_nat (a + n) = (of_nat a :: u64)"
  then have "unat (of_nat (a + n) :: u64) = unat (of_nat a :: u64)" by simp
  with assms show False by (simp add: unat_of_nat del: of_nat_add)
qed

lemma deserializeInt_at:
  assumes "0 < sz" and "v < 256 ^ sz" and "length (pre @ be_chars sz v @ post) < 2 ^ 64"
  shows "deserializeInt sz (pre @ be_chars sz v @ post) (of_nat (length pre)) =
    Inr (v, of_nat (length pre + sz))"
  using assms of_nat_pos_eq [of "length pre" sz] fromBinaryStringBigEndian_at [OF assms(3)]
  by (simp add: deserializeInt_def deserializeIntBigEndian_def deserializeIntBigEndian_at_def
      be_number_be_chars del: of_nat_add)

interpretation int_codec: codec "serializeInt sz" "deserializeInt sz" "\<lambda>v. 0 < sz \<and> v < 256 ^ sz" for sz
  by unfold_locales (simp add: deserializeInt_at codec_simps)

lemma length_text_bound: "length (pre @ s @ post) < 2 ^ 64 \<Longrightarrow> length s < 256 ^ 8"
  by simp

lemma deserializeStringBigEndian_at_eq:
  assumes "length (pre @ (be_chars 8 (length s) @ s) @ post) < 2 ^ 64"
  shows "deserializeStringBigEndian_at (pre @ (be_chars 8 (length s) @ s) @ post) (of_nat (length pre)) =
    Inr (s, of_nat (length pre + 8 + length s))"
proof -
  have "deserializeIntBigEndian_at 8 (pre @ be_chars 8 (length s) @ s @ post) (of_nat (length pre)) =
      Inr (length s, of_nat (length pre + 8))"
    using assms fromBinaryStringBigEndian_at [of pre "be_chars 8 (length s)" "s @ post" 8]
    by (simp add: deserializeIntBigEndian_at_def be_number_be_chars)
  moreover have "unat (of_nat (length pre + 8) :: u64) = length pre + 8"
    using assms by (simp add: unat_of_nat del: of_nat_add)
  moreover have "of_nat (length pre + 8) \<noteq> (of_nat (length pre) :: u64)"
    using assms by (intro of_nat_pos_eq) auto
  ultimately show ?thesis
    by (simp add: deserializeStringBigEndian_at_def substr_checked_def substr_def del: of_nat_add)
      (simp add: add.assoc)
qed

lemma deserializeVectorBigEndian_at_eq:
  "deserializeVectorBigEndian_at raw pos =
     bindE (deserializeStringBigEndian_at raw pos) (\<lambda>(s, q). Inr (bytes_of_string s, q))"
  by (auto simp: deserializeVectorBigEndian_at_def deserializeStringBigEndian_at_def bindE_def
      split: sum.splits)

lemma deserializeVector_eq:
  "deserializeVector raw pos = bindE (deserializeString raw pos) (\<lambda>(s, q). Inr (bytes_of_string s, q))"
  by (auto simp: deserializeVector_def deserializeString_def deserializeVectorBigEndian_def
      deserializeStringBigEndian_def deserializeVectorBigEndian_at_eq bindE_def split: sum.splits)

interpretation string_codec: codec serializeString deserializeString "\<lambda>_. True"
proof
  fix s pre post :: string
  assume l: "length (pre @ serializeString s @ post) < 2 ^ 64"
  then have "of_nat (length pre + 8 + length s) \<noteq> (of_nat (length pre) :: u64)"
    using of_nat_pos_eq [of "length pre" "8 + length s"] by (simp add: codec_simps add.assoc)
  with l show "deserializeString (pre @ serializeString s @ post) (of_nat (length pre)) =
      Inr (s, of_nat (length pre + length (serializeString s)))"
    using deserializeStringBigEndian_at_eq [of pre s post]
    by (simp add: deserializeString_def deserializeStringBigEndian_def codec_simps add.assoc del: of_nat_add)
qed

interpretation vector_codec: codec serializeVector deserializeVector "\<lambda>_. True"
proof
  fix v and pre post :: string
  assume l: "length (pre @ serializeVector v @ post) < 2 ^ 64"
  have "serializeVector v = serializeString (string_of_bytes v)" by (simp add: codec_simps)
  with l show "deserializeVector (pre @ serializeVector v @ post) (of_nat (length pre)) =
      Inr (v, of_nat (length pre + length (serializeVector v)))"
    using string_codec.dec_enc [of pre "string_of_bytes v" post]
    by (simp add: deserializeVector_eq comp_def)
qed

section \<open>Variants keep the contract\<close>

lemma parseVarintImpl_skip:
  "number < I \<or> I + length alts \<le> number \<Longrightarrow> parseVarintImpl alts I raw number st = Inr st"
  by (induction alts arbitrary: I) (auto simp: tryParse_def)

lemma parseVarintImpl_hit:
  "I \<le> number \<Longrightarrow> number < I + length alts \<Longrightarrow>
   parseVarintImpl alts I raw number st = tryParse (alts ! (number - I)) number raw number st"
proof (induction alts arbitrary: I)
  case (Cons alt alts)
  show ?case
  proof (cases "I = number")
    case True
    then show ?thesis
      by (cases "tryParse alt number raw number st") (simp_all add: parseVarintImpl_skip)
  next
    case False
    with Cons.prems have "number - I = Suc (number - Suc I)" by simp
    with False Cons show ?thesis by (simp add: tryParse_def)
  qed
qed simp

context codec
begin

lemma variant_dec:
  assumes alt: "number < length alts" "alts ! number = Some dec" "length alts < 2 ^ 64"
    and ser: "ok x" "\<forall>b. ser x b = b @ enc x"
    and len: "length (serializeVariant ser (number, Some x) pre @ post) < 2 ^ 64"
  shows "deserializeVarint alts (serializeVariant ser (number, Some x) pre @ post) (of_nat (length pre)) status =
    Inr (of_nat (length (serializeVariant ser (number, Some x) pre)), (number, Some x))"
proof -
  let ?raw = "serializeVariant ser (number, Some x) pre @ post"
  have raw: "?raw = (pre @ be_chars 8 number) @ enc x @ post"
    by (simp add: serializeVariant_def ser codec_simps)
  have "deserializeInt 8 (pre @ be_chars 8 number @ enc x @ post) (of_nat (length pre)) =
      Inr (number, of_nat (length pre + 8))"
    using alt len unfolding raw by (intro deserializeInt_at) auto
  moreover have "dec ((pre @ be_chars 8 number) @ enc x @ post) (of_nat (length (pre @ be_chars 8 number))) =
      Inr (x, of_nat (length (pre @ be_chars 8 number) + length (enc x)))"
    using ser(1) len unfolding raw by (rule dec_enc)
  ultimately show ?thesis
    using alt unfolding raw
    by (simp add: deserializeVarint_def parseVarintImpl_hit tryParse_def serializeVariant_def ser
        codec_simps add.assoc)
qed

end

section \<open>Properties\<close>

text \<open>The position-threading readers invert the big-endian writers in any context: an integer
  below \<open>256 ^ sz\<close> written at width \<open>sz\<close>, a length-prefixed string and a length-prefixed byte vector,
  preceded and followed by arbitrary bytes, are read back exactly, and the position returned is the
  one behind them, as long as the buffer is shorter than the address space.\<close>

lemma big_endian_roundtrip:
  assumes "0 < sz" and "v < 256 ^ sz"
    and "length (pre @ serializeInt sz v @ serializeString s @ serializeVector bs @ post) < 2 ^ 64"
  defines "raw \<equiv> pre @ serializeInt sz v @ serializeString s @ serializeVector bs @ post"
  shows "bindE (deserializeInt sz raw (of_nat (length pre))) (\<lambda>(v', p).
         bindE (deserializeString raw p) (\<lambda>(s', p).
         bindE (deserializeVector raw p) (\<lambda>(bs', p). Inr (v', s', bs', p)))) =
    Inr (v, s, bs, of_nat (length raw - length post))"
proof -
  let ?i = "serializeInt sz v" and ?s = "serializeString s" and ?b = "serializeVector bs"
  have "deserializeInt sz raw (of_nat (length pre)) = Inr (v, of_nat (length (pre @ ?i)))"
    using int_codec.dec_enc [of sz v pre "?s @ ?b @ post"] assms by (simp add: raw_def)
  moreover have "deserializeString raw (of_nat (length (pre @ ?i))) = Inr (s, of_nat (length (pre @ ?i @ ?s)))"
    using string_codec.dec_enc [of "pre @ ?i" s "?b @ post"] assms by (simp add: raw_def)
  moreover have "deserializeVector raw (of_nat (length (pre @ ?i @ ?s))) = Inr (bs, of_nat (length (pre @ ?i @ ?s @ ?b)))"
    using vector_codec.dec_enc [of "pre @ ?i @ ?s" bs post] assms by (simp add: raw_def)
  moreover have "length raw - length post = length (pre @ ?i @ ?s @ ?b)" by (simp add: raw_def)
  ultimately show ?thesis by (simp del: of_nat_add length_append)
qed

lemma big_endian_roundtrip_witness:
  "bindE (deserializeInt 4 (''ab'' @ serializeInt 4 70000 @ serializeString ''xyz'' @ serializeVector [7, 255] @ ''z'') 2)
     (\<lambda>(v', p). bindE (deserializeString (''ab'' @ serializeInt 4 70000 @ serializeString ''xyz'' @ serializeVector [7, 255] @ ''z'') p)
     (\<lambda>(s', p). bindE (deserializeVector (''ab'' @ serializeInt 4 70000 @ serializeString ''xyz'' @ serializeVector [7, 255] @ ''z'') p)
     (\<lambda>(bs', p). Inr (v', s', bs', p)))) = Inr (70000, ''xyz'', [7, 255], 27)"
  using big_endian_roundtrip [of 4 70000 "''ab''" "''xyz''" "[7, 255]" "''z''"]
  by (simp add: codec_simps)

end
