(* ===== verification/Dump_Blocks.thy ===== *)
theory Dump_Blocks
  imports Serialize
begin

text \<open>
  Parsing the binary dumps of blocks that another node sent: \<^verbatim>\<open>parseDumpBlockBinary\<close> and
  \<^verbatim>\<open>parseDumpBlocksBinary\<close> of \<^verbatim>\<open>src/src/generate_json.cpp\<close>.  The LZ4 frame format of the torrent
  library is not part of the sources: its \<^verbatim>\<open>decompress\<close> is an argument.  The \<^verbatim>\<open>while\<close> loop is a
  \<^theory_text>\<open>partial_function\<close>, \<^const>\<open>None\<close> when it does not return.
\<close>

definition parseDumpBlockBinary :: "(string \<Rightarrow> string fallible) \<Rightarrow> string \<Rightarrow> bool \<Rightarrow> string fallible" where
  "parseDumpBlockBinary decompress response isCompress =
     (if \<not> isCompress then Inr response else decompress response)"

partial_function (option) parseDumpBlocks_loop ::
  "string \<Rightarrow> u64 \<Rightarrow> string list \<Rightarrow> string list fallible option" where
  [code]: "parseDumpBlocks_loop r from res =
     (if unat from < length r
      then case deserializeStringBigEndian r from of
             Inl e \<Rightarrow> Some (Inl e)
           | Inr (s, from') \<Rightarrow> parseDumpBlocks_loop r from' (res @ [s])
      else Some (Inr res))"

definition parseDumpBlocksBinary ::
  "(string \<Rightarrow> string fallible) \<Rightarrow> string \<Rightarrow> bool \<Rightarrow> string list fallible option" where
  "parseDumpBlocksBinary decompress response isCompress =
     (case (if isCompress then decompress response else Inr response) of
        Inl e \<Rightarrow> Some (Inl e)
      | Inr r \<Rightarrow> parseDumpBlocks_loop r 0 [])"

section \<open>A concatenation of serialised dumps is taken apart\<close>

lemma serializeString_fun: "serializeString = serializeStringBigEndian"
  by (rule ext) (simp add: serializeString_def)

lemma parseDumpBlocks_loop_concat:
  "length (pre @ concat (map serializeString ss)) < 2 ^ 64 \<Longrightarrow>
   parseDumpBlocks_loop (pre @ concat (map serializeString ss)) (of_nat (length pre)) res = Some (Inr (res @ ss))"
proof (induction ss arbitrary: pre res)
  case Nil
  then show ?case by (subst parseDumpBlocks_loop.simps) (simp add: unat_of_nat)
next
  case (Cons s ss)
  have "deserializeString (pre @ serializeString s @ concat (map serializeString ss)) (of_nat (length pre)) =
      Inr (s, of_nat (length pre + length (serializeString s)))"
    using Cons.prems by (intro string_codec.dec_enc) auto
  moreover have "parseDumpBlocks_loop ((pre @ serializeString s) @ concat (map serializeString ss))
      (of_nat (length (pre @ serializeString s))) (res @ [s]) = Some (Inr ((res @ [s]) @ ss))"
    using Cons.prems by (intro Cons.IH) simp
  moreover have "unat (of_nat (length pre) :: u64) = length pre"
    using Cons.prems by (simp add: unat_of_nat)
  moreover have "0 < length (serializeString s)" by (simp add: codec_simps)
  ultimately show ?case
    by (subst parseDumpBlocks_loop.simps) (simp add: deserializeString_def del: length_greater_0_conv)
qed

text \<open>Once the loop comes back to a position it has visited it never returns.\<close>

lemma parseDumpBlocks_loop_cycle:
  assumes closed: "\<And>p. p \<in> P \<Longrightarrow> unat p < length r \<and> (\<exists>s q. deserializeStringBigEndian r p = Inr (s, q) \<and> q \<in> P)"
    and "p \<in> P"
  shows "parseDumpBlocks_loop r p res = None"
proof -
  have "parseDumpBlocks_loop r p res = Some y \<Longrightarrow> r = r \<longrightarrow> p \<notin> P" for y p res
  proof (erule parseDumpBlocks_loop.raw_induct [where P = "\<lambda>r' p _ _. r' = r \<longrightarrow> p \<notin> P", rotated])
    fix loop :: "string \<Rightarrow> u64 \<Rightarrow> string list \<Rightarrow> string list fallible option" and r' "from" res y
    assume "\<And>r' p res y. loop r' p res = Some y \<Longrightarrow> r' = r \<longrightarrow> p \<notin> P"
      and "(if unat from < length r'
            then case deserializeStringBigEndian r' from of Inl e \<Rightarrow> Some (Inl e)
                 | Inr (s, from') \<Rightarrow> loop r' from' (res @ [s])
            else Some (Inr res)) = Some y"
    then show "r' = r \<longrightarrow> from \<notin> P" using closed by (fastforce split: if_splits sum.splits)
  qed
  with assms(2) show ?thesis by (cases "parseDumpBlocks_loop r p res") auto
qed

text \<open>A length field that takes the position back to the start of the buffer.\<close>

lemma wrapping_length:
  fixes pre :: string
  assumes "n = length pre + 8" and "n < 2 ^ 32" and "0 < length pre"
  shows "deserializeStringBigEndian (pre @ be_chars 8 (2 ^ 64 - n)) (of_nat (length pre)) = Inr ('''', 0)"
proof -
  have "fromBinaryStringBigEndian 8 (pre @ be_chars 8 (2 ^ 64 - n)) (of_nat (length pre)) =
      Inr (2 ^ 64 - n, of_nat n)"
    using fromBinaryStringBigEndian_at [of pre "be_chars 8 (2 ^ 64 - n)" "[]" 8] assms
    by (simp add: be_number_be_chars)
  moreover have "unat (of_nat n :: u64) = n" and "unat (of_nat (length pre) :: u64) = length pre"
    using assms(2) by (simp_all add: assms(1) unat_of_nat del: of_nat_add)
  moreover have "(of_nat (length pre) :: u64) \<noteq> of_nat n" "(of_nat (length pre) :: u64) \<noteq> 0"
    using calculation assms by auto
  moreover have "of_nat n + of_nat (2 ^ 64 - n) = (0 :: u64)"
  proof -
    have "of_nat n + of_nat (2 ^ 64 - n) = (of_nat (2 ^ 64) :: u64)"
      using assms(2) by (subst of_nat_add [symmetric]) simp
    also have "\<dots> = 0" by simp
    finally show ?thesis .
  qed
  moreover have "length (pre @ be_chars 8 (2 ^ 64 - n)) = n" using assms(1) by simp
  ultimately show ?thesis
    by (simp add: deserializeStringBigEndian_def deserializeStringBigEndian_at_def
        deserializeIntBigEndian_at_def substr_checked_def substr_def)
qed

section \<open>Properties\<close>

text \<open>C30: \<^verbatim>\<open>parseDumpBlocksBinary\<close> returns on every concatenation of \<^verbatim>\<open>serializeStringBigEndian\<close>
  encodings, with exactly the encoded dumps in order; with compression, whenever the decompressor
  inverts the peer's compression of that concatenation.\<close>

theorem parseDumpBlocksBinary_roundtrip:
  assumes "length (concat (map serializeStringBigEndian ss)) < 2 ^ 64"
    and "isCompress \<Longrightarrow> decompress response = Inr (concat (map serializeStringBigEndian ss))"
    and "\<not> isCompress \<Longrightarrow> response = concat (map serializeStringBigEndian ss)"
  shows "parseDumpBlocksBinary decompress response isCompress = Some (Inr ss)"
  using assms parseDumpBlocks_loop_concat [of "[]" ss "[]"]
  by (cases isCompress) (simp_all add: parseDumpBlocksBinary_def serializeString_fun)

theorem parseDumpBlocksBinary_roundtrip_witness:
  "parseDumpBlocksBinary (\<lambda>s. Inr (rev s))
     (rev (concat (map serializeStringBigEndian [''block one'', '''', ''block three'']))) True =
   Some (Inr [''block one'', '''', ''block three''])"
  by (rule parseDumpBlocksBinary_roundtrip) (simp_all add: codec_simps)

text \<open>C32: a peer can make \<^verbatim>\<open>parseDumpBlocksBinary\<close> run forever with sixteen bytes: an empty dump
  followed by the length \<open>2 ^ 64 - 16\<close>, whose addition to the position wraps to the start of the
  buffer.\<close>

theorem parseDumpBlocksBinary_diverges:
  "parseDumpBlocksBinary decompress (serializeIntBigEndian 8 0 @ serializeIntBigEndian 8 (2 ^ 64 - 16)) False = None"
proof -
  let ?r = "serializeIntBigEndian 8 0 @ serializeIntBigEndian 8 (2 ^ 64 - 16)"
  have "deserializeStringBigEndian ?r 0 = Inr ('''', 8)"
    using string_codec.dec_enc_start [of "''''" "serializeIntBigEndian 8 (2 ^ 64 - 16)"]
    by (simp add: codec_simps deserializeString_def)
  moreover have "deserializeStringBigEndian ?r 8 = Inr ('''', 0)"
    using wrapping_length [of 16 "serializeIntBigEndian 8 0"] by (simp add: codec_simps)
  moreover have "length ?r = 16" by (simp add: codec_simps)
  ultimately have "parseDumpBlocks_loop ?r 0 [] = None"
    by (intro parseDumpBlocks_loop_cycle [where P = "{0, 8}"]) auto
  then show ?thesis by (simp add: parseDumpBlocksBinary_def)
qed

end
