(* ===== verification/Block_Info.thy ===== *)
theory Block_Info
  imports Prelude
begin

text \<open>
  The data of \<^verbatim>\<open>src/src/sync/BlockInfo.h\<close> and \<^verbatim>\<open>src/src/sync/Address.h\<close>: transactions, block headers,
  blocks, signature blocks and balances, one record per structure, field by field.  What the headers
  only declare (the block parser, the hexadecimal form of an address, block kinds, fees, balances) is
  compiled into the torrent library and not part of the sources; it is the record \<open>torrent_lib\<close>.
\<close>

record FilePosition =
  fp_pos :: nat
  fileNameRelative :: string

record Address =
  addr_bytes :: string
  addr_isInitialW :: bool
  addr_isSet :: bool

definition address_isSet :: "Address \<Rightarrow> bool" where
  "address_isSet a = addr_isSet a"

text \<open>The variant \<^verbatim>\<open>TransactionStatus::status\<close>: nothing, delegate, undelegate or script.\<close>

datatype tx_status =
    NoStatus
  | Delegate
  | UnDelegate int string
  | V8Status bool bool Address

record TransactionStatus =
  ts_isSuccess :: bool
  ts_transaction :: string
  ts_blockNumber :: nat
  ts_status :: tx_status

record DelegateInfo =
  di_value :: int
  di_isDelegate :: bool

datatype ScriptType = script_compile | script_run | script_pay | script_unknown

record ScriptInfo =
  si_txRaw :: string
  si_type :: ScriptType

record TransactionInfo =
  ti_hash :: string
  ti_fromAddress :: Address
  ti_toAddress :: Address
  ti_value :: int
  ti_fees :: int
  ti_nonce :: nat
  ti_blockNumber :: nat
  ti_blockIndex :: nat
  ti_sizeRawTx :: nat
  ti_isSignBlockTx :: bool
  ti_isModuleNotSet :: bool
  ti_intStatus :: "nat option"
  ti_sign :: "byte list"
  ti_pubKey :: "byte list"
  ti_data :: "byte list"
  ti_allRawTx :: string
  ti_filePos :: FilePosition
  ti_delegate :: "DelegateInfo option"
  ti_scriptInfo :: "ScriptInfo option"
  ti_status :: "TransactionStatus option"

definition isStatusNeed :: "TransactionInfo \<Rightarrow> bool" where
  "isStatusNeed t \<longleftrightarrow> ti_delegate t \<noteq> None \<or> ti_scriptInfo t \<noteq> None"

record BlockHeader =
  bh_timestamp :: nat
  bh_blockSize :: nat
  bh_blockType :: nat
  bh_hash :: "byte list"
  bh_prevHash :: "byte list"
  bh_txsHash :: "byte list"
  bh_signature :: "byte list"
  bh_countTxs :: nat
  bh_countSignTx :: nat
  bh_filePos :: FilePosition
  bh_blockNumber :: "nat option"
  bh_senderSign :: "byte list"
  bh_senderPubkey :: "byte list"
  bh_senderAddress :: "byte list"

record MinimumBlockHeader =
  mb_number :: nat
  mb_blockSize :: nat
  mb_hash :: string
  mb_parentHash :: string
  mb_fileName :: string

record SignBlockHeader =
  sh_timestamp :: nat
  sh_blockSize :: nat
  sh_hash :: "byte list"
  sh_prevHash :: "byte list"
  sh_filePos :: FilePosition
  sh_senderSign :: "byte list"
  sh_senderPubkey :: "byte list"
  sh_senderAddress :: "byte list"

record SignTransactionInfo =
  sti_blockHash :: "byte list"
  sti_sign :: "byte list"
  sti_pubkey :: "byte list"
  sti_address :: Address

record SignBlockInfo =
  sb_header :: SignBlockHeader
  sb_txs :: "SignTransactionInfo list"

definition sb_saveSenderInfo :: "byte list \<Rightarrow> byte list \<Rightarrow> byte list \<Rightarrow> SignBlockInfo \<Rightarrow> SignBlockInfo" where
  "sb_saveSenderInfo sig pub addr b =
     b\<lparr>sb_header := (sb_header b)\<lparr>sh_senderSign := sig, sh_senderPubkey := pub, sh_senderAddress := addr\<rparr>\<rparr>"

definition sb_saveFilePath :: "string \<Rightarrow> SignBlockInfo \<Rightarrow> SignBlockInfo" where
  "sb_saveFilePath p b =
     b\<lparr>sb_header := (sb_header b)\<lparr>sh_filePos := (sh_filePos (sb_header b))\<lparr>fileNameRelative := p\<rparr>\<rparr>\<rparr>"

record BlockInfo =
  bi_header :: BlockHeader
  bi_txs :: "TransactionInfo list"

definition bi_saveSenderInfo :: "byte list \<Rightarrow> byte list \<Rightarrow> byte list \<Rightarrow> BlockInfo \<Rightarrow> BlockInfo" where
  "bi_saveSenderInfo sig pub addr b =
     b\<lparr>bi_header := (bi_header b)\<lparr>bh_senderSign := sig, bh_senderPubkey := pub, bh_senderAddress := addr\<rparr>\<rparr>"

definition bi_saveFilePath :: "string \<Rightarrow> BlockInfo \<Rightarrow> BlockInfo" where
  "bi_saveFilePath p b =
     b\<lparr>bi_header := (bi_header b)\<lparr>bh_filePos := (bh_filePos (bi_header b))\<lparr>fileNameRelative := p\<rparr>\<rparr>\<rparr>"

text \<open>The variant that \<^verbatim>\<open>Sync::parseBlockDump\<close> returns.\<close>

datatype some_block =
    NoBlock
  | SomeBlock BlockInfo
  | SomeSignBlock SignBlockInfo
  | SomeRejectedBlock

section \<open>Balances\<close>

record BalanceElement =
  be_received :: nat
  be_spent :: nat

text \<open>\<^verbatim>\<open>DelegateElement\<close> and \<^verbatim>\<open>DelegatedElement\<close> are the two readings of a balance element; the element's
  own operations belong to the library.\<close>

definition delegate_of :: "BalanceElement \<Rightarrow> nat" where
  "delegate_of e = be_spent e"

definition undelegate_of :: "BalanceElement \<Rightarrow> nat" where
  "undelegate_of e = be_received e"

definition delegated_of :: "BalanceElement \<Rightarrow> nat" where
  "delegated_of e = be_received e"

definition undelegated_of :: "BalanceElement \<Rightarrow> nat" where
  "undelegated_of e = be_spent e"

record DelegateBalance =
  db_delegate :: BalanceElement
  db_delegated :: BalanceElement
  db_reserved :: nat
  db_countOp :: nat

record ForgedBalance =
  fb_forged :: nat
  fb_countOp :: nat

record BalanceInfo =
  bal_balance :: BalanceElement
  bal_countReceived :: nat
  bal_countSpent :: nat
  bal_countTxs :: nat
  bal_delegated :: "DelegateBalance option"
  bal_forged :: "ForgedBalance option"
  bal_hash :: "nat option"
  bal_blockNumber :: nat

section \<open>The torrent library\<close>

record torrent_lib =
  parseBlockDump :: "string \<Rightarrow> some_block fallible"
  isStateBlock :: "BlockHeader \<Rightarrow> bool"
  isForgingBlock :: "BlockHeader \<Rightarrow> bool"
  getBlockType :: "BlockHeader \<Rightarrow> string"
  calcHexString :: "Address \<Rightarrow> string"
  address_eq :: "Address \<Rightarrow> Address \<Rightarrow> bool"
  address_isEmpty :: "Address \<Rightarrow> bool"
  realFee :: "TransactionInfo \<Rightarrow> nat"
  isIntStatusNotSuccess :: "TransactionInfo \<Rightarrow> bool"
  balance_received :: "BalanceInfo \<Rightarrow> nat"
  balance_spent :: "BalanceInfo \<Rightarrow> nat"

end
