(* ===== verification/Kv_Store.thy ===== *)
theory Kv_Store
  imports Prelude
begin

text \<open>
  The key-value interface the caches use of LevelDB: \<^verbatim>\<open>Get\<close> finds a value or reports that it is not
  there, \<^verbatim>\<open>Put\<close> may fail and then changes nothing.  LevelDB itself is a library; the contract is the
  locale \<open>kv_store\<close>, the model of a database is a partial map with an argument that decides which
  writes succeed, and the clients' lemmas on sequences of writes are proved once in the locale.
\<close>

type_synonym db = "string \<rightharpoonup> string"

definition db_get :: "db \<Rightarrow> string \<Rightarrow> string option" where
  "db_get d k = d k"

definition db_put :: "(string \<Rightarrow> string \<Rightarrow> bool) \<Rightarrow> string \<Rightarrow> string \<Rightarrow> db \<Rightarrow> bool \<times> db" where
  "db_put write_ok k v d = (if write_ok k v then (True, d(k \<mapsto> v)) else (False, d))"

text \<open>Writes one after the other, up to the first that fails.\<close>

fun put_all :: "('k \<Rightarrow> 'v \<Rightarrow> 's \<Rightarrow> bool \<times> 's) \<Rightarrow> ('k \<times> 'v) list \<Rightarrow> 's \<Rightarrow> bool \<times> 's" where
  "put_all put [] s = (True, s)"
| "put_all put ((k, v) # kvs) s =
     (case put k v s of (ok, s') \<Rightarrow> if ok then put_all put kvs s' else (False, s'))"

locale kv_store =
  fixes get :: "'s \<Rightarrow> 'k \<Rightarrow> 'v option"
    and put :: "'k \<Rightarrow> 'v \<Rightarrow> 's \<Rightarrow> bool \<times> 's"
  assumes put_get: "put k v s = (True, s') \<Longrightarrow> get s' k = Some v"
    and put_other: "put k v s = (ok, s') \<Longrightarrow> k' \<noteq> k \<Longrightarrow> get s' k' = get s k'"
    and put_failed: "put k v s = (False, s') \<Longrightarrow> get s' k' = get s k'"
begin

lemma put_all_other:
  "put_all put kvs s = (ok, s') \<Longrightarrow> k' \<notin> fst ` set kvs \<Longrightarrow> get s' k' = get s k'"
proof (induction kvs arbitrary: s)
  case (Cons kv kvs)
  obtain k v where kv: "kv = (k, v)" by (cases kv)
  obtain ok1 s1 where p: "put k v s = (ok1, s1)" by (cases "put k v s")
  then have "get s1 k' = get s k'" using Cons.prems kv put_other by fastforce
  with Cons p kv show ?case by (cases ok1) auto
qed simp

lemma put_all_get:
  "put_all put kvs s = (True, s') \<Longrightarrow> distinct (map fst kvs) \<Longrightarrow> (k, v) \<in> set kvs \<Longrightarrow> get s' k = Some v"
proof (induction kvs arbitrary: s)
  case (Cons kv kvs)
  obtain k1 v1 where kv: "kv = (k1, v1)" by (cases kv)
  obtain s1 where p: "put k1 v1 s = (True, s1)" and rest: "put_all put kvs s1 = (True, s')"
    using Cons.prems(1) kv by (auto split: prod.splits if_splits)
  show ?case
  proof (cases "(k, v) = (k1, v1)")
    case True
    then have "get s' k = get s1 k" using Cons.prems kv put_all_other [OF rest] by simp
    with True put_get [OF p] show ?thesis by simp
  next
    case False
    with Cons.prems kv have "(k, v) \<in> set kvs" by auto
    with Cons.IH [OF rest] Cons.prems kv show ?thesis by simp
  qed
qed simp

text \<open>A key is left as it was or holds the value written to it.\<close>

lemma put_all_value:
  "put_all put kvs s = (ok, s') \<Longrightarrow> distinct (map fst kvs) \<Longrightarrow> (k, v) \<in> set kvs \<Longrightarrow>
   get s' k = get s k \<or> get s' k = Some v"
proof (induction kvs arbitrary: s)
  case (Cons kv kvs)
  obtain k1 v1 where kv: "kv = (k1, v1)" by (cases kv)
  obtain ok1 s1 where p: "put k1 v1 s = (ok1, s1)" by (cases "put k1 v1 s")
  show ?case
  proof (cases ok1)
    case True
    with Cons.prems(1) p kv have rest: "put_all put kvs s1 = (ok, s')" by simp
    show ?thesis
    proof (cases "(k, v) = (k1, v1)")
      case eq: True
      then have "get s' k = get s1 k" using Cons.prems kv put_all_other [OF rest] by simp
      with eq put_get True p show ?thesis by auto
    next
      case False
      with Cons.prems kv have "(k, v) \<in> set kvs" "k \<noteq> k1" by force+
      with Cons.IH [OF rest] Cons.prems kv put_other [OF p] show ?thesis by auto
    qed
  next
    case False
    with Cons.prems(1) p kv put_failed show ?thesis by auto
  qed
qed simp

end

interpretation leveldb: kv_store db_get "db_put write_ok" for write_ok
  by unfold_locales (auto simp: db_get_def db_put_def split: if_splits)

end
