(* ===== verification/Blocks_Cache.thy ===== *)
theory Blocks_Cache
  imports Kv_Store Convert_Strings
begin

text \<open>
  The database side of the block cache, \<^verbatim>\<open>src/src/cache/blocks_cache.{h,cpp}\<close>: the object's state, its
  keys, saving and reading blocks, signature data and extra blocks, the two counters and their
  recovery at start.  A block \<open>n\<close> is kept under three keys: its number in decimal, its hash (holding
  the number) and \<open>n@data\<close> (eight bytes, the first one the signature status); \<open>n@extra\<close> holds the
  signature block that confirmed it.  The lemmas give lookups after saves with all keys apart, the
  monotone counter of signed blocks, and what a restart recovers.
\<close>

section \<open>State\<close>

datatype ext_data_value = blk_not_checked | blk_not_signed | blk_awaiting_signature | blk_signed

definition ext_char :: "ext_data_value \<Rightarrow> char" where
  "ext_char v = (case v of blk_not_checked \<Rightarrow> CHR 0x00 | blk_not_signed \<Rightarrow> CHR 0x01
     | blk_awaiting_signature \<Rightarrow> CHR 0x02 | blk_signed \<Rightarrow> CHR 0x03)"

text \<open>\<^verbatim>\<open>ext_blk_data\<close> is an array of eight characters of which the code uses the first.\<close>

definition ext_data_of :: "ext_data_value \<Rightarrow> string" where
  "ext_data_of v = ext_char v # replicate 7 (CHR 0x00)"

record blk_info =
  blk_number :: nat
  blk_hash :: "byte list"
  blk_extra :: "byte list list"

record blocks_cache =
  m_run :: bool
  m_nextblock :: nat
  m_last_signed_block :: nat
  m_db :: db
  db_open :: bool
  cache_init :: bool

definition new_blocks_cache :: blocks_cache where
  "new_blocks_cache = \<lparr>m_run = False, m_nextblock = 0, m_last_signed_block = 0,
     m_db = Map.empty, db_open = False, cache_init = False\<rparr>"

section \<open>Keys\<close>

definition data_key :: "string \<Rightarrow> string" where
  "data_key num = num @ ''@data''"

definition extra_key :: "string \<Rightarrow> string" where
  "extra_key num = num @ ''@extra''"

section \<open>Start and stop\<close>

text \<open>Casting the \<^verbatim>\<open>int\<close> of \<^verbatim>\<open>std::atoi\<close> to \<^verbatim>\<open>size_t\<close>.\<close>

definition atoi_number :: "string \<Rightarrow> nat" where
  "atoi_number s = nat (atoi (takeWhile (\<lambda>c. c \<noteq> CHR 0x00) s) mod 2 ^ 64)"

text \<open>\<open>data_dir\<close> and \<open>cache_dir\<close>: the directory exists or could be created; \<open>opened\<close>: the database that
  \<^verbatim>\<open>leveldb::DB::Open\<close> gave, \<^const>\<open>None\<close> for an error status.\<close>

definition init :: "bool \<Rightarrow> bool \<Rightarrow> db option \<Rightarrow> blocks_cache \<Rightarrow> bool \<times> blocks_cache" where
  "init data_dir cache_dir opened c =
     (if cache_init c then (True, c)
      else if \<not> data_dir then (False, c)
      else if \<not> cache_dir then (False, c)
      else case opened of None \<Rightarrow> (False, c)
           | Some d \<Rightarrow>
               let c = c\<lparr>m_db := d, db_open := True\<rparr>;
                   c = (case db_get d ''next_block'' of
                          Some r \<Rightarrow> c\<lparr>m_nextblock := atoi_number r\<rparr> | None \<Rightarrow> c);
                   c = (case db_get d ''last_signed_block'' of
                          Some r \<Rightarrow> c\<lparr>m_last_signed_block := atoi_number r\<rparr> | None \<Rightarrow> c)
               in (True, c\<lparr>cache_init := True\<rparr>))"

text \<open>\<^verbatim>\<open>start\<close> logs a failed initialisation and starts the worker nevertheless.\<close>

definition start :: "bool \<Rightarrow> bool \<Rightarrow> db option \<Rightarrow> blocks_cache \<Rightarrow> bool \<times> blocks_cache" where
  "start data_dir cache_dir opened c = (True, snd (init data_dir cache_dir opened c))"

definition stop :: "blocks_cache \<Rightarrow> blocks_cache" where
  "stop c = c\<lparr>m_run := False\<rparr>"

definition runing :: "blocks_cache \<Rightarrow> bool" where
  "runing c = m_run c"

definition next_block :: "blocks_cache \<Rightarrow> nat" where
  "next_block c = m_nextblock c"

definition last_signed_block :: "blocks_cache \<Rightarrow> nat" where
  "last_signed_block c = m_last_signed_block c"

section \<open>Writing\<close>

definition cache_put :: "(string \<Rightarrow> string \<Rightarrow> bool) \<Rightarrow> string \<Rightarrow> string \<Rightarrow> blocks_cache \<Rightarrow> bool \<times> blocks_cache" where
  "cache_put wr k v c = (case db_put wr k v (m_db c) of (ok, d) \<Rightarrow> (ok, c\<lparr>m_db := d\<rparr>))"

definition save_extra_data :: "(string \<Rightarrow> string \<Rightarrow> bool) \<Rightarrow> string \<Rightarrow> string \<Rightarrow> blocks_cache \<Rightarrow> bool \<times> blocks_cache" where
  "save_extra_data wr num dump c = cache_put wr (data_key num) dump c"

definition save_extra_block :: "(string \<Rightarrow> string \<Rightarrow> bool) \<Rightarrow> string \<Rightarrow> string \<Rightarrow> blocks_cache \<Rightarrow> bool \<times> blocks_cache" where
  "save_extra_block wr num dump c = cache_put wr (extra_key num) dump c"

definition save_block ::
  "(string \<Rightarrow> string \<Rightarrow> bool) \<Rightarrow> nat \<Rightarrow> string \<Rightarrow> string \<Rightarrow> string \<Rightarrow> blocks_cache \<Rightarrow> bool \<times> blocks_cache" where
  "save_block wr number hash dump ext_data c =
     (let num = to_string number;
          (ok, c) = cache_put wr num dump c
      in if ok then
           (if hash \<noteq> [] then
              (let (ok, c) = cache_put wr hash num c
               in if ok then
                    (let (ok, c) = save_extra_data wr num ext_data c
                     in if ok then (True, c) else (False, c))
                  else (False, c))
            else (False, c))
         else (False, c))"

definition update_number :: "(string \<Rightarrow> string \<Rightarrow> bool) \<Rightarrow> nat \<Rightarrow> blocks_cache \<Rightarrow> bool \<times> blocks_cache" where
  "update_number wr number c = cache_put wr ''next_block'' (to_string number) c"

definition update_last_signed :: "(string \<Rightarrow> string \<Rightarrow> bool) \<Rightarrow> nat \<Rightarrow> blocks_cache \<Rightarrow> bool \<times> blocks_cache" where
  "update_last_signed wr number c =
     (if m_last_signed_block c < number
      then (let (ok, c) = cache_put wr ''last_signed_block'' (to_string number) c
            in if \<not> ok then (False, c) else (True, c\<lparr>m_last_signed_block := number\<rparr>))
      else (True, c))"

section \<open>Reading\<close>

text \<open>A lookup gives the string it would store in its \<^verbatim>\<open>result\<close> argument, \<^const>\<open>None\<close> for \<^verbatim>\<open>false\<close>.\<close>

definition cache_get :: "blocks_cache \<Rightarrow> string \<Rightarrow> string option" where
  "cache_get c k = db_get (m_db c) k"

text \<open>The first character of a \<^verbatim>\<open>std::string\<close>, NUL for an empty one.\<close>

definition first_char :: "string \<Rightarrow> char" where
  "first_char s = (case s of [] \<Rightarrow> CHR 0x00 | c # _ \<Rightarrow> c)"

definition get_block_by_num_str :: "blocks_cache \<Rightarrow> string \<Rightarrow> bool \<Rightarrow> string option" where
  "get_block_by_num_str c number verify =
     (if verify \<and> (case cache_get c (data_key number) of
           Some ext_data \<Rightarrow> first_char ext_data \<noteq> ext_char blk_signed | None \<Rightarrow> False)
      then None
      else cache_get c number)"

definition get_block_by_num :: "blocks_cache \<Rightarrow> nat \<Rightarrow> bool \<Rightarrow> string option" where
  "get_block_by_num c number verify = get_block_by_num_str c (to_string number) verify"

definition get_block_num_by_hash :: "blocks_cache \<Rightarrow> string \<Rightarrow> string option" where
  "get_block_num_by_hash c hash = cache_get c hash"

text \<open>The number found, if any, and the block.\<close>

definition get_block_by_hash :: "blocks_cache \<Rightarrow> string \<Rightarrow> bool \<Rightarrow> string option \<times> string option" where
  "get_block_by_hash c hash verify =
     (case get_block_num_by_hash c hash of
        None \<Rightarrow> (None, None)
      | Some num \<Rightarrow> (Some num, if num \<noteq> [] then get_block_by_num_str c num verify else None))"

definition get_extra_block_for :: "blocks_cache \<Rightarrow> nat \<Rightarrow> string option" where
  "get_extra_block_for c number = cache_get c (extra_key (to_string number))"

definition get_extra_data :: "blocks_cache \<Rightarrow> nat \<Rightarrow> string option" where
  "get_extra_data c number = cache_get c (data_key (to_string number))"

section \<open>Keys are apart\<close>

text \<open>A hash that cannot be taken for another key: longer than a 64-bit number and without the
  characters of the reserved names.\<close>

definition hash_key :: "string \<Rightarrow> bool" where
  "hash_key h \<longleftrightarrow> 20 < length h \<and> CHR ''@'' \<notin> set h \<and> CHR ''_'' \<notin> set h"

lemma isdigit_special [simp]: "\<not> isdigit (CHR ''@'')" "\<not> isdigit (CHR ''_'')"
  by (simp_all add: isdigit_def)

lemma special_not_in_number [simp]: "CHR ''@'' \<notin> set (to_string n)" "CHR ''_'' \<notin> set (to_string n)"
  using to_string_digits by fastforce+

lemma number_run: "takeWhile isdigit (to_string n @ CHR ''@'' # s) = to_string n"
  by (rule takeWhile_append_stop) (auto dest: to_string_digits)

lemma number_at_inject [simp]:
  "to_string m @ CHR ''@'' # s = to_string n @ CHR ''@'' # t \<longleftrightarrow> m = n \<and> s = t"
proof
  assume eq: "to_string m @ CHR ''@'' # s = to_string n @ CHR ''@'' # t"
  then have "to_string m = to_string n" by (metis number_run)
  with eq show "m = n \<and> s = t" by simp
qed simp

lemma number_not_at [simp]: "to_string m \<noteq> to_string n @ CHR ''@'' # s" "to_string n @ CHR ''@'' # s \<noteq> to_string m"
  by (metis in_set_conv_decomp special_not_in_number(1))+

lemma reserved_chars:
  "CHR ''_'' \<in> set ''next_block''" "CHR ''_'' \<in> set ''last_signed_block''"
  "CHR ''@'' \<notin> set ''next_block''" "CHR ''@'' \<notin> set ''last_signed_block''"
  by simp_all

lemma number_not_reserved [simp]:
  "to_string n \<noteq> ''next_block''" "to_string n \<noteq> ''last_signed_block''"
  "''next_block'' \<noteq> to_string n" "''last_signed_block'' \<noteq> to_string n"
  using special_not_in_number(2) [of n] reserved_chars(1,2) by metis+

lemma at_not_reserved [simp]:
  "to_string n @ CHR ''@'' # s \<noteq> ''next_block''" "to_string n @ CHR ''@'' # s \<noteq> ''last_signed_block''"
  "''next_block'' \<noteq> to_string n @ CHR ''@'' # s" "''last_signed_block'' \<noteq> to_string n @ CHR ''@'' # s"
proof -
  have "CHR ''@'' \<in> set (to_string n @ CHR ''@'' # s)" by simp
  then show "to_string n @ CHR ''@'' # s \<noteq> ''next_block''" "to_string n @ CHR ''@'' # s \<noteq> ''last_signed_block''"
    "''next_block'' \<noteq> to_string n @ CHR ''@'' # s" "''last_signed_block'' \<noteq> to_string n @ CHR ''@'' # s"
    using reserved_chars(3,4) by metis+
qed

lemma hash_key_apart:
  assumes "hash_key h"
  shows "h \<noteq> []" "h \<noteq> ''next_block''" "h \<noteq> ''last_signed_block''" "h \<noteq> to_string n @ CHR ''@'' # s"
    and "n < 2 ^ 64 \<Longrightarrow> h \<noteq> to_string n"
proof -
  show "n < 2 ^ 64 \<Longrightarrow> h \<noteq> to_string n"
    using assms to_string_length [of n 20] by (auto simp: hash_key_def)
qed (use assms in \<open>auto simp: hash_key_def\<close>)

lemmas key_defs = data_key_def extra_key_def

section \<open>Lookups after writes\<close>

lemma cache_put_simps:
  "m_nextblock (snd (cache_put wr k v c)) = m_nextblock c"
  "m_last_signed_block (snd (cache_put wr k v c)) = m_last_signed_block c"
  "m_run (snd (cache_put wr k v c)) = m_run c"
  "db_open (snd (cache_put wr k v c)) = db_open c"
  "cache_init (snd (cache_put wr k v c)) = cache_init c"
  by (simp_all add: cache_put_def split: prod.splits)

lemma cache_put_get:
  "cache_get (snd (cache_put wr k v c)) k' = (if k' = k \<and> wr k v then Some v else cache_get c k')"
  "fst (cache_put wr k v c) = wr k v"
  by (simp_all add: cache_put_def cache_get_def db_put_def db_get_def)

interpretation cache_kv: kv_store cache_get "cache_put wr" for wr
proof
  show "cache_put wr k v s = (True, s') \<Longrightarrow> cache_get s' k = Some v" for k v s s'
    using cache_put_get(1) [of wr k v s k] cache_put_get(2) [of wr k v s] by simp
  show "cache_put wr k v s = (ok, s') \<Longrightarrow> k' \<noteq> k \<Longrightarrow> cache_get s' k' = cache_get s k'" for k v s ok s' k'
    using cache_put_get(1) [of wr k v s k'] by simp
  show "cache_put wr k v s = (False, s') \<Longrightarrow> cache_get s' k' = cache_get s k'" for k v s s' k'
    using cache_put_get(1) [of wr k v s k'] cache_put_get(2) [of wr k v s] by simp
qed

lemma save_block_put_all:
  "save_block wr n h d e c =
     (if h = [] then (False, snd (cache_put wr (to_string n) d c))
      else put_all (cache_put wr) [(to_string n, d), (h, to_string n), (data_key (to_string n), e)] c)"
  by (auto simp: save_block_def save_extra_data_def Let_def split: prod.splits)

lemma put_all_counters:
  "put_all (cache_put wr) kvs c = (ok, c') \<Longrightarrow>
   m_nextblock c' = m_nextblock c \<and> m_last_signed_block c' = m_last_signed_block c \<and> m_run c' = m_run c"
proof (induction kvs arbitrary: c)
  case (Cons kv kvs)
  obtain k v where kv: "kv = (k, v)" by (cases kv)
  obtain ok1 c1 where p: "cache_put wr k v c = (ok1, c1)" by (cases "cache_put wr k v c")
  then have "m_nextblock c1 = m_nextblock c" "m_last_signed_block c1 = m_last_signed_block c" "m_run c1 = m_run c"
    using cache_put_simps [of wr k v c] by simp_all
  with Cons p kv show ?case by (cases ok1) auto
qed simp

lemma block_keys_distinct:
  "hash_key h \<Longrightarrow> n < 2 ^ 64 \<Longrightarrow> distinct [to_string n, h, data_key (to_string n)]"
  by (auto simp: key_defs dest: hash_key_apart)

lemma save_block_ok:
  assumes "save_block wr n h d e c = (True, c')" and "hash_key h" and "n < 2 ^ 64"
  shows "cache_get c' (to_string n) = Some d" "cache_get c' h = Some (to_string n)"
    "cache_get c' (data_key (to_string n)) = Some e"
proof -
  have p: "put_all (cache_put wr) [(to_string n, d), (h, to_string n), (data_key (to_string n), e)] c = (True, c')"
    using assms(1) unfolding save_block_put_all by (simp split: if_splits)
  note * = cache_kv.put_all_get [OF p]
  show "cache_get c' (to_string n) = Some d" "cache_get c' h = Some (to_string n)"
    "cache_get c' (data_key (to_string n)) = Some e"
    using block_keys_distinct [OF assms(2,3)] by (auto intro!: *)
qed

lemma save_block_frame:
  assumes "save_block wr n h d e c = (ok, c')" and "k \<noteq> to_string n" "k \<noteq> h" "k \<noteq> data_key (to_string n)"
  shows "cache_get c' k = cache_get c k"
proof (cases "h = []")
  case True
  with assms show ?thesis using cache_put_get(1) [of wr "to_string n" d c k] by (simp add: save_block_put_all)
next
  case False
  with assms(1) have "put_all (cache_put wr) [(to_string n, d), (h, to_string n), (data_key (to_string n), e)] c = (ok, c')"
    by (simp only: save_block_put_all if_False)
  then show ?thesis by (rule cache_kv.put_all_other) (use assms in auto)
qed

lemma save_block_counters:
  "save_block wr n h d e c = (ok, c') \<Longrightarrow>
   m_nextblock c' = m_nextblock c \<and> m_last_signed_block c' = m_last_signed_block c \<and> m_run c' = m_run c"
  using put_all_counters [of wr "[(to_string n, d), (h, to_string n), (data_key (to_string n), e)]" c ok c']
    cache_put_simps [of wr "to_string n" d c]
  by (cases "h = []") (auto simp: save_block_put_all)

section \<open>Counters and restart\<close>

lemma update_last_signed_get:
  "cache_get (snd (update_last_signed wr n c)) k =
     (if k = ''last_signed_block'' \<and> m_last_signed_block c < n \<and> wr k (to_string n) then Some (to_string n)
      else cache_get c k)"
  using cache_put_get(1) [of wr "''last_signed_block''" "to_string n" c k]
    cache_put_get(2) [of wr "''last_signed_block''" "to_string n" c]
  by (auto simp: update_last_signed_def cache_get_def split: prod.splits)

lemma update_last_signed_counter:
  "m_last_signed_block (snd (update_last_signed wr n c)) =
     (if wr ''last_signed_block'' (to_string n) then max n (m_last_signed_block c) else m_last_signed_block c)"
  using cache_put_get(2) [of wr "''last_signed_block''" "to_string n" c]
    cache_put_simps(2) [of wr "''last_signed_block''" "to_string n" c]
  by (auto simp: update_last_signed_def split: prod.splits)

text \<open>The counter of signed blocks and its stored copy agree.\<close>

definition signed_inv :: "blocks_cache \<Rightarrow> bool" where
  "signed_inv c \<longleftrightarrow> (case cache_get c ''last_signed_block'' of
      Some r \<Rightarrow> r = to_string (m_last_signed_block c) | None \<Rightarrow> m_last_signed_block c = 0)"

lemma signed_inv_update: "signed_inv c \<Longrightarrow> signed_inv (snd (update_last_signed wr n c))"
  by (auto simp: signed_inv_def update_last_signed_get update_last_signed_counter split: option.splits)

lemma signed_inv_put: "signed_inv c \<Longrightarrow> k \<noteq> ''last_signed_block'' \<Longrightarrow> signed_inv (snd (cache_put wr k v c))"
  by (auto simp: signed_inv_def cache_put_get cache_put_simps split: option.splits)

lemma signed_inv_save_block:
  assumes "signed_inv c" "hash_key h" "save_block wr n h d e c = (ok, c')"
  shows "signed_inv c'"
proof -
  have "cache_get c' ''last_signed_block'' = cache_get c ''last_signed_block''"
    using assms(2) by (intro save_block_frame [OF assms(3)]) (auto simp: key_defs dest: hash_key_apart)
  with assms save_block_counters [OF assms(3)] show ?thesis by (auto simp: signed_inv_def split: option.splits)
qed

lemma c_string_number: "takeWhile (\<lambda>c. c \<noteq> CHR 0x00) (to_string n) = to_string n"
  by (rule takeWhile_all) (use to_string_digits [of "CHR 0x00" n] in \<open>auto simp: isdigit_def\<close>)

lemma atoi_number_small: "n < 2 ^ 31 \<Longrightarrow> atoi_number (to_string n) = n"
  unfolding atoi_number_def c_string_number by (simp add: atoi_to_string)

lemma atoi_number_large:
  assumes "2 ^ 31 \<le> n" "n < 2 ^ 32"
  shows "atoi_number (to_string n) = n + 2 ^ 64 - 2 ^ 32"
proof -
  have "signed_take_bit 31 (int n) = int n - 2 ^ 32"
  proof -
    have "signed_take_bit 31 (int n) = signed_take_bit 31 (int n - 2 ^ 32)"
      by (simp add: signed_take_bit_eq_iff_take_bit_eq take_bit_eq_mod mod_diff_right_eq)
    also have "\<dots> = int n - 2 ^ 32" using assms by (intro signed_take_bit_int_eq_self) auto
    finally show ?thesis .
  qed
  then have "atoi (to_string n) = int n - 2 ^ 32"
    using assms by (simp add: atoi_def clamp_long_def)
  moreover have "(int n - 2 ^ 32) mod 2 ^ 64 = int n + 2 ^ 64 - 2 ^ 32"
    using assms mod_add_self2 [of "int n - 2 ^ 32" "2 ^ 64"] by (simp add: mod_pos_pos_trivial)
  ultimately show ?thesis
    using assms unfolding atoi_number_def c_string_number by simp
qed

section \<open>Every change of the stored state\<close>

text \<open>The writes the worker makes, in any order, each with its own outcome: a block, the status or the
  signature block of a number, the number of the next block, the last signed block.\<close>

inductive cache_step :: "blocks_cache \<Rightarrow> blocks_cache \<Rightarrow> bool" where
  step_block: "hash_key h \<Longrightarrow> cache_step c (snd (save_block wr n h d e c))"
| step_data: "cache_step c (snd (save_extra_data wr (to_string n) e c))"
| step_extra: "cache_step c (snd (save_extra_block wr (to_string n) d c))"
| step_next: "cache_step c (snd (update_number wr n (c\<lparr>m_nextblock := n\<rparr>)))"
| step_signed: "cache_step c (snd (update_last_signed wr n c))"

inductive_cases cache_stepE: "cache_step c c'"

lemma cache_step_last_signed: "cache_step c c' \<Longrightarrow> m_last_signed_block c \<le> m_last_signed_block c'"
proof (induction rule: cache_step.induct)
  case (step_block h c wr n d e)
  show ?case using save_block_counters [of wr n h d e c] by (cases "save_block wr n h d e c") auto
qed (simp_all add: save_extra_data_def save_extra_block_def update_number_def cache_put_simps
    update_last_signed_counter)

lemma signed_inv_nextblock [simp]: "signed_inv (c\<lparr>m_nextblock := n\<rparr>) \<longleftrightarrow> signed_inv c"
  by (auto simp: signed_inv_def cache_get_def split: option.splits)

lemma cache_step_signed_inv: "cache_step c c' \<Longrightarrow> signed_inv c \<Longrightarrow> signed_inv c'"
proof (induction rule: cache_step.induct)
  case (step_block h c wr n d e)
  then show ?case using signed_inv_save_block by (cases "save_block wr n h d e c") auto
qed (auto simp: save_extra_data_def save_extra_block_def update_number_def key_defs
    intro!: signed_inv_put signed_inv_update)

lemma cache_steps_inv:
  "cache_step\<^sup>*\<^sup>* c c' \<Longrightarrow> signed_inv c \<Longrightarrow> signed_inv c' \<and> m_last_signed_block c \<le> m_last_signed_block c'"
  by (induction rule: rtranclp_induct)
    (auto dest: cache_step_signed_inv cache_step_last_signed intro: order_trans)

lemma init_restores:
  assumes "signed_inv c" "m_last_signed_block c < 2 ^ 31" "n < 2 ^ 31"
    and "cache_get c ''next_block'' = Some (to_string n)"
  shows "\<exists>c'. init True True (Some (m_db c)) new_blocks_cache = (True, c') \<and> m_nextblock c' = n \<and>
    m_last_signed_block c' = m_last_signed_block c \<and> (\<forall>k. cache_get c' k = cache_get c k)"
proof -
  have "db_get (m_db c) ''next_block'' = Some (to_string n)" using assms(4) by (simp add: cache_get_def)
  then show ?thesis
    using assms(1-3)
    by (cases "db_get (m_db c) ''last_signed_block''")
      (auto simp: init_def Let_def new_blocks_cache_def signed_inv_def cache_get_def atoi_number_small)
qed

section \<open>Properties\<close>

text \<open>C6: after \<^verbatim>\<open>save_block\<close> reported success the block is found by its number and by its hash, with the
  signature data saved with it, verified lookups see it exactly when that data says signed, and every
  other block, signature status and hash is found as before.\<close>

theorem save_block_lookup:
  assumes "save_block wr n h d e c = (True, c')" and "hash_key h" and "n < 2 ^ 64"
    and "m \<noteq> n" and "m < 2 ^ 64" and "hash_key h'" and "h' \<noteq> h"
  shows "get_block_by_num c' n False = Some d \<and> get_block_by_hash c' h False = (Some (to_string n), Some d) \<and>
    get_extra_data c' n = Some e \<and>
    get_block_by_num c' n True = (if first_char e = ext_char blk_signed then Some d else None) \<and>
    get_block_by_num c' m v = get_block_by_num c m v \<and> get_extra_data c' m = get_extra_data c m \<and>
    get_extra_block_for c' k = get_extra_block_for c k \<and>
    get_block_num_by_hash c' h' = get_block_num_by_hash c h'"
proof -
  note frame = save_block_frame [OF assms(1)]
  have "cache_get c' (to_string m) = cache_get c (to_string m)"
    "cache_get c' (data_key (to_string m)) = cache_get c (data_key (to_string m))"
    "cache_get c' (extra_key (to_string k)) = cache_get c (extra_key (to_string k))"
    "cache_get c' h' = cache_get c h'"
    using assms by (auto intro!: frame simp: key_defs dest: hash_key_apart)
  then show ?thesis
    using save_block_ok [OF assms(1-3)]
    by (simp add: get_block_by_num_def get_block_by_num_str_def get_block_by_hash_def get_extra_data_def
        get_extra_block_for_def get_block_num_by_hash_def)
qed

theorem save_block_lookup_witness:
  "\<exists>c'. save_block (\<lambda>_ _. True) 7 (replicate 64 (CHR ''a'')) ''dump'' (ext_data_of blk_signed) new_blocks_cache = (True, c') \<and>
    get_block_by_num c' 7 True = Some ''dump'' \<and> get_block_by_num c' 8 False = None"
proof -
  let ?h = "replicate 64 (CHR ''a'')" and ?w = "\<lambda>_ _ :: string. True"
  obtain ok c' where s: "save_block ?w 7 ?h ''dump'' (ext_data_of blk_signed) new_blocks_cache = (ok, c')"
    by (cases "save_block ?w 7 ?h ''dump'' (ext_data_of blk_signed) new_blocks_cache") blast
  have "ok" using s by (simp add: save_block_def save_extra_data_def Let_def cache_put_def db_put_def)
  with s have s': "save_block ?w 7 ?h ''dump'' (ext_data_of blk_signed) new_blocks_cache = (True, c')" by simp
  have "hash_key ?h" "hash_key (replicate 64 (CHR ''b''))" by (simp_all add: hash_key_def)
  moreover have "get_block_by_num new_blocks_cache 8 False = None"
    by (simp add: get_block_by_num_def get_block_by_num_str_def cache_get_def db_get_def new_blocks_cache_def)
  ultimately show ?thesis
    using save_block_lookup [OF s', of 8 "replicate 64 (CHR ''b'')" False 0] s'
    by (simp add: ext_data_of_def first_char_def replicate_eq_replicate)
qed



text \<open>Numbers from \<open>2 ^ 31\<close> on do not survive a restart: \<^verbatim>\<open>std::atoi\<close> wraps and the cast to
  \<^verbatim>\<open>size_t\<close> makes the next block a number close to \<open>2 ^ 64\<close>.\<close>

lemma restart_breaks_large_numbers:
  assumes "2 ^ 31 \<le> n" "n < 2 ^ 32" and "db_get d ''next_block'' = Some (to_string n)"
  shows "m_nextblock (snd (init True True (Some d) new_blocks_cache)) = n + 2 ^ 64 - 2 ^ 32"
  using assms(3) atoi_number_large [OF assms(1,2)]
  by (auto simp: init_def Let_def new_blocks_cache_def split: option.splits)

lemma restart_breaks_large_numbers_witness:
  "m_nextblock (snd (init True True (Some [''next_block'' \<mapsto> to_string 2147483648]) new_blocks_cache)) = 18446744071562067968"
  using restart_breaks_large_numbers [of 2147483648 "[''next_block'' \<mapsto> to_string 2147483648]"]
  by (simp add: db_get_def)

end
