(* ===== verification/Block_Verify.thy ===== *)
theory Block_Verify
  imports Block_Info Blocks_Cache "HOL-Library.Multiset"
begin

text \<open>
  The acceptance test of the block cache: \<^verbatim>\<open>auto_signed_block\<close> and the two \<^verbatim>\<open>core_addr_verification\<close> of
  \<^verbatim>\<open>src/src/cache/blocks_cache.cpp\<close>, with the exception table \<^verbatim>\<open>blocks_exceptions.h\<close>.  The loops consume
  a copy of the configured core addresses; the lemmas show that they compute a declarative test: which
  of the first seven transactions are signatures, by which cores, and of which block.
\<close>

section \<open>Definitions\<close>

definition auto_signed_blocks :: "(nat \<times> nat) list" where
  "auto_signed_blocks = [(1, 12890)]"

fun auto_signed_in :: "(nat \<times> nat) list \<Rightarrow> nat \<Rightarrow> bool" where
  "auto_signed_in [] number = False"
| "auto_signed_in ((a, b) # vs) number =
     (if a = number then True
      else if a < b \<and> a < number \<and> number \<le> b then True
      else auto_signed_in vs number)"

definition auto_signed_block :: "nat \<Rightarrow> bool" where
  "auto_signed_block number = auto_signed_in auto_signed_blocks number"

definition int_max :: int where
  "int_max = 2147483647"

definition lower_address :: "torrent_lib \<Rightarrow> Address \<Rightarrow> string" where
  "lower_address lib a = map to_lower_char (calcHexString lib a)"

text \<open>The loop over the transactions: index, remaining cores and \<^verbatim>\<open>succ\<close>.\<close>

fun verify_txs :: "torrent_lib \<Rightarrow> string \<Rightarrow> TransactionInfo list \<Rightarrow> nat \<Rightarrow> string list \<Rightarrow> bool \<Rightarrow> bool \<times> string list" where
  "verify_txs lib prev_hash [] i cores succ = (succ, cores)"
| "verify_txs lib prev_hash (tx # txs) i cores succ =
     (if i > 6 then (succ, cores)
      else if \<not> ti_isSignBlockTx tx then verify_txs lib prev_hash txs (Suc i) cores True
      else if \<not> address_eq lib (ti_toAddress tx) (ti_fromAddress tx) then (False, cores)
      else let from = lower_address lib (ti_fromAddress tx)
           in if from \<notin> set cores then (False, cores)
              else let cores = remove1 from cores
                   in if string_utils_bin2hex (ti_data tx) \<noteq> prev_hash then (False, cores)
                      else verify_txs lib prev_hash txs (Suc i) cores True)"

definition core_addr_verification :: "torrent_lib \<Rightarrow> string list \<Rightarrow> BlockInfo \<Rightarrow> string \<Rightarrow> int" where
  "core_addr_verification lib all_cores bi prev_hash =
     (if isStateBlock lib (bi_header bi) \<or> isForgingBlock lib (bi_header bi) then int_max
      else case bh_blockNumber (bi_header bi) of
             None \<Rightarrow> -1
           | Some number \<Rightarrow>
               if auto_signed_block number then int_max
               else let (succ, cores) = verify_txs lib prev_hash (bi_txs bi) 0 all_cores False
                    in if succ then int (length all_cores - length cores) else -1)"

fun verify_sign_txs :: "torrent_lib \<Rightarrow> SignTransactionInfo list \<Rightarrow> nat \<Rightarrow> string list \<Rightarrow> bool \<Rightarrow> bool \<times> string list" where
  "verify_sign_txs lib [] i cores succ = (succ, cores)"
| "verify_sign_txs lib (tx # txs) i cores succ =
     (if i > 6 then (succ, cores)
      else let from = lower_address lib (sti_address tx)
           in if from \<notin> set cores then (False, cores)
              else verify_sign_txs lib txs (Suc i) (remove1 from cores) True)"

definition core_addr_verification_sign :: "torrent_lib \<Rightarrow> string list \<Rightarrow> SignBlockInfo \<Rightarrow> int" where
  "core_addr_verification_sign lib all_cores bi =
     (let (succ, cores) = verify_sign_txs lib (sb_txs bi) 0 all_cores False
      in if succ then int (length all_cores - length cores) else -1)"

section \<open>The loops compute a test on the first seven transactions\<close>

lemma auto_signed_block_iff: "auto_signed_block n \<longleftrightarrow> 1 \<le> n \<and> n \<le> 12890"
  by (auto simp: auto_signed_block_def auto_signed_blocks_def)

text \<open>A signature transaction a core may send for the block with hash \<open>prev\<close>.\<close>

definition signs_block :: "torrent_lib \<Rightarrow> string \<Rightarrow> TransactionInfo \<Rightarrow> bool" where
  "signs_block lib prev tx \<longleftrightarrow> address_eq lib (ti_toAddress tx) (ti_fromAddress tx) \<and>
     string_utils_bin2hex (ti_data tx) = prev"

abbreviation sign_txs :: "TransactionInfo list \<Rightarrow> TransactionInfo list" where
  "sign_txs txs \<equiv> filter ti_isSignBlockTx txs"

abbreviation signers :: "torrent_lib \<Rightarrow> TransactionInfo list \<Rightarrow> string list" where
  "signers lib txs \<equiv> map (\<lambda>tx. lower_address lib (ti_fromAddress tx)) (sign_txs txs)"

lemma subset_add_remove1:
  "x \<in> set xs \<Longrightarrow> add_mset x M \<subseteq># mset xs \<longleftrightarrow> M \<subseteq># mset (remove1 x xs)"
  by (metis add_mset_remove_trivial insert_subset_eq_iff mset_remove1 set_mset_mset)

lemma subset_add_not_mem: "x \<notin> set xs \<Longrightarrow> \<not> add_mset x M \<subseteq># mset xs"
  by (metis mset_subset_eqD set_mset_mset union_single_eq_member)

lemma distinct_submset:
  assumes "mset xs \<subseteq># mset ys" and "distinct ys"
  shows "distinct xs"
  unfolding distinct_count_atmost_1
proof
  fix a
  have "count (mset xs) a \<le> count (mset ys) a" using assms(1) by (rule mset_subset_eq_count)
  also have "\<dots> \<le> 1" using assms(2) by (simp add: distinct_count_atmost_1)
  finally have le: "count (mset xs) a \<le> 1" .
  show "count (mset xs) a = (if a \<in> set xs then 1 else 0)"
  proof (cases "a \<in> set xs")
    case True
    then have "count (mset xs) a \<noteq> 0" by (simp add: count_mset_0_iff)
    with le have "count (mset xs) a = 1" by linarith
    with True show ?thesis by simp
  qed simp
qed

text \<open>What the loop finds from index \<open>i\<close> on.\<close>

definition txs_accepted :: "torrent_lib \<Rightarrow> string \<Rightarrow> TransactionInfo list \<Rightarrow> string list \<Rightarrow> bool" where
  "txs_accepted lib prev txs cores \<longleftrightarrow>
     (\<forall>tx\<in>set (sign_txs txs). signs_block lib prev tx) \<and> mset (signers lib txs) \<subseteq># mset cores"

lemma verify_txs_spec:
  "case verify_txs lib prev txs i cores succ of (s, cores') \<Rightarrow>
     (s \<longleftrightarrow> (succ \<or> (txs \<noteq> [] \<and> i \<le> 6)) \<and> txs_accepted lib prev (take (7 - i) txs) cores) \<and>
     (s \<longrightarrow> length cores = length cores' + length (sign_txs (take (7 - i) txs)))"
proof (induction lib prev txs i cores succ rule: verify_txs.induct)
  case (1 lib prev i cores succ)
  then show ?case by (simp add: txs_accepted_def)
next
  case (2 lib prev tx txs i cores succ)
  let ?from = "lower_address lib (ti_fromAddress tx)"
  consider "i > 6" | "i \<le> 6" "\<not> ti_isSignBlockTx tx"
    | "i \<le> 6" "ti_isSignBlockTx tx" "\<not> address_eq lib (ti_toAddress tx) (ti_fromAddress tx) \<or> ?from \<notin> set cores
        \<or> string_utils_bin2hex (ti_data tx) \<noteq> prev"
    | "i \<le> 6" "ti_isSignBlockTx tx" "address_eq lib (ti_toAddress tx) (ti_fromAddress tx)" "?from \<in> set cores"
        "string_utils_bin2hex (ti_data tx) = prev"
    by linarith
  then show ?case
  proof cases
    case 1
    then show ?thesis by (auto simp: txs_accepted_def)
  next
    case c: 2
    then have t: "7 - i = Suc (7 - Suc i)" by simp
    from c "2.IH"(1) show ?thesis
      by (auto simp: t txs_accepted_def split: prod.splits)
  next
    case c: 3
    then have t: "7 - i = Suc (7 - Suc i)" by simp
    from c have "\<not> txs_accepted lib prev (take (7 - i) (tx # txs)) cores"
      by (auto simp: t txs_accepted_def signs_block_def subset_add_not_mem)
    with c show ?thesis by (auto simp: Let_def)
  next
    case c: 4
    then have t: "7 - i = Suc (7 - Suc i)" by simp
    have acc: "txs_accepted lib prev (take (7 - i) (tx # txs)) cores \<longleftrightarrow>
        txs_accepted lib prev (take (7 - Suc i) txs) (remove1 ?from cores)"
      using c by (simp add: t txs_accepted_def signs_block_def subset_add_remove1)
    have len: "length cores = Suc (length (remove1 ?from cores))"
      using c(4) by (simp add: length_remove1) (metis length_pos_if_in_set Suc_pred)
    obtain s cores' where v: "verify_txs lib prev txs (Suc i) (remove1 ?from cores) True = (s, cores')"
      by fastforce
    with c "2.IH"(2) [OF _ _ _ refl _ refl] have "(s \<longleftrightarrow> txs_accepted lib prev (take (7 - Suc i) txs) (remove1 ?from cores)) \<and>
        (s \<longrightarrow> length (remove1 ?from cores) = length cores' + length (sign_txs (take (7 - Suc i) txs)))"
      by simp
    with c v acc len show ?thesis by (simp add: Let_def t)
  qed
qed

lemma core_addr_verification_eq:
  assumes "\<not> isStateBlock lib (bi_header bi)" "\<not> isForgingBlock lib (bi_header bi)"
    and "bh_blockNumber (bi_header bi) = Some n" and "\<not> (1 \<le> n \<and> n \<le> 12890)"
  shows "core_addr_verification lib cores bi prev =
    (if bi_txs bi \<noteq> [] \<and> txs_accepted lib prev (take 7 (bi_txs bi)) cores
     then int (length (sign_txs (take 7 (bi_txs bi)))) else -1)"
  using assms verify_txs_spec [where lib = lib and prev = prev and txs = "bi_txs bi" and i = 0 and cores = cores and succ = False]
  by (auto simp: core_addr_verification_def auto_signed_block_iff split: prod.splits)

lemma core_addr_verification_cases:
  "core_addr_verification lib cores bi prev = int_max \<or> core_addr_verification lib cores bi prev = -1 \<or>
   (bi_txs bi \<noteq> [] \<and> txs_accepted lib prev (take 7 (bi_txs bi)) cores \<and>
     core_addr_verification lib cores bi prev = int (length (sign_txs (take 7 (bi_txs bi)))))"
proof (cases "isStateBlock lib (bi_header bi) \<or> isForgingBlock lib (bi_header bi)")
  case False
  then show ?thesis
  proof (cases "bh_blockNumber (bi_header bi)")
    case (Some n)
    with False show ?thesis
      using core_addr_verification_eq [of lib bi n cores prev]
      by (cases "1 \<le> n \<and> n \<le> 12890") (auto simp: core_addr_verification_def auto_signed_block_iff)
  qed (simp add: core_addr_verification_def)
qed (auto simp: core_addr_verification_def)

lemma verify_sign_txs_spec:
  "case verify_sign_txs lib txs i cores succ of (s, cores') \<Rightarrow>
     (s \<longleftrightarrow> (succ \<or> (txs \<noteq> [] \<and> i \<le> 6)) \<and>
        mset (map (\<lambda>tx. lower_address lib (sti_address tx)) (take (7 - i) txs)) \<subseteq># mset cores) \<and>
     (s \<longrightarrow> length cores = length cores' + length (take (7 - i) txs))"
proof (induction lib txs i cores succ rule: verify_sign_txs.induct)
  case (2 lib tx txs i cores succ)
  let ?from = "lower_address lib (sti_address tx)"
  show ?case
  proof (cases "i > 6")
    case False
    then have t: "7 - i = Suc (7 - Suc i)" by simp
    show ?thesis
    proof (cases "?from \<in> set cores")
      case True
      have len: "length cores = Suc (length (remove1 ?from cores))"
        using True by (simp add: length_remove1) (metis length_pos_if_in_set Suc_pred)
      obtain s cores' where v: "verify_sign_txs lib txs (Suc i) (remove1 ?from cores) True = (s, cores')"
        by fastforce
      with "2.IH" [OF False refl] True have "(s \<longleftrightarrow>
          mset (map (\<lambda>tx. lower_address lib (sti_address tx)) (take (7 - Suc i) txs)) \<subseteq># mset (remove1 ?from cores)) \<and>
          (s \<longrightarrow> length (remove1 ?from cores) = length cores' + length (take (7 - Suc i) txs))"
        by simp
      with False True v len show ?thesis by (simp add: Let_def t subset_add_remove1)
    next
      case c: False
      with False show ?thesis by (simp add: Let_def t subset_add_not_mem)
    qed
  qed simp
qed simp

lemma core_addr_verification_sign_eq:
  "core_addr_verification_sign lib cores bi =
    (if sb_txs bi \<noteq> [] \<and> mset (map (\<lambda>tx. lower_address lib (sti_address tx)) (take 7 (sb_txs bi))) \<subseteq># mset cores
     then int (length (take 7 (sb_txs bi))) else -1)"
  using verify_sign_txs_spec [where lib = lib and txs = "sb_txs bi" and i = 0 and cores = cores and succ = False]
  by (auto simp: core_addr_verification_sign_def split: prod.splits)

section \<open>Properties\<close>

text \<open>C4: \<^verbatim>\<open>core_addr_verification\<close> of an ordinary block computes a declarative test: at least one
  transaction, every signature transaction among the first seven sent by a core to itself with the
  previous block's hash as data, no core counted more often than it is configured; the result is the
  number of these signatures, otherwise \<open>-1\<close>.  State blocks, forging blocks and the blocks 1 to 12890
  pass unconditionally.\<close>

theorem core_addr_verification_correct:
  "core_addr_verification lib cores bi prev =
    (if isStateBlock lib (bi_header bi) \<or> isForgingBlock lib (bi_header bi) then int_max
     else case bh_blockNumber (bi_header bi) of
       None \<Rightarrow> -1
     | Some n \<Rightarrow>
         if 1 \<le> n \<and> n \<le> 12890 then int_max
         else let txs = take 7 (bi_txs bi); sigs = filter ti_isSignBlockTx txs
              in if txs \<noteq> [] \<and> (\<forall>tx\<in>set sigs. signs_block lib prev tx) \<and>
                    mset (map (\<lambda>tx. lower_address lib (ti_fromAddress tx)) sigs) \<subseteq># mset cores
                 then int (length sigs) else -1)"
proof -
  have "case verify_txs lib prev (bi_txs bi) 0 cores False of (s, cores') \<Rightarrow>
     (s \<longleftrightarrow> bi_txs bi \<noteq> [] \<and> txs_accepted lib prev (take 7 (bi_txs bi)) cores) \<and>
     (s \<longrightarrow> length cores = length cores' + length (sign_txs (take 7 (bi_txs bi))))"
    using verify_txs_spec [where lib = lib and prev = prev and txs = "bi_txs bi" and i = 0 and cores = cores and succ = False] by simp
  then show ?thesis
    by (auto simp: core_addr_verification_def auto_signed_block_iff Let_def txs_accepted_def
        split: prod.splits option.splits)
qed

text \<open>Sample data for evaluation: a library whose addresses print their bytes, a signature of block
  \<open>h\<close> by an address, and a block with given transactions.\<close>

definition sample_lib :: torrent_lib where
  "sample_lib = \<lparr>parseBlockDump = (\<lambda>_. Inr NoBlock), isStateBlock = (\<lambda>_. False), isForgingBlock = (\<lambda>_. False),
     getBlockType = (\<lambda>_. ''block''), calcHexString = addr_bytes, address_eq = (=), address_isEmpty = (\<lambda>a. addr_bytes a = []),
     realFee = (\<lambda>_. 0), isIntStatusNotSuccess = (\<lambda>_. False), balance_received = (\<lambda>b. be_received (bal_balance b)),
     balance_spent = (\<lambda>b. be_spent (bal_balance b))\<rparr>"

definition sample_address :: "string \<Rightarrow> Address" where
  "sample_address s = \<lparr>addr_bytes = s, addr_isInitialW = False, addr_isSet = True\<rparr>"

definition sample_tx :: "bool \<Rightarrow> string \<Rightarrow> byte list \<Rightarrow> TransactionInfo" where
  "sample_tx is_sign a h = \<lparr>ti_hash = ''h'', ti_fromAddress = sample_address a, ti_toAddress = sample_address a,
     ti_value = 0, ti_fees = 0, ti_nonce = 0, ti_blockNumber = 0, ti_blockIndex = 0, ti_sizeRawTx = 0,
     ti_isSignBlockTx = is_sign, ti_isModuleNotSet = False, ti_intStatus = None, ti_sign = [], ti_pubKey = [],
     ti_data = h, ti_allRawTx = [], ti_filePos = \<lparr>fp_pos = 0, fileNameRelative = []\<rparr>, ti_delegate = None,
     ti_scriptInfo = None, ti_status = None\<rparr>"

definition sample_block :: "byte list \<Rightarrow> byte list \<Rightarrow> TransactionInfo list \<Rightarrow> BlockInfo" where
  "sample_block h prev txs = \<lparr>bi_header = \<lparr>bh_timestamp = 0, bh_blockSize = 0, bh_blockType = 0, bh_hash = h,
     bh_prevHash = prev, bh_txsHash = [], bh_signature = [], bh_countTxs = 0, bh_countSignTx = 0,
     bh_filePos = \<lparr>fp_pos = 0, fileNameRelative = []\<rparr>, bh_blockNumber = Some 2000000, bh_senderSign = [],
     bh_senderPubkey = [], bh_senderAddress = []\<rparr>, bi_txs = txs\<rparr>"

lemma sample_simps [simp]:
  "calcHexString sample_lib = addr_bytes" "address_eq sample_lib = (=)" "\<not> isStateBlock sample_lib bh"
  "\<not> isForgingBlock sample_lib bh" "addr_bytes (sample_address s) = s"
  "ti_isSignBlockTx (sample_tx sg a d) = sg" "ti_fromAddress (sample_tx sg a d) = sample_address a"
  "ti_toAddress (sample_tx sg a d) = sample_address a" "ti_data (sample_tx sg a d) = d"
  "bi_txs (sample_block h p txs) = txs" "bh_hash (bi_header (sample_block h p txs)) = h"
  "bh_prevHash (bi_header (sample_block h p txs)) = p" "bh_blockNumber (bi_header (sample_block h p txs)) = Some 2000000"
  by (simp_all add: sample_lib_def sample_address_def sample_tx_def sample_block_def)

theorem core_addr_verification_correct_witness:
  "core_addr_verification sample_lib [''0x1'', ''0x2'', ''0x3'']
     (sample_block [9] [1] [sample_tx True ''0x1'' [1], sample_tx True ''0x2'' [1], sample_tx False ''0x7'' []])
     (string_utils_bin2hex [1]) = 2"
  unfolding core_addr_verification_correct
  by (auto simp: Let_def signs_block_def lower_address_def to_lower_char_def)

text \<open>C8: with pairwise different cores configured, a signature block that \<^verbatim>\<open>core_addr_verification\<close>
  accepts with result \<open>k > 0\<close> carries addresses of \<open>k\<close> different cores, at most seven.\<close>

theorem sign_block_distinct_cores:
  assumes "distinct cores" and "core_addr_verification_sign lib cores bi = int k" and "0 < k"
  shows "k \<le> 7 \<and> card ((\<lambda>tx. lower_address lib (sti_address tx)) ` set (take 7 (sb_txs bi))) = k \<and>
    (\<lambda>tx. lower_address lib (sti_address tx)) ` set (take 7 (sb_txs bi)) \<subseteq> set cores"
proof -
  let ?as = "map (\<lambda>tx. lower_address lib (sti_address tx)) (take 7 (sb_txs bi))"
  have sub: "mset ?as \<subseteq># mset cores" and k: "k = length ?as"
    using assms(2,3) by (auto simp: core_addr_verification_sign_eq split: if_splits)
  have "distinct ?as" using sub assms(1) by (rule distinct_submset)
  then have "card (set ?as) = k" using k by (simp only: distinct_card)
  moreover have "set ?as \<subseteq> set cores" using set_mset_mono [OF sub] by simp
  ultimately show ?thesis using k by simp
qed

theorem sign_block_distinct_cores_witness:
  "\<exists>bi. core_addr_verification_sign sample_lib [''0x1'', ''0x2'', ''0x3''] bi = int 2 \<and>
    card ((\<lambda>tx. lower_address sample_lib (sti_address tx)) ` set (take 7 (sb_txs bi))) = 2"
proof -
  let ?tx = "\<lambda>a. \<lparr>sti_blockHash = [], sti_sign = [], sti_pubkey = [], sti_address = sample_address a\<rparr>"
  let ?bi = "\<lparr>sb_header = \<lparr>sh_timestamp = 0, sh_blockSize = 0, sh_hash = [], sh_prevHash = [],
      sh_filePos = \<lparr>fp_pos = 0, fileNameRelative = []\<rparr>, sh_senderSign = [], sh_senderPubkey = [], sh_senderAddress = []\<rparr>,
      sb_txs = [?tx ''0x1'', ?tx ''0x2'']\<rparr>"
  have k: "core_addr_verification_sign sample_lib [''0x1'', ''0x2'', ''0x3''] ?bi = int 2"
    by (simp add: core_addr_verification_sign_def Let_def lower_address_def to_lower_char_def)
  then show ?thesis
    using sign_block_distinct_cores [OF _ k] by (intro exI [of _ ?bi]) simp
qed

end
