(* ===== verification/Compress.thy ===== *)
theory Compress
  imports Prelude
begin

text \<open>
  \<^verbatim>\<open>src/src/cache/compress.cpp\<close>: LZ4 blocks with a 32-bit little-endian header holding the original
  size.  \<^verbatim>\<open>LZ4_compressBound\<close> is the macro of \<^verbatim>\<open>lz4.h\<close>; the two LZ4 routines are the fields of the
  record \<open>lz4\<close>: \<^const>\<open>None\<close> is the return value 0 of the compressor, a negative one of the
  decompressor.  Sizes go through the \<^verbatim>\<open>int\<close> parameters of LZ4, so a source of \<open>n\<close> bytes is seen by
  it as its first \<open>n mod 2 ^ 32\<close> bytes.  A destination that LZ4 gave up on keeps its old content.
\<close>

record lz4 =
  LZ4_compress_default :: "string \<Rightarrow> nat \<Rightarrow> string option"
  LZ4_decompress_safe :: "string \<Rightarrow> nat \<Rightarrow> string option"

definition LZ4_MAX_INPUT_SIZE :: nat where
  "LZ4_MAX_INPUT_SIZE = 0x7E000000"

definition LZ4_compressBound :: "nat \<Rightarrow> nat" where
  "LZ4_compressBound n =
     (let isize = n mod 2 ^ 32
      in if LZ4_MAX_INPUT_SIZE < isize then 0 else isize + isize div 255 + 16)"

definition str_resize :: "nat \<Rightarrow> string \<Rightarrow> string" where
  "str_resize n s = take n s @ replicate (n - length s) (CHR 0x00)"

text \<open>Writing \<open>bs\<close> into a buffer from position \<open>pos\<close> on.\<close>

definition write_at :: "nat \<Rightarrow> string \<Rightarrow> string \<Rightarrow> string" where
  "write_at pos bs buf = take pos buf @ bs @ drop (pos + length bs) buf"

fun le_chars :: "nat \<Rightarrow> nat \<Rightarrow> string" where
  "le_chars 0 v = []"
| "le_chars (Suc k) v = char_of (v mod 256) # le_chars k (v div 256)"

definition u32_chars :: "nat \<Rightarrow> string" where
  "u32_chars n = le_chars 4 n"

definition u32_of_chars :: "string \<Rightarrow> nat" where
  "u32_of_chars s = foldr (\<lambda>c a. of_char c + 256 * a) (take 4 s) 0"

definition lz4_input :: "string \<Rightarrow> string" where
  "lz4_input src = take (length src mod 2 ^ 32) src"

definition compress_raw_block :: "lz4 \<Rightarrow> string \<Rightarrow> string \<Rightarrow> bool \<times> string" where
  "compress_raw_block L src dst =
     (let bound_size = LZ4_compressBound (length src)
      in if src = [] then (False, dst) else if bound_size = 0 then (False, dst)
         else let dst = (if length dst < bound_size then str_resize bound_size dst else dst)
              in case LZ4_compress_default L (lz4_input src) (length dst) of
                   None \<Rightarrow> (False, dst)
                 | Some c \<Rightarrow>
                     let dst = write_at 0 c dst
                     in (True, if length c \<noteq> bound_size then str_resize (length c) dst else dst))"

definition compress_uint32_block :: "lz4 \<Rightarrow> string \<Rightarrow> string \<Rightarrow> bool \<times> string" where
  "compress_uint32_block L src dst =
     (let bound = LZ4_compressBound (length src); bound_size = bound + 4
      in if src = [] then (False, dst) else if bound = 0 then (False, dst)
         else let dst = (if length dst < bound_size then str_resize bound_size dst else dst)
              in case LZ4_compress_default L (lz4_input src) (length dst - 4) of
                   None \<Rightarrow> (False, dst)
                 | Some c \<Rightarrow>
                     let dst = write_at 4 c dst;
                         dst = (if length c + 4 \<noteq> bound_size then str_resize (length c + 4) dst else dst)
                     in (True, write_at 0 (u32_chars (length src mod 2 ^ 32)) dst))"

definition decompress_raw_block :: "lz4 \<Rightarrow> string \<Rightarrow> string \<Rightarrow> bool \<times> string" where
  "decompress_raw_block L src dst =
     (if src = [] then (False, dst)
      else case LZ4_decompress_safe L src (length dst) of
             None \<Rightarrow> (False, dst)
           | Some d \<Rightarrow>
               let dst = write_at 0 d dst
               in (True, if length dst \<noteq> length d then str_resize (length d) dst else dst))"

definition decompress_uint32_block :: "lz4 \<Rightarrow> string \<Rightarrow> string \<Rightarrow> nat \<Rightarrow> bool \<times> string" where
  "decompress_uint32_block L src dst max_size =
     (if length src \<le> 4 then (False, dst)
      else let orig_size = u32_of_chars src
           in if max_size < orig_size then (False, dst)
              else let dst = (if length dst < orig_size then str_resize orig_size dst else dst)
                   in case LZ4_decompress_safe L (drop 4 src) (length dst) of
                        None \<Rightarrow> (False, dst)
                      | Some d \<Rightarrow>
                          let dst = write_at 0 d dst
                          in (True, if length dst \<noteq> length d then str_resize (length d) dst else dst))"

definition compress :: "lz4 \<Rightarrow> string \<Rightarrow> string" where
  "compress L v = snd (compress_uint32_block L v [])"

definition decompress :: "lz4 \<Rightarrow> string \<Rightarrow> string" where
  "decompress L v = snd (decompress_uint32_block L v [] (2 ^ 32 - 1))"

section \<open>What LZ4 documents\<close>

text \<open>Compression into a buffer of at least \<^verbatim>\<open>LZ4_compressBound\<close> bytes succeeds, and the result
  decompresses to the source in every buffer that can hold it.\<close>

definition lz4_laws :: "lz4 \<Rightarrow> bool" where
  "lz4_laws L \<longleftrightarrow> (\<forall>src cap. src \<noteq> [] \<longrightarrow> length src \<le> LZ4_MAX_INPUT_SIZE \<longrightarrow>
     LZ4_compressBound (length src) \<le> cap \<longrightarrow>
     (\<exists>c. LZ4_compress_default L src cap = Some c \<and> c \<noteq> [] \<and> length c \<le> cap \<and>
        (\<forall>cap' \<ge> length src. LZ4_decompress_safe L c cap' = Some src)))"

section \<open>Lemmas\<close>

lemma length_str_resize [simp]: "length (str_resize n s) = n"
  by (simp add: str_resize_def)

lemma length_write_at: "pos + length bs \<le> length buf \<Longrightarrow> length (write_at pos bs buf) = length buf"
  by (simp add: write_at_def)

lemma length_le_chars [simp]: "length (le_chars k v) = k"
  by (induction k arbitrary: v) auto

lemma le_chars_value: "foldr (\<lambda>c a. of_char c + 256 * a) (le_chars k v) 0 = v mod 256 ^ k"
  by (induction k arbitrary: v) (simp_all add: mod_mult2_eq)

lemma length_u32_chars [simp]: "length (u32_chars n) = 4"
  by (simp add: u32_chars_def)

lemma u32_of_chars_u32 [simp]: "n < 2 ^ 32 \<Longrightarrow> u32_of_chars (u32_chars n @ rest) = n"
  by (simp add: u32_of_chars_def u32_chars_def le_chars_value)

lemma write_at_0: "length bs = length buf \<Longrightarrow> write_at 0 bs buf = bs"
  by (simp add: write_at_def)

text \<open>With an empty destination the compressed block is the header and LZ4's output, nothing more.\<close>

lemma compress_eq:
  assumes "lz4_laws L" and "src \<noteq> []" and "length src \<le> LZ4_MAX_INPUT_SIZE"
  obtains c where "compress_uint32_block L src [] = (True, u32_chars (length src) @ c)" and "c \<noteq> []"
    and "\<And>cap. length src \<le> cap \<Longrightarrow> LZ4_decompress_safe L c cap = Some src"
proof -
  let ?b = "LZ4_compressBound (length src)"
  have n: "length src mod 2 ^ 32 = length src" using assms(3) by (simp add: LZ4_MAX_INPUT_SIZE_def)
  have b: "?b \<noteq> 0" using assms(3) unfolding LZ4_compressBound_def n by (simp add: Let_def)
  obtain c where c: "LZ4_compress_default L src ?b = Some c" "c \<noteq> []" "length c \<le> ?b"
    "\<And>cap. length src \<le> cap \<Longrightarrow> LZ4_decompress_safe L c cap = Some src"
    using assms unfolding lz4_laws_def by (metis order_refl)
  let ?d = "write_at 4 c (str_resize (?b + 4) [])"
  have "take (length c + 4) ?d = take 4 ?d @ c"
    by (simp add: write_at_def str_resize_def add.commute take_add)
  then have "write_at 0 (u32_chars (length src)) (if length c \<noteq> ?b then str_resize (length c + 4) ?d else ?d) =
      u32_chars (length src) @ c"
    using c(3) by (auto simp: write_at_def str_resize_def)
  then have "compress_uint32_block L src [] = (True, u32_chars (length src) @ c)"
    using assms(2) b c(1) by (simp add: compress_uint32_block_def Let_def lz4_input_def n [simplified])
  with c(2,4) show ?thesis by (intro that)
qed

lemma decompress_compress:
  assumes "lz4_laws L" and "length v \<le> LZ4_MAX_INPUT_SIZE"
  shows "decompress L (compress L v) = v"
proof (cases "v = []")
  case True
  then show ?thesis
    by (simp add: compress_def decompress_def compress_uint32_block_def decompress_uint32_block_def Let_def)
next
  case False
  from assms(1) False assms(2) obtain c
    where c: "compress_uint32_block L v [] = (True, u32_chars (length v) @ c)" "c \<noteq> []"
      "\<And>cap. length v \<le> cap \<Longrightarrow> LZ4_decompress_safe L c cap = Some v"
    using compress_eq by blast
  have "length v < 2 ^ 32" using assms(2) by (simp add: LZ4_MAX_INPUT_SIZE_def)
  with c show ?thesis
    by (simp add: compress_def decompress_def decompress_uint32_block_def Let_def write_at_0)
qed

text \<open>A block LZ4 refuses leaves the zero-filled buffer of the announced size.\<close>

lemma decompress_refused:
  assumes "4 < length s" and "LZ4_decompress_safe L (drop 4 s) (u32_of_chars s) = None" and "u32_of_chars s < 2 ^ 32"
  shows "decompress L s = replicate (u32_of_chars s) (CHR 0x00)"
  using assms by (auto simp: decompress_def decompress_uint32_block_def Let_def str_resize_def)

section \<open>Properties\<close>

text \<open>C31: \<^verbatim>\<open>decompress\<close> inverts \<^verbatim>\<open>compress\<close> on every block LZ4 can take (up to 0x7E000000 bytes, the empty
  block included), given what LZ4 documents of its two routines.\<close>

theorem compress_roundtrip:
  assumes "lz4_laws L" and "length v \<le> LZ4_MAX_INPUT_SIZE"
  shows "decompress L (compress L v) = v"
  by (rule decompress_compress [OF assms])

text \<open>A concrete pair of routines that keeps the law: a marker character in front of the text.\<close>

definition stored_lz4 :: lz4 where
  "stored_lz4 = \<lparr>LZ4_compress_default = (\<lambda>s cap. if length s < cap then Some (CHR ''S'' # s) else None),
     LZ4_decompress_safe = (\<lambda>c cap. if c \<noteq> [] \<and> length c \<le> Suc cap then Some (tl c) else None)\<rparr>"

lemma stored_lz4_laws: "lz4_laws stored_lz4"
  by (auto simp: lz4_laws_def stored_lz4_def LZ4_compressBound_def LZ4_MAX_INPUT_SIZE_def Let_def)

theorem compress_roundtrip_witness:
  "decompress stored_lz4 (compress stored_lz4 ''a block of the chain'') = ''a block of the chain''"
  by (rule compress_roundtrip [OF stored_lz4_laws]) (simp add: LZ4_MAX_INPUT_SIZE_def)

end
