(* ===== verification/Json_Rpc.thy ===== *)
theory Json_Rpc
  imports Prelude
begin

text \<open>
  JSON documents and the JSON-RPC reader and writer of \<^verbatim>\<open>src/src/jsonrpc/json_rpc.{h,cpp}\<close>.  A document
  is the tree RapidJSON holds: an object is the list of its members in the order they were added,
  \<^verbatim>\<open>FindMember\<close> gives the first one of a name.  The text parser and printer of RapidJSON are not part of
  the sources; they are arguments where the code calls them.
\<close>

section \<open>Documents\<close>

datatype json =
    JNull
  | JBool bool
  | JInt int
  | JDouble u64
  | JString string
  | JArray "json list"
  | JObject "(string \<times> json) list"

definition IsObject :: "json \<Rightarrow> bool" where
  "IsObject j = (case j of JObject _ \<Rightarrow> True | _ \<Rightarrow> False)"

definition members :: "json \<Rightarrow> (string \<times> json) list" where
  "members j = (case j of JObject ms \<Rightarrow> ms | _ \<Rightarrow> [])"

definition FindMember :: "string \<Rightarrow> json \<Rightarrow> json option" where
  "FindMember name j = map_of (members j) name"

definition HasMember :: "string \<Rightarrow> json \<Rightarrow> bool" where
  "HasMember name j \<longleftrightarrow> FindMember name j \<noteq> None"

text \<open>The integer kinds of RapidJSON: \<^verbatim>\<open>IsInt\<close>, \<^verbatim>\<open>IsUint\<close>, \<^verbatim>\<open>IsInt64\<close>, \<^verbatim>\<open>IsUint64\<close> with their getters.\<close>

definition as_int :: "json \<Rightarrow> int option" where
  "as_int j = (case j of JInt i \<Rightarrow> if - (2 ^ 31) \<le> i \<and> i < 2 ^ 31 then Some i else None | _ \<Rightarrow> None)"

definition as_uint :: "json \<Rightarrow> nat option" where
  "as_uint j = (case j of JInt i \<Rightarrow> if 0 \<le> i \<and> i < 2 ^ 32 then Some (nat i) else None | _ \<Rightarrow> None)"

definition as_int64 :: "json \<Rightarrow> int option" where
  "as_int64 j = (case j of JInt i \<Rightarrow> if - (2 ^ 63) \<le> i \<and> i < 2 ^ 63 then Some i else None | _ \<Rightarrow> None)"

definition as_uint64 :: "json \<Rightarrow> nat option" where
  "as_uint64 j = (case j of JInt i \<Rightarrow> if 0 \<le> i \<and> i < 2 ^ 64 then Some (nat i) else None | _ \<Rightarrow> None)"

definition as_bool :: "json \<Rightarrow> bool option" where
  "as_bool j = (case j of JBool b \<Rightarrow> Some b | _ \<Rightarrow> None)"

definition as_string :: "json \<Rightarrow> string option" where
  "as_string j = (case j of JString s \<Rightarrow> Some s | _ \<Rightarrow> None)"

definition as_array :: "json \<Rightarrow> json list option" where
  "as_array j = (case j of JArray xs \<Rightarrow> Some xs | _ \<Rightarrow> None)"

section \<open>The reader\<close>

text \<open>\<^verbatim>\<open>m_doc\<close> after \<^verbatim>\<open>parse\<close>: RapidJSON leaves a null document behind a syntax error.\<close>

definition reader_parse :: "(string \<Rightarrow> json option) \<Rightarrow> string \<Rightarrow> bool \<times> json" where
  "reader_parse Parse txt = (case Parse txt of Some j \<Rightarrow> (True, j) | None \<Rightarrow> (False, JNull))"

definition reader_get :: "string \<Rightarrow> json \<Rightarrow> json option" where
  "reader_get name root = (if IsObject root then FindMember name root else None)"

definition get_value :: "(json \<Rightarrow> 'a option) \<Rightarrow> json \<Rightarrow> string \<Rightarrow> 'a option" where
  "get_value get root name =
     (if \<not> IsObject root then None
      else case FindMember name root of None \<Rightarrow> None | Some v \<Rightarrow> get v)"

definition get_value_view :: "json \<Rightarrow> string \<Rightarrow> string option" where
  "get_value_view root name = get_value as_string root name"

definition has_id :: "json \<Rightarrow> bool" where
  "has_id doc \<longleftrightarrow> reader_get ''id'' doc \<noteq> None"

text \<open>\<^verbatim>\<open>std::stoi\<close> may throw; a negative number wraps in the 32-bit unsigned identifier.\<close>

definition get_id :: "json \<Rightarrow> u32 fallible" where
  "get_id doc =
     (case reader_get ''id'' doc of
        None \<Rightarrow> Inr 0
      | Some i \<Rightarrow>
          (case as_string i of
             Some s \<Rightarrow> bindE (stoi (takeWhile (\<lambda>c. c \<noteq> CHR 0x00) s)) (\<lambda>v. Inr (of_int v))
           | None \<Rightarrow> (case as_int i of
               Some v \<Rightarrow> Inr (of_int v)
             | None \<Rightarrow> (case as_uint i of Some v \<Rightarrow> Inr (of_nat v) | None \<Rightarrow> Inr 0))))"

definition get_method :: "json \<Rightarrow> string" where
  "get_method doc = (case get_value_view doc ''method'' of Some s \<Rightarrow> s | None \<Rightarrow> [])"

definition get_error :: "json \<Rightarrow> json option" where
  "get_error doc = reader_get ''error'' doc"

definition get_result :: "json \<Rightarrow> json option" where
  "get_result doc = reader_get ''result'' doc"

definition get_params :: "json \<Rightarrow> json option" where
  "get_params doc = reader_get ''params'' doc"

section \<open>The writer\<close>

text \<open>
  The writer's \<^verbatim>\<open>get_value\<close> returns a reference into the document, created with the default of a type
  where the member is missing; here the update of the referenced value is an argument.  A root that is
  no object becomes an empty one first.
\<close>

fun upd_member :: "string \<Rightarrow> json \<Rightarrow> (json \<Rightarrow> json) \<Rightarrow> (string \<times> json) list \<Rightarrow> (string \<times> json) list" where
  "upd_member name def f [] = [(name, f def)]"
| "upd_member name def f ((k, v) # ms) =
     (if k = name then (k, f v) # ms else (k, v) # upd_member name def f ms)"

definition with_value :: "string \<Rightarrow> json \<Rightarrow> (json \<Rightarrow> json) \<Rightarrow> json \<Rightarrow> json" where
  "with_value name def f root = JObject (upd_member name def f (members root))"

definition set_id :: "u32 \<Rightarrow> json \<Rightarrow> json" where
  "set_id v doc =
     (if v = 0 then with_value ''id'' JNull (\<lambda>_. JNull) doc
      else with_value ''id'' (JInt 0) (\<lambda>_. JInt (uint v)) doc)"

text \<open>Without an explicit size the method name is cut after 30 characters (\<^verbatim>\<open>strnlen(value, 30)\<close>).\<close>

definition set_method :: "string \<Rightarrow> json \<Rightarrow> json" where
  "set_method v doc = with_value ''method'' (JString []) (\<lambda>_. JString (take 30 (takeWhile (\<lambda>c. c \<noteq> CHR 0x00) v))) doc"

definition set_result :: "json \<Rightarrow> json \<Rightarrow> json" where
  "set_result v doc = with_value ''result'' v (\<lambda>_. v) doc"

definition add_result :: "string \<Rightarrow> json \<Rightarrow> json \<Rightarrow> json" where
  "add_result name v doc = with_value ''result'' (JObject []) (with_value name JNull (\<lambda>_. v)) doc"

definition add_param :: "string \<Rightarrow> json \<Rightarrow> json \<Rightarrow> json" where
  "add_param name v doc = with_value ''params'' (JObject []) (with_value name JNull (\<lambda>_. v)) doc"

definition add_value :: "string \<Rightarrow> json \<Rightarrow> json \<Rightarrow> json" where
  "add_value name v doc = with_value name v (\<lambda>_. v) doc"

definition set_error :: "int \<Rightarrow> string \<Rightarrow> json \<Rightarrow> json" where
  "set_error code message doc =
     with_value ''error'' (JObject [])
       (\<lambda>err. with_value ''message'' (JString []) (\<lambda>_. JString message)
                (with_value ''code'' (JInt 0) (\<lambda>_. JInt code) err)) doc"

definition set_error_value :: "json \<Rightarrow> json \<Rightarrow> json" where
  "set_error_value v doc = with_value ''error'' v (\<lambda>_. v) doc"

definition set_error_data :: "json \<Rightarrow> json \<Rightarrow> json" where
  "set_error_data v doc = with_value ''error'' (JObject []) (with_value ''data'' (JObject []) (\<lambda>_. v)) doc"

definition add_error_data :: "string \<Rightarrow> json \<Rightarrow> json \<Rightarrow> json" where
  "add_error_data name v doc =
     with_value ''error'' (JObject []) (with_value ''data'' (JObject []) (with_value name JNull (\<lambda>_. v))) doc"

definition is_error :: "json \<Rightarrow> bool" where
  "is_error doc \<longleftrightarrow> IsObject doc \<and> HasMember ''error'' doc"

text \<open>\<^verbatim>\<open>reset\<close> keeps only the identifier; a new writer is a reset empty object.\<close>

definition writer_reset :: "json \<Rightarrow> json" where
  "writer_reset doc =
     (let i = (if IsObject doc then (case FindMember ''id'' doc of Some v \<Rightarrow> v | None \<Rightarrow> JNull) else JNull)
      in with_value ''id'' JNull (\<lambda>_. i)
           (with_value ''jsonrpc'' (JString []) (\<lambda>_. JString ''2.0'') (JObject [])))"

definition json_rpc_writer :: json where
  "json_rpc_writer = writer_reset (JObject [])"

definition writer_parse :: "(string \<Rightarrow> json option) \<Rightarrow> string \<Rightarrow> bool \<times> json" where
  "writer_parse Parse txt = (case Parse txt of Some j \<Rightarrow> (True, j) | None \<Rightarrow> (False, JNull))"

definition writer_get_params :: "json \<Rightarrow> json \<times> json" where
  "writer_get_params doc =
     (case FindMember ''params'' doc of
        Some p \<Rightarrow> (p, doc)
      | None \<Rightarrow> (JObject [], with_value ''params'' (JObject []) id doc))"

section \<open>Values and query strings\<close>

definition val2str :: "json option \<Rightarrow> string option" where
  "val2str v =
     (case v of None \<Rightarrow> None
      | Some j \<Rightarrow>
          (case as_string j of
             Some s \<Rightarrow> (let r = takeWhile (\<lambda>c. c \<noteq> CHR 0x00) s in if r \<noteq> [] then Some r else None)
           | None \<Rightarrow> (case as_int j of Some i \<Rightarrow> Some (to_string_int i)
             | None \<Rightarrow> (case as_int64 j of Some i \<Rightarrow> Some (to_string_int i)
               | None \<Rightarrow> (case as_uint j of Some n \<Rightarrow> Some (to_string n)
                 | None \<Rightarrow> (case as_uint64 j of Some n \<Rightarrow> Some (to_string n) | None \<Rightarrow> None))))))"

text \<open>\<^verbatim>\<open>AddMember\<close> appends even where the name is there already; \<^verbatim>\<open>operator[]\<close> then finds the first one.\<close>

definition put_query :: "string \<Rightarrow> string \<Rightarrow> (string \<times> json) list \<Rightarrow> (string \<times> json) list" where
  "put_query name v ms = upd_member name JNull (\<lambda>_. JString v) (ms @ [(name, JString [])])"

function to_json_loop :: "string \<Rightarrow> (string \<times> json) list \<Rightarrow> (string \<times> json) list" where
  "to_json_loop v ms =
     (case str_find ''='' v of
        None \<Rightarrow> ms
      | Some i \<Rightarrow>
          let name = take i v; r = drop (i + 1) v;
              j = (case str_find ''&'' r of None \<Rightarrow> length r | Some j \<Rightarrow> j)
          in to_json_loop (drop (j + 1) r) (put_query name (take j r) ms))"
  by pat_completeness auto
termination
proof (relation "measure (\<lambda>(v, _). length v)")
  fix v :: string and ms :: "(string \<times> json) list" and i name r j
  assume "str_find ''='' v = Some i" and "r = drop (i + 1) v"
  then show "((drop (j + 1) r, put_query name (take j r) ms), v, ms) \<in> measure (\<lambda>(v, _). length v)"
    by (cases v) auto
qed simp

declare to_json_loop.simps [simp del]

definition to_json :: "string \<Rightarrow> json \<Rightarrow> json" where
  "to_json param_list out = (if param_list = [] then out else JObject (to_json_loop param_list (members out)))"

section \<open>Lookups after updates\<close>

lemma members_simps [simp]: "members (JObject ms) = ms" "members JNull = []"
  by (simp_all add: members_def)

lemma IsObject_simps [simp]: "IsObject (JObject ms)" "\<not> IsObject JNull"
  by (simp_all add: IsObject_def)

lemma map_of_upd_member:
  "map_of (upd_member name def f ms) k =
     (if k = name then Some (f (case map_of ms name of Some v \<Rightarrow> v | None \<Rightarrow> def)) else map_of ms k)"
  by (induction name def f ms rule: upd_member.induct) auto

lemma FindMember_with_value [simp]:
  "FindMember k (with_value name def f root) =
     (if k = name then Some (f (case FindMember name root of Some v \<Rightarrow> v | None \<Rightarrow> def))
      else FindMember k root)"
  by (simp add: FindMember_def with_value_def map_of_upd_member)

lemma IsObject_with_value [simp]: "IsObject (with_value name def f root)"
  by (simp add: with_value_def)

lemma members_with_value: "members (with_value name def f root) = upd_member name def f (members root)"
  by (simp add: with_value_def)

lemma FindMember_empty [simp]: "FindMember k (JObject []) = None" "FindMember k JNull = None"
  by (simp_all add: FindMember_def)

lemma keys_upd_member:
  "map fst (upd_member name def f ms) = (if name \<in> fst ` set ms then map fst ms else map fst ms @ [name])"
  by (induction name def f ms rule: upd_member.induct) auto

lemma distinct_upd_member:
  "distinct (map fst ms) \<Longrightarrow> distinct (map fst (upd_member name def f ms))"
  by (simp add: keys_upd_member)

section \<open>The contract of a writer operation\<close>

text \<open>An operation of the writer touches one top-level member and keeps every other one; its result is
  an object whose member names stay distinct.\<close>

locale member_writer =
  fixes op :: "json \<Rightarrow> json" and touched :: string
  assumes frame: "k \<noteq> touched \<Longrightarrow> FindMember k (op doc) = FindMember k doc"
    and object: "IsObject (op doc)"
    and present: "FindMember touched (op doc) \<noteq> None"
    and names: "distinct (map fst (members doc)) \<Longrightarrow> distinct (map fst (members (op doc)))"
begin

lemma id_kept: "touched \<noteq> ''id'' \<Longrightarrow> IsObject doc \<Longrightarrow> get_id (op doc) = get_id doc"
  by (simp add: get_id_def reader_get_def object frame)

lemma has_id_kept: "touched \<noteq> ''id'' \<Longrightarrow> IsObject doc \<Longrightarrow> has_id (op doc) \<longleftrightarrow> has_id doc"
  by (simp add: has_id_def reader_get_def object frame)

lemma error_kept: "touched \<noteq> ''error'' \<Longrightarrow> IsObject doc \<Longrightarrow> is_error (op doc) \<longleftrightarrow> is_error doc"
  by (simp add: is_error_def HasMember_def object frame)

lemma error_set: "touched = ''error'' \<Longrightarrow> is_error (op doc)"
  using present by (auto simp: is_error_def HasMember_def object)

end

lemma with_value_writer: "member_writer (with_value name def f) name"
  by unfold_locales (auto simp: members_with_value distinct_upd_member)

interpretation w_set_id: member_writer "set_id v" "''id''" for v
  using with_value_writer unfolding set_id_def by (cases "v = 0") simp_all

interpretation w_set_method: member_writer "set_method v" "''method''" for v
  using with_value_writer unfolding set_method_def .

interpretation w_set_result: member_writer "set_result v" "''result''" for v
  using with_value_writer unfolding set_result_def .

interpretation w_add_result: member_writer "add_result name v" "''result''" for name v
  using with_value_writer unfolding add_result_def .

interpretation w_add_param: member_writer "add_param name v" "''params''" for name v
  using with_value_writer unfolding add_param_def .

interpretation w_add_value: member_writer "add_value name v" name for name v
  using with_value_writer unfolding add_value_def .

interpretation w_set_error: member_writer "set_error code message" "''error''" for code message
  using with_value_writer unfolding set_error_def .

interpretation w_set_error_value: member_writer "set_error_value v" "''error''" for v
  using with_value_writer unfolding set_error_value_def .

interpretation w_set_error_data: member_writer "set_error_data v" "''error''" for v
  using with_value_writer unfolding set_error_data_def .

interpretation w_add_error_data: member_writer "add_error_data name v" "''error''" for name v
  using with_value_writer unfolding add_error_data_def .

section \<open>Identifiers, reset and errors\<close>

lemma get_id_set_id: "get_id (set_id v doc) = Inr v"
proof -
  have "uint v < 2 ^ 32" using unsigned_less [of v, where 'a = int] by simp
  then show ?thesis
    by (auto simp: get_id_def set_id_def reader_get_def as_string_def as_int_def as_uint_def)
qed

lemma FindMember_reset:
  "FindMember k (writer_reset doc) =
     (if k = ''id'' then Some (case FindMember ''id'' doc of Some v \<Rightarrow> v | None \<Rightarrow> JNull)
      else if k = ''jsonrpc'' then Some (JString ''2.0'') else None)"
proof -
  have "\<not> IsObject doc \<Longrightarrow> FindMember ''id'' doc = None"
    by (simp add: FindMember_def members_def IsObject_def split: json.splits)
  then show ?thesis by (simp add: writer_reset_def Let_def)
qed

lemma IsObject_reset [simp]: "IsObject (writer_reset doc)"
  by (simp add: writer_reset_def Let_def)

lemma is_error_reset [simp]: "\<not> is_error (writer_reset doc)"
  by (simp add: is_error_def HasMember_def FindMember_reset)

lemma get_id_reset [simp]:
  assumes "IsObject doc"
  shows "get_id (writer_reset doc) = get_id doc"
  using assms by (auto simp: get_id_def reader_get_def FindMember_reset as_string_def as_int_def as_uint_def
      split: option.splits)

lemma set_error_fields:
  "\<exists>err. FindMember ''error'' (set_error code message doc) = Some err \<and>
     FindMember ''code'' err = Some (JInt code) \<and> FindMember ''message'' err = Some (JString message)"
  by (simp add: set_error_def)

section \<open>Query strings\<close>

fun query_string :: "(string \<times> string) list \<Rightarrow> string" where
  "query_string [] = []"
| "query_string [(k, v)] = k @ ''='' @ v"
| "query_string ((k, v) # kvs) = k @ ''='' @ v @ ''&'' @ query_string kvs"

lemma upd_member_new:
  "name \<notin> fst ` set ms \<Longrightarrow> upd_member name def f (ms @ [(name, v)]) = ms @ [(name, f v)]"
  by (induction ms) auto

lemma to_json_loop_last:
  assumes "CHR ''='' \<notin> set k" "CHR ''&'' \<notin> set v"
  shows "to_json_loop (k @ ''='' @ v) ms = put_query k v ms"
proof -
  have "str_find ''='' (k @ CHR ''='' # v) = Some (length k)" using assms(1) by (rule str_find_char_append)
  moreover have "str_find ''&'' v = None" using assms(2) by (rule str_find_char_None)
  moreover have "to_json_loop [] ms' = ms'" for ms' by (subst to_json_loop.simps) simp
  ultimately show ?thesis by (subst to_json_loop.simps) (simp add: Let_def)
qed

lemma to_json_loop_step:
  assumes "CHR ''='' \<notin> set k" "CHR ''&'' \<notin> set v"
  shows "to_json_loop (k @ ''='' @ v @ ''&'' @ rest) ms = to_json_loop rest (put_query k v ms)"
proof -
  have "str_find ''='' (k @ CHR ''='' # v @ CHR ''&'' # rest) = Some (length k)"
    using assms(1) by (rule str_find_char_append)
  moreover have "str_find ''&'' (v @ CHR ''&'' # rest) = Some (length v)"
    using assms(2) by (rule str_find_char_append)
  ultimately show ?thesis by (subst to_json_loop.simps) (simp add: Let_def)
qed

lemma to_json_loop_query:
  assumes "\<forall>(k, v)\<in>set kvs. CHR ''='' \<notin> set k \<and> CHR ''&'' \<notin> set v"
    and "distinct (map fst ms @ map fst kvs)" and "kvs \<noteq> []"
  shows "to_json_loop (query_string kvs) ms = ms @ map (\<lambda>(k, v). (k, JString v)) kvs"
  using assms
proof (induction kvs arbitrary: ms rule: query_string.induct)
  case (2 k v)
  have "put_query k v ms = ms @ [(k, JString v)]"
    using 2 by (simp add: put_query_def upd_member_new)
  with 2 show ?case using to_json_loop_last [of k v ms] by simp
next
  case (3 k v kv kvs)
  have "put_query k v ms = ms @ [(k, JString v)]"
    using 3 by (simp add: put_query_def upd_member_new)
  moreover have "to_json_loop (query_string (kv # kvs)) (ms @ [(k, JString v)]) =
      (ms @ [(k, JString v)]) @ map (\<lambda>(k, v). (k, JString v)) (kv # kvs)"
    by (rule "3.IH") (use "3.prems" in auto)
  ultimately show ?case
    using to_json_loop_step [of k v "query_string (kv # kvs)" ms] "3.prems" by simp
qed simp

section \<open>Properties\<close>

text \<open>The writer's \<^verbatim>\<open>reset\<close> drops every member but the identifier, which the reader's \<^verbatim>\<open>get_id\<close> still
  finds (so a handler may reset its writer before it answers), and leaves no error behind.\<close>

lemma writer_reset_keeps_id:
  "get_id (writer_reset (set_id v doc)) = Inr v \<and> \<not> is_error (writer_reset doc) \<and>
   set (map fst (members (writer_reset doc))) = {''jsonrpc'', ''id''}"
proof -
  have "get_id (writer_reset (set_id v doc)) = Inr v"
    using get_id_reset [OF w_set_id.object] by (simp add: get_id_set_id)
  moreover have "set (map fst (members (writer_reset doc))) = {''jsonrpc'', ''id''}"
    by (auto simp: writer_reset_def Let_def members_with_value)
  ultimately show ?thesis by simp
qed

text \<open>What the writer sets, the reader gets: the identifier for all 32-bit values (0 is written as
  null), the error code and message, and no operation on another member disturbs the identifier or
  the error status.\<close>

lemma writer_reader_agree:
  "get_id (set_id v doc) = Inr v \<and>
   get_id (add_param k j (set_id v doc)) = Inr v \<and> get_id (add_result k j (set_id v doc)) = Inr v \<and>
   get_id (set_error c msg (set_id v doc)) = Inr v \<and> is_error (set_error c msg doc) \<and>
   is_error (set_id v (set_error c msg doc)) \<and> is_error (add_result k j (set_error c msg doc)) \<and>
   (\<exists>err. get_error (set_error c msg doc) = Some err \<and> get_value as_string err ''message'' = Some msg)"
proof -
  have "IsObject (set_error c msg doc)" by (rule w_set_error.object)
  moreover have "\<exists>err. get_error (set_error c msg doc) = Some err \<and> get_value as_string err ''message'' = Some msg"
    by (simp add: get_error_def reader_get_def set_error_def get_value_def as_string_def)
  ultimately show ?thesis
    using w_set_id.object [of v doc] w_set_error.error_set [of c msg doc]
    by (simp add: get_id_set_id w_add_param.id_kept w_add_result.id_kept w_set_error.id_kept
        w_set_id.error_kept w_add_result.error_kept)
qed

text \<open>\<^verbatim>\<open>to_json\<close> turns a query string of distinct names into the object of its pairs, in order.\<close>

lemma to_json_query:
  assumes "\<forall>(k, v)\<in>set kvs. CHR ''='' \<notin> set k \<and> CHR ''&'' \<notin> set v" and "distinct (map fst kvs)"
  shows "to_json (query_string kvs) (JObject []) = JObject (map (\<lambda>(k, v). (k, JString v)) kvs)"
proof (cases "kvs = []")
  case False
  then have "query_string kvs \<noteq> []" by (cases kvs rule: query_string.cases) auto
  with False assms show ?thesis by (simp add: to_json_def to_json_loop_query)
qed (simp add: to_json_def)

lemma to_json_query_witness:
  "to_json ''address=0x00&count=10'' (JObject []) =
     JObject [(''address'', JString ''0x00''), (''count'', JString ''10'')]"
  using to_json_query [of "[(''address'', ''0x00''), (''count'', ''10'')]"] by simp

end
