(* ===== verification/Cache_Sync.thy ===== *)
theory Cache_Sync
  imports Block_Verify Compress Json_Rpc
begin

text \<open>
  The worker of the block cache, \<^verbatim>\<open>routine_2\<close> and \<^verbatim>\<open>routine\<close> of \<^verbatim>\<open>src/src/cache/blocks_cache.cpp\<close>: asking
  the torrent node for block headers and dumps, checking the chain of hashes and the core signatures,
  storing blocks, marking blocks as signed and loading the signature blocks.  One pass of the endless
  loop is one function; the node, RapidJSON, LZ4, the torrent library, the write status of LevelDB and
  the settings are the fields of \<open>cache_env\<close>.  Waiting, logging and the dump of refused blocks into a
  file have no effect on the state and are left out.  Reading behind a buffer or through a null
  pointer, undefined in C++, is the exception \<^const>\<open>OtherExc\<close>.
\<close>

section \<open>Environment\<close>

text \<open>\<open>request path body\<close> is the body of the node's answer, \<^const>\<open>None\<close> for no answer.\<close>

record cache_env =
  request :: "string \<Rightarrow> string \<Rightarrow> string option"
  json_parse :: "string \<Rightarrow> json option"
  lz :: lz4
  lib :: torrent_lib
  write_ok :: "string \<Rightarrow> string \<Rightarrow> bool"
  cores :: "string list"
  init_count :: nat
  recv_count :: nat
  recv_data_size :: nat
  block_verification :: bool
  cache_force :: bool

text \<open>Leaving a loop: go on, \<^verbatim>\<open>break\<close>, or an exception; the state changes made so far stay.\<close>

datatype 's flow = Next 's | Break 's | Throw exc 's

section \<open>Reading a block back\<close>

definition dump_request :: "nat \<Rightarrow> string" where
  "dump_request num =
     ''{\"id\":1, \"version\":\"2.0\", \"method\":\"get-dump-block-by-number\", \"params\":{\"number\":'' @
     to_string num @ '', \"compress\":true}}''"

definition set_number :: "nat \<Rightarrow> BlockInfo \<Rightarrow> BlockInfo" where
  "set_number num b = b\<lparr>bi_header := (bi_header b)\<lparr>bh_blockNumber := Some num\<rparr>\<rparr>"

text \<open>\<^verbatim>\<open>std::get<BlockInfo>\<close> of the parsed dump.\<close>

definition parse_block :: "torrent_lib \<Rightarrow> string \<Rightarrow> BlockInfo fallible" where
  "parse_block L dump =
     bindE (parseBlockDump L dump)
       (\<lambda>sb. case sb of SomeBlock b \<Rightarrow> Inr b | _ \<Rightarrow> Inl (StdExc ''bad_variant_access''))"

text \<open>\<^verbatim>\<open>memcpy(exdata, s.c_str(), 8)\<close>; the writers always store eight characters.\<close>

definition ext_copy :: "string \<Rightarrow> string" where
  "ext_copy s = take 8 (s @ replicate 8 (CHR 0x00))"

definition get_block :: "cache_env \<Rightarrow> blocks_cache \<Rightarrow> nat \<Rightarrow> string \<Rightarrow> (BlockInfo option \<times> string) fallible" where
  "get_block E c num exdata =
     (let exdata = (case get_extra_data c num of Some s \<Rightarrow> ext_copy s | None \<Rightarrow> exdata)
      in case get_block_by_num c num False of
           Some dump \<Rightarrow> bindE (parse_block (lib E) dump) (\<lambda>b. Inr (Some (set_number num b), exdata))
         | None \<Rightarrow>
             (case request E ''get-dump-block-by-number'' (dump_request num) of
                None \<Rightarrow> Inl OtherExc
              | Some body \<Rightarrow>
                  if body = [] then Inr (None, exdata)
                  else if json_parse E body \<noteq> None then Inr (None, exdata)
                  else bindE (parseBlockDump (lib E) (decompress (lz E) body))
                         (\<lambda>sb. case sb of
                            SomeBlock b \<Rightarrow> Inr (Some (set_number num b), exdata)
                          | _ \<Rightarrow> Inr (None, exdata))))"

section \<open>One block of a batch\<close>

record sync_state =
  cache :: blocks_cache
  bi_prev :: BlockInfo
  prev_ext_data :: string

abbreviation prev_hash_of :: "sync_state \<Rightarrow> byte list" where
  "prev_hash_of st \<equiv> bh_hash (bi_header (bi_prev st))"

definition is_status :: "ext_data_value \<Rightarrow> string \<Rightarrow> bool" where
  "is_status v e \<longleftrightarrow> first_char e = ext_char v"

definition set_status :: "ext_data_value \<Rightarrow> string \<Rightarrow> string" where
  "set_status v e = e[0 := ext_char v]"

text \<open>The check for broken blocks: the predecessor of a block that awaited its signature.\<close>

definition mark_broken :: "cache_env \<Rightarrow> blocks_cache \<Rightarrow> nat \<Rightarrow> BlockInfo \<Rightarrow> exc option \<times> blocks_cache" where
  "mark_broken E c prev_num prev =
     (case get_block E c ((prev_num + 2 ^ 64 - 1) mod 2 ^ 64) (ext_data_of blk_not_checked) of
        Inl e \<Rightarrow> (Some e, c)
      | Inr (None, _) \<Rightarrow> (None, c)
      | Inr (Some b1, ex1) \<Rightarrow>
          if is_status blk_signed ex1 \<or> bh_prevHash (bi_header prev) \<noteq> bh_hash (bi_header b1) then (None, c)
          else (case get_block E c ((prev_num + 2 ^ 64 - 2) mod 2 ^ 64) (ext_data_of blk_not_checked) of
                  Inl e \<Rightarrow> (Some e, c)
                | Inr (None, _) \<Rightarrow> (None, c)
                | Inr (Some b2, _) \<Rightarrow>
                    if bh_prevHash (bi_header b1) \<noteq> bh_hash (bi_header b2) then (None, c)
                    else if core_addr_verification (lib E) (cores E) b1
                              (string_utils_bin2hex (bh_hash (bi_header b2))) \<le> 0 then (None, c)
                    else case bh_blockNumber (bi_header b1) of
                           None \<Rightarrow> (Some (StdExc ''bad_optional_access''), c)
                         | Some n1 \<Rightarrow>
                             let c = snd (save_extra_data (write_ok E) (to_string n1) (set_status blk_signed ex1) c)
                             in (None, snd (update_last_signed (write_ok E) n1 c))))"

text \<open>The previous block becomes signed.\<close>

definition mark_previous :: "cache_env \<Rightarrow> blocks_cache \<Rightarrow> BlockInfo \<Rightarrow> string \<Rightarrow> exc option \<times> blocks_cache" where
  "mark_previous E c prev prev_ext =
     (case bh_blockNumber (bi_header prev) of
        None \<Rightarrow> (None, c)
      | Some n \<Rightarrow>
          if n = 0 then (None, c)
          else case (if is_status blk_awaiting_signature prev_ext then mark_broken E c n prev else (None, c)) of
                 (Some e, c) \<Rightarrow> (Some e, c)
               | (None, c) \<Rightarrow>
                   let c = snd (save_extra_data (write_ok E) (to_string n) (set_status blk_signed prev_ext) c)
                   in (None, snd (update_last_signed (write_ok E) n c)))"

text \<open>The \<^verbatim>\<open>for (;;)\<close> behind a positive verification, which runs once: the status data of the current
  block, the exception if any, and the cache.\<close>

definition mark_signed :: "cache_env \<Rightarrow> blocks_cache \<Rightarrow> BlockInfo \<Rightarrow> string \<Rightarrow> nat \<Rightarrow> int \<Rightarrow>
    string \<times> exc option \<times> blocks_cache" where
  "mark_signed E c prev prev_ext number verify =
     (if verify = int_max
      then let ext = set_status blk_signed (ext_data_of blk_not_checked);
               c = snd (save_extra_data (write_ok E) (to_string number) ext c);
               c = snd (update_last_signed (write_ok E) number c)
           in if \<not> is_status blk_not_signed prev_ext \<and> \<not> is_status blk_not_checked prev_ext
              then (ext, None, c) else (ext, mark_previous E c prev prev_ext)
      else (ext_data_of blk_not_checked, mark_previous E c prev prev_ext))"

definition mark_status :: "cache_env \<Rightarrow> blocks_cache \<Rightarrow> BlockInfo \<Rightarrow> string \<Rightarrow> nat \<Rightarrow> int \<Rightarrow>
    string \<times> exc option \<times> blocks_cache" where
  "mark_status E c prev prev_ext number verify =
     (if verify > 0 then mark_signed E c prev prev_ext number verify
      else if verify = 0 then
        (let ext = set_status blk_awaiting_signature (ext_data_of blk_not_checked)
         in (ext, None, snd (save_extra_data (write_ok E) (to_string number) ext c)))
      else (ext_data_of blk_not_checked, None, c))"

text \<open>The next block to load, in memory and in the database.\<close>

definition advance :: "cache_env \<Rightarrow> nat \<Rightarrow> blocks_cache \<Rightarrow> blocks_cache" where
  "advance E n c = snd (update_number (write_ok E) (n + 1) (c\<lparr>m_nextblock := n + 1\<rparr>))"

text \<open>The branch with verification, from the point where the previous block is known.\<close>

definition process_checked :: "cache_env \<Rightarrow> sync_state \<Rightarrow> blk_info \<Rightarrow> string \<Rightarrow> sync_state flow" where
  "process_checked E st entry dump =
     (case parse_block (lib E) dump of
        Inl e \<Rightarrow> Throw e st
      | Inr b \<Rightarrow>
          let number = blk_number entry; bi = set_number number b; h = bh_hash (bi_header bi);
              verify = core_addr_verification (lib E) (cores E) bi (string_utils_bin2hex (prev_hash_of st))
          in if h \<noteq> blk_hash entry then Break st
             else if bh_prevHash (bi_header bi) \<noteq> prev_hash_of st then Break st
             else if verify = -1 then Break st
             else case save_block (write_ok E) number (string_utils_bin2hex h) dump
                         (ext_data_of blk_not_checked) (cache st) of
                    (False, c) \<Rightarrow> Break (st\<lparr>cache := c\<rparr>)
                  | (True, c) \<Rightarrow>
                      (case mark_status E (advance E number c) (bi_prev st) (prev_ext_data st) number verify of
                         (ext, Some e, c) \<Rightarrow> Throw e (st\<lparr>cache := c\<rparr>)
                       | (ext, None, c) \<Rightarrow> Next \<lparr>cache = c, bi_prev = bi, prev_ext_data = ext\<rparr>))"

definition process_verified :: "cache_env \<Rightarrow> sync_state \<Rightarrow> blk_info \<Rightarrow> string \<Rightarrow> sync_state flow" where
  "process_verified E st entry dump =
     (if prev_hash_of st = []
      then case get_block E (cache st) (blk_number entry - 1) (prev_ext_data st) of
             Inl e \<Rightarrow> Throw e st
           | Inr (None, ex) \<Rightarrow> Break (st\<lparr>prev_ext_data := ex\<rparr>)
           | Inr (Some b, ex) \<Rightarrow> process_checked E (st\<lparr>bi_prev := b, prev_ext_data := ex\<rparr>) entry dump
      else process_checked E st entry dump)"

definition process_plain :: "cache_env \<Rightarrow> sync_state \<Rightarrow> blk_info \<Rightarrow> string \<Rightarrow> sync_state flow" where
  "process_plain E st entry dump =
     (let number = blk_number entry;
          ext = ext_data_of (if number = 1 then blk_signed else blk_not_checked)
      in case save_block (write_ok E) number (string_utils_bin2hex (blk_hash entry)) dump ext (cache st) of
           (True, c) \<Rightarrow> Next (st\<lparr>cache := advance E number c\<rparr>)
         | (False, c) \<Rightarrow> Break (st\<lparr>cache := c\<rparr>))"

definition process_block :: "cache_env \<Rightarrow> sync_state \<Rightarrow> blk_info \<Rightarrow> string \<Rightarrow> sync_state flow" where
  "process_block E st entry dump =
     (if block_verification E \<and> blk_number entry > 1
      then process_verified E st entry dump else process_plain E st entry dump)"

section \<open>A batch\<close>

text \<open>The 64-bit big-endian size in front of every dump (\<^verbatim>\<open>memcpy\<close> and \<^verbatim>\<open>__builtin_bswap64\<close>).\<close>

definition be64 :: "string \<Rightarrow> nat" where
  "be64 s = foldl (\<lambda>a c. a * 256 + of_char c) 0 (take 8 s)"

text \<open>The loop over the answer: the entries done, an exception, the state.\<close>

fun process_batch :: "cache_env \<Rightarrow> blk_info list \<Rightarrow> blk_info list \<Rightarrow> string \<Rightarrow> sync_state \<Rightarrow>
    blk_info list \<times> exc option \<times> sync_state" where
  "process_batch E finished [] buf st = (finished, None, st)"
| "process_batch E finished (h # hs) buf st =
     (if buf = [] then (finished, None, st)
      else if length buf < 8 then (finished, Some OtherExc, st)
      else let blk_size = be64 buf; p = drop 8 buf
           in if blk_size = 0 then (finished, None, st)
              else if length p < blk_size then (finished, Some OtherExc, st)
              else case process_block E st h (take blk_size p) of
                     Next st \<Rightarrow> process_batch E (finished @ [h]) hs (drop blk_size p) st
                   | Break st \<Rightarrow> (finished, None, st)
                   | Throw e st \<Rightarrow> (finished, Some e, st))"

section \<open>What marking changes\<close>

lemma set_number_simps [simp]:
  "bh_hash (bi_header (set_number n b)) = bh_hash (bi_header b)"
  "bh_prevHash (bi_header (set_number n b)) = bh_prevHash (bi_header b)"
  "bh_blockNumber (bi_header (set_number n b)) = Some n"
  "bi_txs (set_number n b) = bi_txs b"
  by (simp_all add: set_number_def)

lemma ext_char_inject [simp]: "ext_char v = ext_char w \<longleftrightarrow> v = w"
  by (cases v; cases w) (simp_all add: ext_char_def)

lemma is_status_ext_data [simp]: "is_status v (ext_data_of w) \<longleftrightarrow> v = w"
  by (auto simp: is_status_def ext_data_of_def first_char_def)

lemma is_status_set [simp]: "e \<noteq> [] \<Longrightarrow> is_status v (set_status w e) \<longleftrightarrow> v = w"
  by (cases e) (auto simp: is_status_def set_status_def first_char_def)

text \<open>The status of a block.\<close>

definition signed_in :: "blocks_cache \<Rightarrow> nat \<Rightarrow> bool" where
  "signed_in c k \<longleftrightarrow> (\<exists>s. cache_get c (data_key (to_string k)) = Some s \<and> is_status blk_signed s)"

definition newly :: "blocks_cache \<Rightarrow> blocks_cache \<Rightarrow> nat \<Rightarrow> bool" where
  "newly c c' k \<longleftrightarrow> signed_in c' k \<and> \<not> signed_in c k"

lemma newly_refl [simp]: "\<not> newly c c k"
  by (simp add: newly_def)

lemma newly_trans: "newly c c'' k \<Longrightarrow> newly c c' k \<or> newly c' c'' k"
  by (auto simp: newly_def)

lemma data_key_inject [simp]: "data_key (to_string m) = data_key (to_string n) \<longleftrightarrow> m = n"
  by (simp add: data_key_def)

lemma signed_in_save_data:
  "signed_in (snd (save_extra_data wr (to_string n) e c)) k \<longleftrightarrow>
     (if k = n \<and> wr (data_key (to_string n)) e then is_status blk_signed e else signed_in c k)"
  by (auto simp: signed_in_def save_extra_data_def cache_put_get)

lemma signed_in_last_signed [simp]: "signed_in (snd (update_last_signed wr n c)) k \<longleftrightarrow> signed_in c k"
  by (simp add: signed_in_def update_last_signed_get data_key_def)

lemma signed_in_number [simp]:
  "signed_in (snd (update_number wr n c)) k \<longleftrightarrow> signed_in c k" "signed_in (c\<lparr>m_nextblock := n\<rparr>) k \<longleftrightarrow> signed_in c k"
  by (simp_all add: signed_in_def update_number_def cache_put_get data_key_def) (simp add: cache_get_def)

text \<open>Marking touches status data and the counter of signed blocks only.\<close>

definition marks_only :: "blocks_cache \<Rightarrow> blocks_cache \<Rightarrow> bool" where
  "marks_only c c' \<longleftrightarrow> m_nextblock c' = m_nextblock c \<and> m_last_signed_block c \<le> m_last_signed_block c' \<and>
     (\<forall>k. k \<noteq> ''last_signed_block'' \<longrightarrow> (\<forall>n. k \<noteq> data_key (to_string n)) \<longrightarrow> cache_get c' k = cache_get c k) \<and>
     (\<forall>n. cache_get c (data_key (to_string n)) \<noteq> None \<longrightarrow> cache_get c' (data_key (to_string n)) \<noteq> None)"

lemma marks_only_refl [simp]: "marks_only c c"
  by (simp add: marks_only_def)

lemma marks_only_trans [trans]: "marks_only c c' \<Longrightarrow> marks_only c' c'' \<Longrightarrow> marks_only c c''"
  by (fastforce simp: marks_only_def)

lemma marks_only_data: "marks_only c (snd (save_extra_data wr (to_string n) e c))"
  by (auto simp: marks_only_def save_extra_data_def cache_put_get cache_put_simps)

lemma update_last_signed_nextblock [simp]: "m_nextblock (snd (update_last_signed wr n c)) = m_nextblock c"
  using cache_put_simps(1) [of wr "''last_signed_block''" "to_string n" c]
  by (auto simp: update_last_signed_def split: prod.splits)

lemma marks_only_last_signed: "marks_only c (snd (update_last_signed wr n c))"
  by (auto simp: marks_only_def update_last_signed_get update_last_signed_counter data_key_def)

lemma marks_only_mark:
  "marks_only c (snd (update_last_signed wr m (snd (save_extra_data wr (to_string n) e c))))"
  by (rule marks_only_trans [OF marks_only_data marks_only_last_signed])

lemma marks_only_broken: "mark_broken E c n prev = (ex, c') \<Longrightarrow> marks_only c c'"
  unfolding mark_broken_def
  by (auto simp: Let_def marks_only_mark split: sum.splits option.splits prod.splits if_splits)

lemma marks_only_previous: "mark_previous E c prev pe = (ex, c') \<Longrightarrow> marks_only c c'"
  unfolding mark_previous_def
  by (auto simp: Let_def split: option.splits prod.splits if_splits
      intro: marks_only_mark marks_only_broken marks_only_trans [OF marks_only_broken marks_only_mark])

lemma marks_only_signed: "mark_signed E c prev pe n v = (ext, ex, c') \<Longrightarrow> marks_only c c'"
  unfolding mark_signed_def
  by (auto simp: Let_def split: if_splits
      intro: marks_only_mark marks_only_previous marks_only_trans [OF marks_only_mark marks_only_previous])

text \<open>A block the cores' signatures speak for: a dump parses to it or to its successor, and the signature
  test accepts that block.\<close>

definition signature_evidence :: "cache_env \<Rightarrow> nat \<Rightarrow> bool" where
  "signature_evidence E k \<longleftrightarrow> (\<exists>dump b n (prev :: BlockInfo).
     parseBlockDump (lib E) dump = Inr (SomeBlock b) \<and>
     0 < core_addr_verification (lib E) (cores E) (set_number n b) (string_utils_bin2hex (bh_hash (bi_header prev))) \<and>
     bh_prevHash (bi_header b) = bh_hash (bi_header prev) \<and>
     (n = k \<or> bh_blockNumber (bi_header prev) = Some k))"

lemma parse_block_Inr: "parse_block L d = Inr b \<longleftrightarrow> parseBlockDump L d = Inr (SomeBlock b)"
  by (auto simp: parse_block_def bindE_def split: sum.splits some_block.splits)

lemma get_block_parsed:
  "get_block E c num ex = Inr (Some b, ex') \<Longrightarrow>
   \<exists>dump b0. parseBlockDump (lib E) dump = Inr (SomeBlock b0) \<and> b = set_number num b0"
  unfolding get_block_def
  by (auto simp: Let_def parse_block_def bindE_def split: option.splits sum.splits if_splits some_block.splits)

lemma newly_mark:
  "newly c (snd (update_last_signed wr m (snd (save_extra_data wr (to_string n) e c)))) k \<Longrightarrow> k = n"
  by (auto simp: newly_def signed_in_save_data split: if_splits)

lemma newly_broken:
  assumes "mark_broken E c n prev = (ex, c')" and "newly c c' k"
  shows "signature_evidence E k"
proof -
  from assms obtain b1 ex1 and b2 :: BlockInfo where b: "bh_blockNumber (bi_header b1) = Some k" "bh_prevHash (bi_header b1) = bh_hash (bi_header b2)"
    "0 < core_addr_verification (lib E) (cores E) b1 (string_utils_bin2hex (bh_hash (bi_header b2)))"
    "get_block E c ((n + 2 ^ 64 - 1) mod 2 ^ 64) (ext_data_of blk_not_checked) = Inr (Some b1, ex1)"
    unfolding mark_broken_def
    by (auto simp: Let_def not_le split: sum.splits option.splits prod.splits if_splits dest!: newly_mark)
  obtain dump b0 where d: "parseBlockDump (lib E) dump = Inr (SomeBlock b0)" "b1 = set_number ((n + 2 ^ 64 - 1) mod 2 ^ 64) b0"
    using get_block_parsed [OF b(4)] by blast
  then have "(n + 2 ^ 64 - 1) mod 2 ^ 64 = k" "bh_prevHash (bi_header b0) = bh_hash (bi_header b2)" using b by simp_all
  with b(3) d show ?thesis unfolding signature_evidence_def by blast
qed

lemma newly_previous:
  assumes "mark_previous E c prev pe = (ex, c')" and "newly c c' k"
  shows "bh_blockNumber (bi_header prev) = Some k \<or> signature_evidence E k"
proof (cases "bh_blockNumber (bi_header prev) = None \<or> bh_blockNumber (bi_header prev) = Some 0")
  case False
  then obtain n where Some: "bh_blockNumber (bi_header prev) = Some n" "n \<noteq> 0" by auto
  obtain ex1 c1 where b: "(if is_status blk_awaiting_signature pe then mark_broken E c n prev else (None, c)) = (ex1, c1)"
    by fastforce
  then have "newly c c1 k \<Longrightarrow> signature_evidence E k" by (auto split: if_splits intro: newly_broken)
  moreover have "newly c1 c' k \<Longrightarrow> k = n"
    using assms(1) Some b by (auto simp: mark_previous_def Let_def split: if_splits option.splits dest: newly_mark)
  ultimately show ?thesis using newly_trans [OF assms(2), of c1] Some by blast
qed (use assms in \<open>auto simp: mark_previous_def\<close>)

lemma newly_signed:
  assumes "mark_signed E c prev pe n v = (ext, ex, c')" and "newly c c' k"
  shows "k = n \<and> v = int_max \<or> bh_blockNumber (bi_header prev) = Some k \<or> signature_evidence E k"
proof (cases "v = int_max")
  case True
  let ?e = "set_status blk_signed (ext_data_of blk_not_checked)"
  let ?c1 = "snd (update_last_signed (write_ok E) n (snd (save_extra_data (write_ok E) (to_string n) ?e c)))"
  have "newly ?c1 c' k \<Longrightarrow> bh_blockNumber (bi_header prev) = Some k \<or> signature_evidence E k"
    using assms(1) True by (auto simp: mark_signed_def Let_def split: if_splits dest: newly_previous)
  then show ?thesis using newly_trans [OF assms(2), of ?c1] newly_mark True by blast
qed (use assms in \<open>auto simp: mark_signed_def dest: newly_previous\<close>)

section \<open>One block\<close>

fun flow_state :: "'s flow \<Rightarrow> 's" where
  "flow_state (Next s) = s"
| "flow_state (Break s) = s"
| "flow_state (Throw e s) = s"

text \<open>What the verifying branch accepts behind a block with hash \<open>ph\<close>.\<close>

definition accepted :: "cache_env \<Rightarrow> byte list \<Rightarrow> blk_info \<Rightarrow> string \<Rightarrow> BlockInfo \<Rightarrow> bool" where
  "accepted E ph entry dump b \<longleftrightarrow> parse_block (lib E) dump = Inr b \<and> bh_hash (bi_header b) = blk_hash entry \<and>
     bh_prevHash (bi_header b) = ph \<and>
     core_addr_verification (lib E) (cores E) (set_number (blk_number entry) b) (string_utils_bin2hex ph) \<noteq> -1"

lemma advance_get: "k \<noteq> ''next_block'' \<Longrightarrow> cache_get (advance E n c) k = cache_get c k"
  by (simp add: advance_def update_number_def cache_put_get) (simp add: cache_get_def)

lemma advance_nextblock [simp]: "m_nextblock (advance E n c) = n + 1"
  by (simp add: advance_def update_number_def cache_put_simps)

lemma advance_signed [simp]: "signed_in (advance E n c) k \<longleftrightarrow> signed_in c k"
  by (simp add: advance_def)

text \<open>The cases of the verifying branch: refused before anything is stored, not stored, or stored and
  marked.\<close>

lemma process_checked_cases:
  fixes entry dump st E
  defines "n \<equiv> blk_number entry"
  obtains (refused) "flow_state (process_checked E st entry dump) = st" "\<And>s. process_checked E st entry dump \<noteq> Next s"
  | (not_saved) c where "save_block (write_ok E) n (string_utils_bin2hex (blk_hash entry)) dump (ext_data_of blk_not_checked)
        (cache st) = (False, c)" "process_checked E st entry dump = Break (st\<lparr>cache := c\<rparr>)"
  | (saved) b c ext ex c' where "accepted E (prev_hash_of st) entry dump b"
      "save_block (write_ok E) n (string_utils_bin2hex (blk_hash entry)) dump (ext_data_of blk_not_checked) (cache st) = (True, c)"
      "marks_only (advance E n c) c'"
      "\<And>k. newly (advance E n c) c' k \<Longrightarrow> signature_evidence E k"
      "process_checked E st entry dump = (case ex of Some e \<Rightarrow> Throw e (st\<lparr>cache := c'\<rparr>)
         | None \<Rightarrow> Next \<lparr>cache = c', bi_prev = set_number n b, prev_ext_data = ext\<rparr>)"
proof (cases "parse_block (lib E) dump")
  case (Inl e)
  then show thesis by (intro refused) (simp_all add: process_checked_def)
next
  case (Inr b)
  let ?v = "core_addr_verification (lib E) (cores E) (set_number n b) (string_utils_bin2hex (prev_hash_of st))"
  show thesis
  proof (cases "bh_hash (bi_header b) = blk_hash entry \<and> bh_prevHash (bi_header b) = prev_hash_of st \<and> ?v \<noteq> -1")
    case False
    with Inr show thesis by (intro refused) (auto simp: process_checked_def Let_def n_def)
  next
    case True
    obtain ok c where s: "save_block (write_ok E) n (string_utils_bin2hex (blk_hash entry)) dump
        (ext_data_of blk_not_checked) (cache st) = (ok, c)" by fastforce
    show thesis
    proof (cases ok)
      case False
      with Inr True s show thesis by (intro not_saved) (simp_all add: process_checked_def Let_def n_def)
    next
      case ok: True
      have acc: "accepted E (prev_hash_of st) entry dump b" using Inr True by (simp add: accepted_def n_def)
      obtain ext ex c' where m: "mark_status E (advance E n c) (bi_prev st) (prev_ext_data st) n ?v = (ext, ex, c')"
        by (metis prod_cases3)
      have "marks_only (advance E n c) c'"
        using m by (auto simp: mark_status_def Let_def split: if_splits intro: marks_only_signed marks_only_data)
      moreover have "signature_evidence E k" if "newly (advance E n c) c' k" for k
      proof (cases "?v > 0")
        case pos: True
        then have "0 < core_addr_verification (lib E) (cores E) (set_number n b) (string_utils_bin2hex (prev_hash_of st)) \<and>
            bh_prevHash (bi_header b) = prev_hash_of st \<and> parseBlockDump (lib E) dump = Inr (SomeBlock b)"
          using True Inr by (simp add: parse_block_Inr)
        moreover have "k = n \<or> bh_blockNumber (bi_header (bi_prev st)) = Some k \<or> signature_evidence E k"
          using m pos that by (auto simp: mark_status_def dest: newly_signed)
        ultimately show ?thesis unfolding signature_evidence_def by blast
      next
        case False
        with m that show ?thesis
          by (auto simp: mark_status_def Let_def newly_def signed_in_save_data ext_data_of_def split: if_splits)
      qed
      moreover have "process_checked E st entry dump = (case ex of Some e \<Rightarrow> Throw e (st\<lparr>cache := c'\<rparr>)
         | None \<Rightarrow> Next \<lparr>cache = c', bi_prev = set_number n b, prev_ext_data = ext\<rparr>)"
        using Inr True s ok m by (simp add: process_checked_def Let_def n_def [symmetric] split: option.split)
      moreover have "save_block (write_ok E) n (string_utils_bin2hex (blk_hash entry)) dump
        (ext_data_of blk_not_checked) (cache st) = (True, c)" using s ok by simp
      ultimately show thesis using acc saved by metis
    qed
  qed
qed

section \<open>Saving keeps the status honest\<close>

lemma hash_key_bin2hex:
  assumes "10 < length h"
  shows "hash_key (string_utils_bin2hex h)"
proof -
  have "hex_char d \<noteq> CHR ''@'' \<and> hex_char d \<noteq> CHR ''_''" if "d < 16" for d
    using that by (rule less_16_cases) (simp_all add: hex_eval)
  then have "CHR ''@'' \<notin> set (toHex_iter h) \<and> CHR ''_'' \<notin> set (toHex_iter h)"
    using hex_text_toHex_iter [of h] by metis
  with assms show ?thesis by (simp add: hash_key_def string_utils_bin2hex_eq)
qed

definition entry_ok :: "blk_info \<Rightarrow> bool" where
  "entry_ok h \<longleftrightarrow> 10 < length (blk_hash h) \<and> blk_number h < 2 ^ 63"

lemma save_block_newly:
  assumes "save_block wr n h d e c = (ok, c')" and "hash_key h" "n < 2 ^ 64" and "newly c c' k"
  shows "k = n \<and> is_status blk_signed e"
proof (cases "k = n")
  case True
  have "h \<noteq> []" using assms(2) hash_key_apart(1) by blast
  then have p: "put_all (cache_put wr) [(to_string n, d), (h, to_string n), (data_key (to_string n), e)] c = (ok, c')"
    using assms(1) by (simp only: save_block_put_all if_False)
  have "cache_get c' (data_key (to_string n)) = cache_get c (data_key (to_string n)) \<or>
      cache_get c' (data_key (to_string n)) = Some e"
    using block_keys_distinct [OF assms(2,3)] by (intro cache_kv.put_all_value [OF p]) auto
  with True assms(4) show ?thesis by (auto simp: newly_def signed_in_def)
next
  case False
  then have "cache_get c' (data_key (to_string k)) = cache_get c (data_key (to_string k))"
    using assms(2) by (intro save_block_frame [OF assms(1)]) (auto simp: key_defs dest: hash_key_apart)
  with assms(4) show ?thesis by (auto simp: newly_def signed_in_def)
qed

lemma process_checked_newly:
  assumes "entry_ok entry" and "newly (cache st) (cache (flow_state (process_checked E st entry dump))) k"
  shows "signature_evidence E k"
proof (cases rule: process_checked_cases [of E st entry dump])
  case refused
  with assms(2) show ?thesis by simp
next
  case (not_saved c)
  then show ?thesis
    using assms save_block_newly [OF not_saved(1), of k] hash_key_bin2hex [of "blk_hash entry"]
    by (auto simp: entry_ok_def)
next
  case (saved b c ext ex c')
  have "\<not> newly (cache st) c k"
    using assms(1) save_block_newly [OF saved(2), of k] hash_key_bin2hex [of "blk_hash entry"]
    by (auto simp: entry_ok_def)
  moreover have "newly (cache st) c' k" using assms(2) saved(5) by (cases ex) auto
  ultimately have "newly (advance E (blk_number entry) c) c' k" by (auto simp: newly_def)
  then show ?thesis by (rule saved(4))
qed

lemma process_plain_newly:
  assumes "entry_ok entry" and "newly (cache st) (cache (flow_state (process_plain E st entry dump))) k"
  shows "k = 1 \<and> blk_number entry = 1"
proof -
  obtain ok c where s: "save_block (write_ok E) (blk_number entry) (string_utils_bin2hex (blk_hash entry)) dump
      (ext_data_of (if blk_number entry = 1 then blk_signed else blk_not_checked)) (cache st) = (ok, c)" by fastforce
  then have "newly (cache st) c k" using assms(2) by (cases ok) (auto simp: process_plain_def Let_def newly_def)
  then show ?thesis
    using assms(1) save_block_newly [OF s, of k] hash_key_bin2hex [of "blk_hash entry"]
    by (auto simp: entry_ok_def split: if_splits)
qed

lemma process_verified_cases:
  "(flow_state (process_verified E st entry dump) = st \<or>
    (\<exists>ex. process_verified E st entry dump = Break (st\<lparr>prev_ext_data := ex\<rparr>)) \<or>
    (\<exists>b ex. process_verified E st entry dump = process_checked E (st\<lparr>bi_prev := b, prev_ext_data := ex\<rparr>) entry dump) \<or>
    process_verified E st entry dump = process_checked E st entry dump)"
  by (auto simp: process_verified_def split: sum.splits option.splits)

lemma process_block_newly:
  assumes "entry_ok entry" and "newly (cache st) (cache (flow_state (process_block E st entry dump))) k"
  shows "k = 1 \<or> signature_evidence E k"
proof (cases "block_verification E \<and> blk_number entry > 1")
  case True
  then have b: "process_block E st entry dump = process_verified E st entry dump" by (simp add: process_block_def)
  from process_verified_cases [of E st entry dump] show ?thesis
  proof (elim disjE exE)
    fix pb ex
    assume "process_verified E st entry dump = process_checked E (st\<lparr>bi_prev := pb, prev_ext_data := ex\<rparr>) entry dump"
    then show ?thesis
      using assms process_checked_newly [of entry "st\<lparr>bi_prev := pb, prev_ext_data := ex\<rparr>" E dump k]
      unfolding b by simp
  qed (use assms in \<open>auto simp: b dest: process_checked_newly [OF assms(1)]\<close>)
next
  case False
  then have "process_block E st entry dump = process_plain E st entry dump" by (simp only: process_block_def if_False)
  with assms show ?thesis using process_plain_newly by auto
qed

lemma process_batch_newly:
  "process_batch E fin hs buf st = (fin', ex, st') \<Longrightarrow> \<forall>h\<in>set hs. entry_ok h \<Longrightarrow>
   newly (cache st) (cache st') k \<Longrightarrow> k = 1 \<or> signature_evidence E k"
proof (induction E fin hs buf st rule: process_batch.induct)
  case (2 E fin h hs buf st)
  let ?r = "process_block E st h (take (be64 buf) (drop 8 buf))"
  consider "st' = st" | "st' = flow_state ?r"
    | st1 where "?r = Next st1" "process_batch E (fin @ [h]) hs (drop (be64 buf) (drop 8 buf)) st1 = (fin', ex, st')"
        "buf \<noteq> []" "\<not> length buf < 8" "be64 buf \<noteq> 0" "\<not> length (drop 8 buf) < be64 buf"
    using "2.prems"(1) by (auto simp: Let_def split: if_splits flow.splits)
  then show ?case
  proof cases
    case 3
    have "newly (cache st1) (cache st') k \<Longrightarrow> k = 1 \<or> signature_evidence E k"
      using "2.IH" [OF 3(3,4) refl refl 3(5,6) 3(1) 3(2)] "2.prems"(2) by simp
    moreover have "newly (cache st) (cache st1) k \<Longrightarrow> k = 1 \<or> signature_evidence E k"
      using process_block_newly [of h st E "take (be64 buf) (drop 8 buf)" k] "2.prems"(2) 3(1) by simp
    ultimately show ?thesis using newly_trans [OF "2.prems"(3)] by blast
  qed (use "2.prems" process_block_newly [of h st E] in auto)
qed simp

section \<open>A batch stores a chain\<close>

lemma entry_keys:
  assumes "entry_ok h"
  shows "hash_key (string_utils_bin2hex (blk_hash h))" "blk_number h < 2 ^ 64"
    "m < 2 ^ 64 \<Longrightarrow> string_utils_bin2hex (blk_hash h) \<noteq> to_string m"
    "string_utils_bin2hex (blk_hash h) \<noteq> data_key (to_string m)"
proof -
  show k: "hash_key (string_utils_bin2hex (blk_hash h))" using assms by (simp add: entry_ok_def hash_key_bin2hex)
  show "blk_number h < 2 ^ 64" using assms by (simp add: entry_ok_def)
  show "m < 2 ^ 64 \<Longrightarrow> string_utils_bin2hex (blk_hash h) \<noteq> to_string m"
    "string_utils_bin2hex (blk_hash h) \<noteq> data_key (to_string m)"
    using hash_key_apart [OF k] by (auto simp: data_key_def)
qed

lemma marks_only_number: "marks_only c c' \<Longrightarrow> cache_get c' (to_string m) = cache_get c (to_string m)"
  by (auto simp: marks_only_def data_key_def)

lemma advance_number: "cache_get (advance E n c) (to_string m) = cache_get c (to_string m)"
  by (simp add: advance_get)

lemma process_checked_number:
  assumes "entry_ok entry" "m \<noteq> blk_number entry" "m < 2 ^ 64"
  shows "cache_get (cache (flow_state (process_checked E st entry dump))) (to_string m) = cache_get (cache st) (to_string m)"
proof -
  have *: "save_block wr (blk_number entry) (string_utils_bin2hex (blk_hash entry)) dump e (cache st) = (ok, c) \<Longrightarrow>
      cache_get c (to_string m) = cache_get (cache st) (to_string m)" for wr e ok c
    using assms entry_keys(3) [OF assms(1,3)] by (elim save_block_frame) (auto simp: data_key_def)
  show ?thesis
  proof (cases rule: process_checked_cases [of E st entry dump])
    case (saved b c ext ex c')
    then show ?thesis
      using * [OF saved(2)] marks_only_number [OF saved(3), of m] by (cases ex) (simp_all add: advance_number)
  qed (use * in auto)
qed

lemma process_plain_number:
  assumes "entry_ok entry" "m \<noteq> blk_number entry" "m < 2 ^ 64"
  shows "cache_get (cache (flow_state (process_plain E st entry dump))) (to_string m) = cache_get (cache st) (to_string m)"
proof -
  obtain ok c where s: "save_block (write_ok E) (blk_number entry) (string_utils_bin2hex (blk_hash entry)) dump
      (ext_data_of (if blk_number entry = 1 then blk_signed else blk_not_checked)) (cache st) = (ok, c)" by fastforce
  have "cache_get c (to_string m) = cache_get (cache st) (to_string m)"
    using assms entry_keys(3) [OF assms(1,3)] by (intro save_block_frame [OF s]) (auto simp: data_key_def)
  with s show ?thesis by (cases ok) (simp_all add: process_plain_def Let_def advance_number)
qed

lemma process_block_number:
  assumes "entry_ok entry" "m \<noteq> blk_number entry" "m < 2 ^ 64"
  shows "cache_get (cache (flow_state (process_block E st entry dump))) (to_string m) = cache_get (cache st) (to_string m)"
proof (cases "block_verification E \<and> blk_number entry > 1")
  case True
  then have "process_block E st entry dump = process_verified E st entry dump" by (simp add: process_block_def)
  with process_verified_cases [of E st entry dump] show ?thesis
    using process_checked_number [OF assms] by (elim disjE exE) simp_all
next
  case False
  then have "process_block E st entry dump = process_plain E st entry dump" by (simp only: process_block_def if_False)
  then show ?thesis using process_plain_number [OF assms] by simp
qed

lemma process_checked_Next:
  assumes "process_checked E st entry dump = Next st'" and "entry_ok entry"
  shows "\<exists>b. accepted E (prev_hash_of st) entry dump b \<and> bi_prev st' = set_number (blk_number entry) b \<and>
    m_nextblock (cache st') = blk_number entry + 1 \<and> cache_get (cache st') (to_string (blk_number entry)) = Some dump"
proof (cases rule: process_checked_cases [of E st entry dump])
  case (saved b c ext ex c')
  have "cache_get c (to_string (blk_number entry)) = Some dump"
    using save_block_ok(1) [OF saved(2) entry_keys(1,2)] assms(2) by simp
  moreover have "m_nextblock c' = blk_number entry + 1" using saved(3) by (simp add: marks_only_def)
  ultimately show ?thesis
    using saved assms(1) marks_only_number [OF saved(3)] by (cases ex) (auto simp: advance_number)
qed (use assms in auto)

lemma process_block_Next:
  assumes "process_block E st entry dump = Next st'" and "entry_ok entry"
    and "block_verification E" "blk_number entry > 1"
  shows "\<exists>ph b. accepted E ph entry dump b \<and> (prev_hash_of st \<noteq> [] \<longrightarrow> ph = prev_hash_of st) \<and>
    prev_hash_of st' = blk_hash entry \<and> m_nextblock (cache st') = blk_number entry + 1 \<and>
    cache_get (cache st') (to_string (blk_number entry)) = Some dump"
proof -
  have v: "process_verified E st entry dump = Next st'" using assms by (simp add: process_block_def)
  obtain st1 where c: "process_checked E st1 entry dump = Next st'" and p: "prev_hash_of st \<noteq> [] \<longrightarrow> st1 = st"
    using v by (auto simp: process_verified_def split: if_splits sum.splits option.splits)
  show ?thesis using process_checked_Next [OF c assms(2)] p by (auto simp: accepted_def)
qed

text \<open>The stored dumps of a list of entries, each accepted behind the previous one.\<close>

fun chain :: "cache_env \<Rightarrow> byte list \<Rightarrow> blk_info list \<Rightarrow> string list \<Rightarrow> bool" where
  "chain E ph [] ds = (ds = [])"
| "chain E ph (h # hs) ds =
     (case ds of [] \<Rightarrow> False | d # ds' \<Rightarrow> (\<exists>b. accepted E ph h d b) \<and> chain E (blk_hash h) hs ds')"

lemma process_batch_number:
  "process_batch E fin hs buf st = (fin', ex, st') \<Longrightarrow> \<forall>h\<in>set hs. entry_ok h \<and> blk_number h \<noteq> m \<Longrightarrow> m < 2 ^ 64 \<Longrightarrow>
   cache_get (cache st') (to_string m) = cache_get (cache st) (to_string m)"
proof (induction E fin hs buf st rule: process_batch.induct)
  case (2 E fin h hs buf st)
  let ?r = "process_block E st h (take (be64 buf) (drop 8 buf))"
  have f: "cache_get (cache (flow_state ?r)) (to_string m) = cache_get (cache st) (to_string m)"
    using "2.prems" by (intro process_block_number) auto
  consider "st' = st" | "st' = flow_state ?r"
    | st1 where "?r = Next st1" "process_batch E (fin @ [h]) hs (drop (be64 buf) (drop 8 buf)) st1 = (fin', ex, st')"
        "buf \<noteq> []" "\<not> length buf < 8" "be64 buf \<noteq> 0" "\<not> length (drop 8 buf) < be64 buf"
    using "2.prems"(1) by (auto simp: Let_def split: if_splits flow.splits)
  then show ?case
  proof cases
    case 3
    then show ?thesis using "2.IH" [OF 3(3,4) refl refl 3(5,6) 3(1) 3(2)] "2.prems" f by simp
  qed (use f in auto)
qed simp

lemma process_batch_chain:
  assumes "process_batch E fin hs buf st = (fin', ex, st')"
    and "block_verification E" and "\<forall>h\<in>set hs. entry_ok h \<and> 1 < blk_number h" and "distinct (map blk_number hs)"
  shows "\<exists>finished ph ds. fin' = fin @ finished \<and> (\<exists>rest. hs = finished @ rest) \<and> chain E ph finished ds \<and>
    (prev_hash_of st \<noteq> [] \<longrightarrow> ph = prev_hash_of st) \<and>
    (\<forall>i < length finished. cache_get (cache st') (to_string (blk_number (finished ! i))) = Some (ds ! i))"
  using assms
proof (induction E fin hs buf st rule: process_batch.induct)
  case (2 E fin h hs buf st)
  let ?d = "take (be64 buf) (drop 8 buf)"
  let ?r = "process_block E st h ?d"
  consider "fin' = fin"
    | st1 where "?r = Next st1" "process_batch E (fin @ [h]) hs (drop (be64 buf) (drop 8 buf)) st1 = (fin', ex, st')"
        "buf \<noteq> []" "\<not> length buf < 8" "be64 buf \<noteq> 0" "\<not> length (drop 8 buf) < be64 buf"
    using "2.prems"(1) by (auto simp: Let_def split: if_splits flow.splits)
  then show ?case
  proof cases
    case 1
    then have "fin' = fin @ [] \<and> (\<exists>rest. h # hs = [] @ rest) \<and> chain E (prev_hash_of st) [] []" by simp
    then show ?thesis by (metis list.size(3) not_less_zero)
  next
    case 2
    have ok: "entry_ok h" "1 < blk_number h" and hs: "\<forall>h\<in>set hs. entry_ok h \<and> 1 < blk_number h"
      and d: "distinct (map blk_number hs)" "blk_number h \<notin> blk_number ` set hs"
      using "2.prems" by auto
    obtain ph b where b: "accepted E ph h ?d b" "prev_hash_of st \<noteq> [] \<longrightarrow> ph = prev_hash_of st"
      "prev_hash_of st1 = blk_hash h" "cache_get (cache st1) (to_string (blk_number h)) = Some ?d"
      using process_block_Next [OF 2(1) ok(1) "2.prems"(2) ok(2)] by blast
    have "blk_hash h \<noteq> []" using ok(1) by (auto simp: entry_ok_def)
    with "2.IH" [OF 2(3,4) refl refl 2(5,6) 2(1) 2(2) "2.prems"(2) hs d(1)] b(3)
    obtain finished ds where f: "fin' = (fin @ [h]) @ finished" "\<exists>rest. hs = finished @ rest" "chain E (blk_hash h) finished ds"
      "\<forall>i < length finished. cache_get (cache st') (to_string (blk_number (finished ! i))) = Some (ds ! i)"
      by auto
    have "cache_get (cache st') (to_string (blk_number h)) = Some ?d"
    proof -
      have "\<forall>ha\<in>set hs. entry_ok ha \<and> blk_number ha \<noteq> blk_number h" using hs d(2) by (metis image_eqI)
      then show ?thesis
        using process_batch_number [OF 2(2) _ entry_keys(2) [OF ok(1)]] b(4) by simp
    qed
    with f b have "fin' = fin @ (h # finished) \<and> (\<exists>rest. h # hs = (h # finished) @ rest) \<and> chain E ph (h # finished) (?d # ds) \<and>
        (prev_hash_of st \<noteq> [] \<longrightarrow> ph = prev_hash_of st) \<and> (\<forall>i < length (h # finished).
           cache_get (cache st') (to_string (blk_number ((h # finished) ! i))) = Some ((?d # ds) ! i))"
      by (auto simp: nth_Cons split: nat.splits)
    then show ?thesis by blast
  qed
qed fastforce

section \<open>Verified lookups\<close>

text \<open>A stored block has status data; with writes that succeed every step keeps this.\<close>

definition has_status :: "blocks_cache \<Rightarrow> bool" where
  "has_status c \<longleftrightarrow> (\<forall>k < 2 ^ 64. cache_get c (to_string k) \<noteq> None \<longrightarrow> cache_get c (data_key (to_string k)) \<noteq> None)"

lemma marks_only_status:
  "marks_only c c' \<Longrightarrow> cache_get c (data_key (to_string n)) \<noteq> None \<Longrightarrow> cache_get c' (data_key (to_string n)) \<noteq> None"
  by (simp add: marks_only_def)

lemma has_status_marks: "has_status c \<Longrightarrow> marks_only c c' \<Longrightarrow> has_status c'"
  using marks_only_status marks_only_number unfolding has_status_def by metis

lemma has_status_advance [simp]: "has_status (advance E n c) \<longleftrightarrow> has_status c"
  by (simp add: has_status_def advance_get data_key_def)

lemma has_status_save:
  assumes "save_block wr (blk_number h) (string_utils_bin2hex (blk_hash h)) d e c = (True, c')"
    and "entry_ok h" "has_status c"
  shows "has_status c'"
  unfolding has_status_def
proof (intro allI impI)
  fix k :: nat assume k: "k < 2 ^ 64" "cache_get c' (to_string k) \<noteq> None"
  show "cache_get c' (data_key (to_string k)) \<noteq> None"
  proof (cases "k = blk_number h")
    case True
    then show ?thesis using save_block_ok(3) [OF assms(1) entry_keys(1,2)] assms(2) by simp
  next
    case False
    have "cache_get c' (to_string k) = cache_get c (to_string k)"
      using False entry_keys(3) [OF assms(2) k(1)]
      by (intro save_block_frame [OF assms(1)]) (auto simp: data_key_def)
    moreover have "cache_get c' (data_key (to_string k)) = cache_get c (data_key (to_string k))"
      using False entry_keys(4) [OF assms(2), of k] not_sym
      by (intro save_block_frame [OF assms(1)]) (simp_all add: data_key_def)
    ultimately show ?thesis using k assms(3) by (simp add: has_status_def)
  qed
qed

lemma save_block_all_ok:
  "write_ok E = (\<lambda>_ _. True) \<Longrightarrow> h \<noteq> [] \<Longrightarrow> \<exists>c'. save_block (write_ok E) n h d e c = (True, c')"
  by (simp add: save_block_def save_extra_data_def cache_put_def db_put_def Let_def)

lemma bin2hex_nonempty: "entry_ok h \<Longrightarrow> string_utils_bin2hex (blk_hash h) \<noteq> []"
  using entry_keys(1) hash_key_apart(1) by blast

lemma process_block_has_status:
  assumes "write_ok E = (\<lambda>_ _. True)" "entry_ok entry" "has_status (cache st)"
  shows "has_status (cache (flow_state (process_block E st entry dump)))"
proof -
  have saved: "\<exists>c'. save_block (write_ok E) (blk_number entry) (string_utils_bin2hex (blk_hash entry)) dump e c = (True, c')" for e c
    using assms(1) bin2hex_nonempty [OF assms(2)] by (rule save_block_all_ok)
  have checked: "has_status (cache (flow_state (process_checked E s entry dump)))" if "has_status (cache s)" for s
  proof (cases rule: process_checked_cases [of E s entry dump])
    case (not_saved c)
    then show ?thesis using saved [of "ext_data_of blk_not_checked" "cache s"] by simp
  next
    case s: (saved b c ext ex c')
    have "has_status c" using has_status_save [OF s(2) assms(2) that] .
    then have "has_status c'" using has_status_marks [OF _ s(3)] by simp
    then show ?thesis using s(5) by (cases ex) simp_all
  qed (use that in simp)
  show ?thesis
  proof (cases "block_verification E \<and> blk_number entry > 1")
    case True
    then have "process_block E st entry dump = process_verified E st entry dump" by (simp add: process_block_def)
    with process_verified_cases [of E st entry dump] show ?thesis
      using assms(3) checked by (elim disjE exE) simp_all
  next
    case False
    then have p: "process_block E st entry dump = process_plain E st entry dump" by (simp only: process_block_def if_False)
    obtain c where s: "save_block (write_ok E) (blk_number entry) (string_utils_bin2hex (blk_hash entry)) dump
        (ext_data_of (if blk_number entry = 1 then blk_signed else blk_not_checked)) (cache st) = (True, c)"
      using saved by blast
    then have "has_status c" using has_status_save [OF s assms(2,3)] by simp
    with s show ?thesis unfolding p by (simp add: process_plain_def Let_def)
  qed
qed

lemma process_batch_has_status:
  "process_batch E fin hs buf st = (fin', ex, st') \<Longrightarrow> \<forall>h\<in>set hs. entry_ok h \<Longrightarrow> write_ok E = (\<lambda>_ _. True) \<Longrightarrow>
   has_status (cache st) \<Longrightarrow> has_status (cache st')"
proof (induction E fin hs buf st rule: process_batch.induct)
  case (2 E fin h hs buf st)
  let ?r = "process_block E st h (take (be64 buf) (drop 8 buf))"
  have f: "has_status (cache (flow_state ?r))"
    using "2.prems" by (intro process_block_has_status) auto
  consider "st' = st" | "st' = flow_state ?r"
    | st1 where "?r = Next st1" "process_batch E (fin @ [h]) hs (drop (be64 buf) (drop 8 buf)) st1 = (fin', ex, st')"
        "buf \<noteq> []" "\<not> length buf < 8" "be64 buf \<noteq> 0" "\<not> length (drop 8 buf) < be64 buf"
    using "2.prems"(1) by (auto simp: Let_def split: if_splits flow.splits)
  then show ?case
  proof cases
    case 3
    then show ?thesis using "2.IH" [OF 3(3,4) refl refl 3(5,6) 3(1) 3(2)] "2.prems" f by simp
  qed (use f "2.prems" in auto)
qed simp

lemma verified_lookup_signed:
  "has_status c \<Longrightarrow> k < 2 ^ 64 \<Longrightarrow> get_block_by_num c k True = Some d \<Longrightarrow> signed_in c k"
  by (auto simp: get_block_by_num_def get_block_by_num_str_def has_status_def signed_in_def is_status_def
      split: if_splits option.splits)

section \<open>Properties of a batch\<close>

text \<open>C1: with verification on, the entries of a batch that \<^verbatim>\<open>routine_2\<close> finished are a chain: the dump stored
  under each announced number parses to a block with the announced hash, passes the core signature
  test, and names the hash of the entry before it (of the block already known, for the first one) as
  its predecessor.\<close>

theorem batch_stores_chain:
  assumes "process_batch E [] hs buf st = (finished, ex, st')" and "block_verification E"
    and "\<forall>h\<in>set hs. entry_ok h \<and> 1 < blk_number h" and "distinct (map blk_number hs)"
  shows "\<exists>ph ds. chain E ph finished ds \<and> (prev_hash_of st \<noteq> [] \<longrightarrow> ph = prev_hash_of st) \<and>
    (\<exists>rest. hs = finished @ rest) \<and>
    (\<forall>i < length finished. get_block_by_num (cache st') (blk_number (finished ! i)) False = Some (ds ! i))"
  using process_batch_chain [OF assms] by (auto simp: get_block_by_num_def get_block_by_num_str_def)

definition sample_env :: cache_env where
  "sample_env = \<lparr>request = (\<lambda>_ _. None), json_parse = (\<lambda>_. None), lz = stored_lz4,
     lib = sample_lib\<lparr>parseBlockDump := (\<lambda>d. if d = ''B2''
        then Inr (SomeBlock (sample_block (replicate 11 2) (replicate 11 1) [sample_tx False ''0x7'' []])) else Inr NoBlock)\<rparr>,
     write_ok = (\<lambda>_ _. True), cores = [''0x1'', ''0x2''], init_count = 10, recv_count = 10, recv_data_size = 1,
     block_verification = True, cache_force = False\<rparr>"

definition sample_state :: sync_state where
  "sample_state = \<lparr>cache = new_blocks_cache, bi_prev = set_number 19999 (sample_block (replicate 11 1) [] []),
     prev_ext_data = ext_data_of blk_not_checked\<rparr>"

definition sample_entry :: blk_info where
  "sample_entry = \<lparr>blk_number = 20000, blk_hash = replicate 11 2, blk_extra = []\<rparr>"

lemma sample_save:
  "\<exists>c'. save_block (write_ok sample_env) n (string_utils_bin2hex (replicate 11 2)) d e c = (True, c')"
  using hash_key_bin2hex [of "replicate 11 2"] hash_key_apart(1)
  by (intro save_block_all_ok) (auto simp: sample_env_def)

lemma sample_batch:
  "\<exists>st'. process_batch sample_env [] [sample_entry] (replicate 7 (CHR 0x00) @ [CHR 0x02] @ ''B2'') sample_state =
     ([sample_entry], None, st')"
proof -
  have "be64 (replicate 7 (CHR 0x00) @ [CHR 0x02] @ ''B2'') = 2" by (simp add: be64_def numeral_eq_Suc)
  moreover have "\<exists>st'. process_block sample_env sample_state sample_entry ''B2'' = Next st'"
  proof -
    have "core_addr_verification (lib sample_env) (cores sample_env)
        (set_number 20000 (sample_block (replicate 11 2) (replicate 11 1) [sample_tx False ''0x7'' []])) ph = 0" for ph
      by (simp add: core_addr_verification_def auto_signed_block_iff sample_env_def sample_lib_def)
    moreover obtain c' where "save_block (write_ok sample_env) 20000 (string_utils_bin2hex (replicate 11 2)) ''B2''
        (ext_data_of blk_not_checked) new_blocks_cache = (True, c')" using sample_save by blast
    moreover have "parse_block (lib sample_env) ''B2'' =
        Inr (sample_block (replicate 11 2) (replicate 11 1) [sample_tx False ''0x7'' []])"
      by (simp add: parse_block_def sample_env_def)
    ultimately show ?thesis
      by (simp add: process_block_def process_verified_def process_checked_def sample_state_def sample_entry_def
          mark_status_def Let_def) (simp add: sample_env_def)
  qed
  ultimately show ?thesis by (auto simp: Let_def)
qed

theorem batch_stores_chain_witness:
  "\<exists>st' ph ds. process_batch sample_env [] [sample_entry] (replicate 7 (CHR 0x00) @ [CHR 0x02] @ ''B2'') sample_state =
     ([sample_entry], None, st') \<and> chain sample_env ph [sample_entry] ds \<and> ph = replicate 11 1 \<and>
     get_block_by_num (cache st') 20000 False = Some (hd ds)"
proof -
  obtain st' where b: "process_batch sample_env [] [sample_entry] (replicate 7 (CHR 0x00) @ [CHR 0x02] @ ''B2'') sample_state =
     ([sample_entry], None, st')" using sample_batch by blast
  have "\<exists>ph ds. chain sample_env ph [sample_entry] ds \<and> (prev_hash_of sample_state \<noteq> [] \<longrightarrow> ph = prev_hash_of sample_state) \<and>
    (\<exists>rest. [sample_entry] = [sample_entry] @ rest) \<and>
    (\<forall>i < length [sample_entry]. get_block_by_num (cache st') (blk_number ([sample_entry] ! i)) False = Some (ds ! i))"
    using b by (rule batch_stores_chain) (simp_all add: sample_env_def sample_entry_def entry_ok_def)
  with b show ?thesis
    by (auto simp: sample_state_def sample_entry_def hd_conv_nth split: list.splits)
qed


lemma first_batch_signed:
  assumes "write_ok E = (\<lambda>_ _. True)" and "cache st = new_blocks_cache"
  shows "\<exists>st'. process_batch E [] [sample_entry\<lparr>blk_number := 1\<rparr>] (replicate 7 (CHR 0x00) @ [CHR 0x02] @ ''B1'') st =
     ([sample_entry\<lparr>blk_number := 1\<rparr>], None, st') \<and> get_block_by_num (cache st') 1 True = Some ''B1'' \<and> signed_in (cache st') 1"
proof -
  let ?h = "string_utils_bin2hex (replicate 11 2)"
  have be: "be64 (replicate 7 (CHR 0x00) @ [CHR 0x02] @ ''B1'') = 2" by (simp add: be64_def numeral_eq_Suc)
  have "?h \<noteq> []" using hash_key_bin2hex [of "replicate 11 2"] hash_key_apart(1) by auto
  then obtain c' where s: "save_block (write_ok E) 1 ?h ''B1'' (ext_data_of blk_signed) new_blocks_cache = (True, c')"
    using save_block_all_ok [OF assms(1)] by blast
  then have p: "process_block E st (sample_entry\<lparr>blk_number := 1\<rparr>) ''B1'' = Next (st\<lparr>cache := advance E 1 c'\<rparr>)"
    using assms(2) by (simp add: process_block_def process_plain_def sample_entry_def)
  have "cache_get c' (to_string 1) = Some ''B1''" "cache_get c' (data_key (to_string 1)) = Some (ext_data_of blk_signed)"
    using save_block_ok [OF s hash_key_bin2hex] by simp_all
  then have "get_block_by_num (advance E 1 c') 1 True = Some ''B1''" "signed_in (advance E 1 c') 1"
    by (simp_all add: get_block_by_num_def get_block_by_num_str_def advance_get key_defs ext_data_of_def first_char_def
        signed_in_def is_status_def)
  with be p show ?thesis by (simp add: Let_def)
qed


text \<open>C35: a failed write inside \<^verbatim>\<open>save_block\<close> leaves a block that verified lookups serve although it was never
  verified: the dump is there, the status data is not.\<close>

theorem failed_save_serves_unverified:
  assumes "wr (to_string n) d" and "\<not> wr h (to_string n)" and "hash_key h"
    and "cache_get c (data_key (to_string n)) = None"
  shows "\<exists>c'. save_block wr n h d (ext_data_of blk_not_checked) c = (False, c') \<and> get_block_by_num c' n True = Some d"
proof -
  have "h \<noteq> []" using assms(3) hash_key_apart(1) by blast
  then show ?thesis
    using assms by (auto simp: save_block_def cache_put_def db_put_def Let_def get_block_by_num_def
        get_block_by_num_str_def cache_get_def db_get_def data_key_def)
qed

theorem failed_save_serves_unverified_witness:
  "\<exists>c'. save_block (\<lambda>k v. k = to_string 5) 5 (replicate 64 (CHR ''a'')) ''dump'' (ext_data_of blk_not_checked) new_blocks_cache = (False, c') \<and>
     get_block_by_num c' 5 True = Some ''dump''"
proof (rule failed_save_serves_unverified)
  show "hash_key (replicate 64 (CHR ''a''))" by (simp add: hash_key_def)
  then show "replicate 64 (CHR ''a'') \<noteq> to_string 5" by (rule hash_key_apart) simp
qed (simp_all add: new_blocks_cache_def cache_get_def db_get_def)

end
