(* ===== verification/Cache_Worker.thy ===== *)
theory Cache_Worker
  imports Cache_Sync
begin

text \<open>
  The loops of the cache worker around a batch: the signature blocks (\<^verbatim>\<open>load_extra_blocks\<close>), the headers
  of \<^verbatim>\<open>get-blocks\<close>, one pass of \<^verbatim>\<open>routine_2\<close>, and the first version \<^verbatim>\<open>routine\<close>, all from
  \<^verbatim>\<open>src/src/cache/blocks_cache.cpp\<close>.  Loops that may not end are partial functions into \<^typ>\<open>'a option\<close>.
\<close>

section \<open>Signature blocks\<close>

definition dumps_prefix :: string where
  "dumps_prefix =
     ''{\"id\":1, \"version\":\"2.0\", \"method\":\"get-dumps-blocks-by-hash\", \"params\":{\"compress\":true, \"hashes\":[''"

fun extra_hashes_json :: "bool \<Rightarrow> byte list list \<Rightarrow> string \<Rightarrow> nat \<Rightarrow> string \<times> nat" where
  "extra_hashes_json first [] json cnt = (json, cnt)"
| "extra_hashes_json first (x # xs) json cnt =
     extra_hashes_json first xs
       (json @ (if first then [] else '','') @ [CHR 0x22] @ string_utils_bin2hex x @ [CHR 0x22]) (cnt + 1)"

text \<open>The request, the number of signature blocks in it and how far \<^verbatim>\<open>iter\<close> went.\<close>

fun extra_request_loop :: "nat \<Rightarrow> bool \<Rightarrow> blk_info list \<Rightarrow> string \<Rightarrow> nat \<Rightarrow> nat \<Rightarrow> string \<times> nat \<times> nat" where
  "extra_request_loop limit first [] json cnt iter = (json, cnt, iter)"
| "extra_request_loop limit first (h # hs) json cnt iter =
     (let (json, cnt) = extra_hashes_json first (blk_extra h) json cnt
      in if limit \<le> cnt then (json, cnt, iter)
         else extra_request_loop limit False hs json cnt (iter + 1))"

definition extra_request :: "nat \<Rightarrow> blk_info list \<Rightarrow> string \<times> nat \<times> nat" where
  "extra_request limit hashes =
     (let (json, cnt, iter) = extra_request_loop limit True hashes dumps_prefix 0 0
      in (json @ '']}}'', cnt, iter))"

text \<open>One signature block of the answer.\<close>

definition store_extra :: "cache_env \<Rightarrow> string \<Rightarrow> SignBlockInfo \<Rightarrow> blocks_cache \<Rightarrow> blocks_cache" where
  "store_extra E dump sb c =
     (let ext = set_status (if core_addr_verification_sign (lib E) (cores E) sb > 0 then blk_signed else blk_not_signed)
                  (ext_data_of blk_not_checked)
      in case get_block_num_by_hash c (string_utils_bin2hex (sh_prevHash (sb_header sb))) of
           None \<Rightarrow> c
         | Some num \<Rightarrow>
             let c = snd (save_extra_data (write_ok E) num ext c);
                 c = snd (save_extra_block (write_ok E) num dump c)
             in if is_status blk_signed ext then snd (update_last_signed (write_ok E) (atoi_number num) c) else c)"

fun process_extras :: "cache_env \<Rightarrow> blk_info list \<Rightarrow> string \<Rightarrow> blocks_cache \<Rightarrow> exc option \<times> blocks_cache" where
  "process_extras E [] buf c = (None, c)"
| "process_extras E (h # hs) buf c =
     (if buf = [] then (None, c)
      else if length buf < 8 then (Some OtherExc, c)
      else let blk_size = be64 buf; p = drop 8 buf
           in if blk_size = 0 then (None, c)
              else if length p < blk_size then (Some OtherExc, c)
              else case parseBlockDump (lib E) (take blk_size p) of
                     Inl e \<Rightarrow> (Some e, c)
                   | Inr (SomeSignBlock sb) \<Rightarrow>
                       process_extras E hs (drop blk_size p) (store_extra E (take blk_size p) sb c)
                   | Inr _ \<Rightarrow> process_extras E hs (drop blk_size p) c)"

text \<open>The answer to one request.\<close>

definition extra_answer :: "cache_env \<Rightarrow> blk_info list \<Rightarrow> string \<Rightarrow> blocks_cache \<Rightarrow> exc option \<times> blocks_cache" where
  "extra_answer E hashes json c =
     (case request E ''get-dumps-blocks-by-hash'' json of
        None \<Rightarrow> (None, c)
      | Some body \<Rightarrow>
          if body = [] \<or> json_parse E body \<noteq> None then (None, c)
          else process_extras E hashes (decompress (lz E) body) c)"

partial_function (option) load_extra_blocks :: "cache_env \<Rightarrow> blk_info list \<Rightarrow> blocks_cache \<Rightarrow>
    (exc option \<times> blocks_cache) option" where
  "load_extra_blocks E hashes c =
     (if hashes = [] then Some (None, c)
      else let (json, cnt, iter) = extra_request (recv_count E) hashes
           in if cnt = 0 then Some (None, c)
              else case extra_answer E hashes json c of
                     (Some e, c) \<Rightarrow> Some (Some e, c)
                   | (None, c) \<Rightarrow> load_extra_blocks E (drop iter hashes) c)"

section \<open>Block headers\<close>

definition get_string :: "json \<Rightarrow> string fallible" where
  "get_string j = (case as_string j of Some s \<Rightarrow> Inr s | None \<Rightarrow> Inl OtherExc)"

definition get_uint :: "json \<Rightarrow> nat fallible" where
  "get_uint j = (case as_uint j of Some n \<Rightarrow> Inr n | None \<Rightarrow> Inl OtherExc)"

fun read_hashes :: "json list \<Rightarrow> byte list list fallible" where
  "read_hashes [] = Inr []"
| "read_hashes (j # js) =
     bindE (get_string j) (\<lambda>s. bindE (read_hashes js) (\<lambda>hs. Inr (fromHex s # hs)))"

definition extra_field :: "string \<Rightarrow> json \<Rightarrow> byte list list fallible" where
  "extra_field name j =
     (case FindMember name j of
        Some v \<Rightarrow> (case as_array v of Some xs \<Rightarrow> read_hashes xs | None \<Rightarrow> Inr [])
      | None \<Rightarrow> Inr [])"

definition blocks_max_size :: "cache_env \<Rightarrow> nat" where
  "blocks_max_size E = recv_data_size E * 1024 * 1024 * 2 mod 2 ^ 32"

text \<open>The running size of the blocks and whether the limit of one request is reached.\<close>

definition count_size :: "cache_env \<Rightarrow> blk_info list \<Rightarrow> nat \<Rightarrow> json \<Rightarrow> (nat \<times> bool) fallible" where
  "count_size E hashes blocks_size j =
     (case FindMember ''size'' j of
        None \<Rightarrow> Inr (blocks_size, False)
      | Some v \<Rightarrow> bindE (get_uint v) (\<lambda>n.
          let sz = (blocks_size + n) mod 2 ^ 32
          in Inr (sz, (if block_verification E then length hashes > 1 else length hashes > 0) \<and> blocks_max_size E < sz)))"

text \<open>Number, hash and signature blocks of one header; \<^const>\<open>None\<close> where number or hash is missing.\<close>

definition read_header :: "json \<Rightarrow> blk_info option fallible" where
  "read_header j =
     (case FindMember ''number'' j of
        None \<Rightarrow> Inr None
      | Some v \<Rightarrow> bindE (get_uint v) (\<lambda>number.
          case FindMember ''hash'' j of
            None \<Rightarrow> Inr None
          | Some h \<Rightarrow> bindE (get_string h) (\<lambda>s. bindE (extra_field ''prev_extra_blocks'' j) (\<lambda>extra.
              Inr (Some \<lparr>blk_number = number, blk_hash = fromHex s, blk_extra = extra\<rparr>)))))"

text \<open>The headers of \<^verbatim>\<open>get-blocks\<close>: the entries, or an exception of a wrongly typed field.\<close>

fun collect_hashes :: "cache_env \<Rightarrow> json list \<Rightarrow> nat \<Rightarrow> blk_info list \<Rightarrow> blk_info list fallible" where
  "collect_hashes E [] blocks_size hashes = Inr hashes"
| "collect_hashes E (j # js) blocks_size hashes =
     (if \<not> IsObject j then collect_hashes E js blocks_size hashes
      else bindE (count_size E hashes blocks_size j) (\<lambda>(blocks_size, full).
             if full then Inr hashes
             else bindE (read_header j) (\<lambda>entry. case entry of
                    None \<Rightarrow> Inr []
                  | Some h \<Rightarrow> collect_hashes E js blocks_size (hashes @ [h]))))"

fun hashes_json :: "bool \<Rightarrow> blk_info list \<Rightarrow> string" where
  "hashes_json first [] = []"
| "hashes_json first (h # hs) =
     (if first then [] else '','') @ [CHR 0x22] @ string_utils_bin2hex (blk_hash h) @ [CHR 0x22] @ hashes_json False hs"

definition dumps_request :: "blk_info list \<Rightarrow> string" where
  "dumps_request hashes = dumps_prefix @ hashes_json True hashes @ '']}}''"

definition blocks_request :: "cache_env \<Rightarrow> nat \<Rightarrow> string" where
  "blocks_request E nextblock =
     ''{\"id\":1, \"version\":\"2.0\", \"method\":\"get-blocks\", \"params\":{\"beginBlock\":'' @ to_string nextblock @
     '', \"countBlocks\": '' @ to_string (recv_count E) @ '', \"type\": \"forP2P\", \"direction\": \"forward\"}}''"

section \<open>A pass of routine 2\<close>

definition count_request :: string where
  "count_request = ''{\"id\":1, \"version\":\"2.0\", \"method\":\"get-count-blocks\", \"params\":{ \"type\": \"forP2P\"}}''"

text \<open>The result object of \<^verbatim>\<open>get-count-blocks\<close> and its count, if the answer has them.\<close>

definition count_answer :: "cache_env \<Rightarrow> string \<Rightarrow> (json \<times> nat) option" where
  "count_answer E body =
     (if body = [] then None
      else case json_parse E body of
             None \<Rightarrow> None
           | Some doc \<Rightarrow>
               (case get_result doc of
                  None \<Rightarrow> None
                | Some r \<Rightarrow> (case get_value as_uint64 r ''count_blocks'' of None \<Rightarrow> None | Some n \<Rightarrow> Some (r, n))))"

text \<open>The first block to load, before the loop.\<close>

definition init_nextblock :: "cache_env \<Rightarrow> blocks_cache \<Rightarrow> blocks_cache" where
  "init_nextblock E c =
     (if m_nextblock c \<noteq> 0 then c
      else if init_count E = 0 then c\<lparr>m_nextblock := 1\<rparr>
      else case request E ''get-count-blocks'' count_request of
             None \<Rightarrow> c\<lparr>m_nextblock := 1\<rparr>
           | Some body \<Rightarrow>
               (case count_answer E body of
                  None \<Rightarrow> c\<lparr>m_nextblock := 1\<rparr>
                | Some (_, n) \<Rightarrow> c\<lparr>m_nextblock := if n > init_count E then n - init_count E else n\<rparr>))"

text \<open>Nothing new: the signature blocks of the last block.  The pass results in an exception or none,
  \<^verbatim>\<open>force_download\<close> and the state.\<close>

definition pass_no_blocks :: "cache_env \<Rightarrow> bool \<Rightarrow> sync_state \<Rightarrow> (exc option \<times> bool \<times> sync_state) option" where
  "pass_no_blocks E force st =
     (case request E ''get-count-blocks'' count_request of
        None \<Rightarrow> Some (Some OtherExc, force, st)
      | Some body \<Rightarrow>
          (case count_answer E body of
             None \<Rightarrow> Some (None, force, st)
           | Some (r, n) \<Rightarrow>
               if n = m_last_signed_block (cache st) then Some (None, False, st)
               else case extra_field ''next_extra_blocks'' r of
                      Inl e \<Rightarrow> Some (Some e, False, st)
                    | Inr extra \<Rightarrow>
                        (case load_extra_blocks E [\<lparr>blk_number = n, blk_hash = [], blk_extra = extra\<rparr>] (cache st) of
                           None \<Rightarrow> None
                         | Some (ex, c) \<Rightarrow> Some (ex, False, st\<lparr>cache := c\<rparr>))))"

text \<open>The dumps of the announced blocks, then their signature blocks.\<close>

definition pass_dumps :: "cache_env \<Rightarrow> blk_info list \<Rightarrow> sync_state \<Rightarrow> (exc option \<times> sync_state) option" where
  "pass_dumps E hashes st =
     (case request E ''get-dumps-blocks-by-hash'' (dumps_request hashes) of
        None \<Rightarrow> Some (None, st)
      | Some body \<Rightarrow>
          if body = [] then Some (None, st)
          else if (case json_parse E body of Some doc \<Rightarrow> get_error doc \<noteq> None \<or> get_result doc \<noteq> None | None \<Rightarrow> False)
          then Some (None, st)
          else let buf = decompress (lz E) body
               in if buf = [] then Some (None, st)
                  else let st = st\<lparr>bi_prev := (bi_prev st)\<lparr>bi_header := (bi_header (bi_prev st))\<lparr>bh_hash := []\<rparr>\<rparr>\<rparr>
                       in case process_batch E [] hashes buf st of
                            (finished, Some e, st) \<Rightarrow> Some (Some e, st)
                          | (finished, None, st) \<Rightarrow>
                              (case load_extra_blocks E finished (cache st) of
                                 None \<Rightarrow> None
                               | Some (ex, c) \<Rightarrow> Some (ex, st\<lparr>cache := c\<rparr>)))"

definition routine_2_pass :: "cache_env \<Rightarrow> bool \<Rightarrow> sync_state \<Rightarrow> (exc option \<times> bool \<times> sync_state) option" where
  "routine_2_pass E force st =
     (case request E ''get-blocks'' (blocks_request E (m_nextblock (cache st))) of
        None \<Rightarrow> Some (None, force, st)
      | Some body \<Rightarrow>
          if body = [] then Some (None, force, st)
          else case json_parse E body of
                 None \<Rightarrow> Some (None, force, st)
               | Some doc \<Rightarrow>
                   if get_error doc \<noteq> None then Some (None, force, st)
                   else case get_result doc of
                          None \<Rightarrow> Some (None, force, st)
                        | Some r \<Rightarrow>
                            (case as_array r of
                               None \<Rightarrow> Some (None, force, st)
                             | Some [] \<Rightarrow> pass_no_blocks E force st
                             | Some js \<Rightarrow>
                                 (case collect_hashes E js 0 [] of
                                    Inl e \<Rightarrow> Some (Some e, cache_force E, st)
                                  | Inr [] \<Rightarrow> Some (None, cache_force E, st)
                                  | Inr hashes \<Rightarrow>
                                      (case pass_dumps E hashes st of
                                         None \<Rightarrow> None
                                       | Some (ex, st) \<Rightarrow> Some (ex, cache_force E, st)))))"

text \<open>The loop for a given sequence of node answers, one environment per pass; an exception ends it
  (\<^verbatim>\<open>CACHE_END\<close>), and \<^verbatim>\<open>worker_proc\<close> then clears \<^verbatim>\<open>m_run\<close>.\<close>

fun routine_2_passes :: "cache_env list \<Rightarrow> bool \<Rightarrow> sync_state \<Rightarrow> sync_state option" where
  "routine_2_passes [] force st = Some st"
| "routine_2_passes (E # Es) force st =
     (case routine_2_pass E force st of
        None \<Rightarrow> None
      | Some (Some e, force, st) \<Rightarrow> Some (st\<lparr>cache := (cache st)\<lparr>m_run := False\<rparr>\<rparr>)
      | Some (None, force, st) \<Rightarrow> routine_2_passes Es force st)"

definition empty_block :: BlockInfo where
  "empty_block =
     \<lparr>bi_header = \<lparr>bh_timestamp = 0, bh_blockSize = 0, bh_blockType = 0, bh_hash = [], bh_prevHash = [], bh_txsHash = [],
        bh_signature = [], bh_countTxs = 0, bh_countSignTx = 0, bh_filePos = \<lparr>fp_pos = 0, fileNameRelative = []\<rparr>,
        bh_blockNumber = None, bh_senderSign = [], bh_senderPubkey = [], bh_senderAddress = []\<rparr>, bi_txs = []\<rparr>"

definition routine_2 :: "cache_env \<Rightarrow> cache_env list \<Rightarrow> blocks_cache \<Rightarrow> blocks_cache option" where
  "routine_2 E Es c =
     (case routine_2_passes Es (cache_force E)
         \<lparr>cache = init_nextblock E c, bi_prev = empty_block, prev_ext_data = CHR 0xFF # replicate 7 (CHR 0x00)\<rparr> of
        None \<Rightarrow> None
      | Some st \<Rightarrow> Some (cache st))"

section \<open>The first version\<close>

definition count_request_1 :: string where
  "count_request_1 = ''{\"id\":1, \"version\":\"2.0\", \"method\":\"get-count-blocks\"}''"

text \<open>The unsigned subtraction wraps where the node has fewer blocks than \<^verbatim>\<open>blocks_cache_init_count\<close>.\<close>

definition first_block :: "cache_env \<Rightarrow> nat \<Rightarrow> nat" where
  "first_block E count_blocks =
     (let d = (count_blocks + 2 ^ 64 - init_count E) mod 2 ^ 64 in if d > 0 then d else 1)"

partial_function (option) routine_dumps :: "cache_env \<Rightarrow> nat \<Rightarrow> blocks_cache \<Rightarrow> (exc option \<times> blocks_cache) option" where
  "routine_dumps E count_blocks c =
     (if \<not> m_nextblock c \<le> count_blocks then Some (None, c)
      else case request E ''get-dump-block-by-number'' (dump_request (m_nextblock c)) of
             None \<Rightarrow> Some (Some OtherExc, c)
           | Some body \<Rightarrow>
               if body = [] \<or> json_parse E body \<noteq> None then Some (None, c)
               else case parseBlockDump (lib E) (decompress (lz E) body) of
                      Inl e \<Rightarrow> Some (Some e, c)
                    | Inr (SomeBlock b) \<Rightarrow>
                        (case save_block (write_ok E) (m_nextblock c) (string_utils_bin2hex (bh_hash (bi_header b))) body
                                (ext_data_of blk_not_checked) c of
                           (ok, c) \<Rightarrow> routine_dumps E count_blocks (if ok then advance E (m_nextblock c) c else c))
                    | Inr _ \<Rightarrow> routine_dumps E count_blocks c)"

definition routine_pass :: "cache_env \<Rightarrow> blocks_cache \<Rightarrow> (exc option \<times> blocks_cache) option" where
  "routine_pass E c =
     (case request E ''get-count-blocks'' count_request_1 of
        None \<Rightarrow> Some (None, c)
      | Some body \<Rightarrow>
          (case count_answer E body of
             None \<Rightarrow> Some (None, c)
           | Some (_, n) \<Rightarrow>
               routine_dumps E n (if m_nextblock c = 0 then c\<lparr>m_nextblock := first_block E n\<rparr> else c)))"

section \<open>Signature blocks: progress and status\<close>

lemma extra_hashes_json_count: "snd (extra_hashes_json first xs json n) = n + length xs"
  by (induction first xs json n rule: extra_hashes_json.induct) simp_all

lemma extra_request_loop_iter: "iter \<le> snd (snd (extra_request_loop limit first hs json n iter))"
proof (induction limit first hs json n iter rule: extra_request_loop.induct)
  case (2 limit first h hs json n iter)
  obtain j m where e: "extra_hashes_json first (blk_extra h) json n = (j, m)" by fastforce
  show ?case using 2 [OF e [symmetric] refl] by (cases "limit \<le> m") (simp_all add: e)
qed simp

lemma extra_request_progress:
  assumes "extra_request limit (h # hs) = (json, n, iter)"
  shows "iter = 0 \<longleftrightarrow> limit \<le> length (blk_extra h)" and "iter = 0 \<Longrightarrow> n = length (blk_extra h)"
proof -
  obtain j m where e: "extra_hashes_json True (blk_extra h) dumps_prefix 0 = (j, m)" by fastforce
  then have m: "m = length (blk_extra h)" using extra_hashes_json_count [of True "blk_extra h" dumps_prefix 0] by simp
  have "limit \<le> m \<or> 1 \<le> snd (snd (extra_request_loop limit False hs j m 1))" using extra_request_loop_iter by blast
  with assms e m show "iter = 0 \<longleftrightarrow> limit \<le> length (blk_extra h)" "iter = 0 \<Longrightarrow> n = length (blk_extra h)"
    by (auto simp: extra_request_def split: prod.splits if_splits)
qed

declare load_extra_blocks.simps [code]

lemma load_extra_blocks_total:
  "\<forall>h\<in>set hashes. length (blk_extra h) < recv_count E \<Longrightarrow> \<exists>r. load_extra_blocks E hashes c = Some r"
proof (induction "length hashes" arbitrary: hashes c rule: less_induct)
  case less
  show ?case
  proof (cases hashes)
    case (Cons h hs)
    obtain json n iter where r: "extra_request (recv_count E) hashes = (json, n, iter)" by (metis prod_cases3)
    have "iter \<noteq> 0" using extra_request_progress(1) [OF r [unfolded Cons]] less.prems Cons by auto
    then have "length (drop iter hashes) < length hashes" using Cons by auto
    moreover have "\<forall>h\<in>set (drop iter hashes). length (blk_extra h) < recv_count E"
      using less.prems by (meson in_set_dropD)
    ultimately have "\<exists>r. load_extra_blocks E (drop iter hashes) c' = Some r" for c' using less.hyps by blast
    with r Cons show ?thesis
      by (subst load_extra_blocks.simps) (auto split: prod.splits option.splits)
  qed (simp add: load_extra_blocks.simps)
qed

lemma load_extra_blocks_stuck:
  assumes "recv_count E \<le> length (blk_extra h)" "blk_extra h \<noteq> []"
    and "request E ''get-dumps-blocks-by-hash'' (fst (extra_request (recv_count E) (h # hs))) = None"
  shows "load_extra_blocks E (h # hs) c = None"
proof -
  have "load_extra_blocks E (h # hs) c = Some r \<Longrightarrow> E = E \<longrightarrow> h # hs \<noteq> h # hs" for r c
  proof (erule load_extra_blocks.raw_induct [where P = "\<lambda>E' hashes _ _. E' = E \<longrightarrow> hashes \<noteq> h # hs", rotated], intro impI notI)
    fix f :: "cache_env \<Rightarrow> blk_info list \<Rightarrow> blocks_cache \<Rightarrow> (exc option \<times> blocks_cache) option" and E' hashes c r
    assume IH: "\<And>E' hashes c r. f E' hashes c = Some r \<Longrightarrow> E' = E \<longrightarrow> hashes \<noteq> h # hs"
      and f: "(if hashes = [] then Some (None, c)
       else let (json, cnt, iter) = extra_request (recv_count E') hashes
            in if cnt = 0 then Some (None, c)
               else case extra_answer E' hashes json c of
                      (None, c) \<Rightarrow> f E' (drop iter hashes) c | (Some e, c) \<Rightarrow> Some (Some e, c)) = Some r"
      and eq: "E' = E" "hashes = h # hs"
    obtain json n iter where q: "extra_request (recv_count E) (h # hs) = (json, n, iter)" by (metis prod_cases3)
    then have "iter = 0" "n \<noteq> 0" using extra_request_progress [OF q] assms(1,2) by auto
    moreover have "extra_answer E (h # hs) json c = (None, c)" using assms(3) q by (simp add: extra_answer_def)
    ultimately have "f E (h # hs) c = Some r" using f q by (simp add: eq)
    then show False using IH by blast
  qed
  then show ?thesis by (cases "load_extra_blocks E (h # hs) c") blast+
qed

section \<open>Evidence for signed blocks\<close>

text \<open>A signature block in an answer that the test on the core addresses accepts.\<close>

definition sign_block_evidence :: "cache_env \<Rightarrow> bool" where
  "sign_block_evidence E \<longleftrightarrow> (\<exists>dump sb. parseBlockDump (lib E) dump = Inr (SomeSignBlock sb) \<and>
     0 < core_addr_verification_sign (lib E) (cores E) sb)"

lemma key_apart [simp]:
  "data_key num = data_key (to_string k) \<longleftrightarrow> num = to_string k" "data_key (to_string k) = data_key num \<longleftrightarrow> num = to_string k"
  "data_key (to_string k) \<noteq> extra_key num"
proof -
  show "data_key (to_string k) \<noteq> extra_key num"
  proof
    assume "data_key (to_string k) = extra_key num"
    then have "rev (data_key (to_string k)) = rev (extra_key num)" by simp
    then show False by (simp add: key_defs)
  qed
qed (auto simp: key_defs)

lemma signed_in_extras [simp]:
  "signed_in (snd (save_extra_block wr num d c)) k \<longleftrightarrow> signed_in c k"
  "signed_in (snd (update_last_signed wr m c)) k \<longleftrightarrow> signed_in c k"
  "signed_in (snd (save_extra_data wr num e c)) k \<longleftrightarrow>
     (if num = to_string k \<and> wr (data_key num) e then is_status blk_signed e else signed_in c k)"
  by (auto simp: signed_in_def save_extra_block_def save_extra_data_def cache_put_get update_last_signed_get key_defs)

lemma is_status_fresh [simp]: "is_status v (set_status w (ext_data_of u)) \<longleftrightarrow> v = w"
  by (cases v; cases w) (simp_all add: is_status_def set_status_def ext_data_of_def first_char_def)

lemma store_extra_newly: "newly c (store_extra E d sb c) k \<Longrightarrow> 0 < core_addr_verification_sign (lib E) (cores E) sb"
  by (auto simp: newly_def store_extra_def Let_def split: option.splits if_splits)

lemma process_extras_newly:
  "process_extras E hs buf c = (ex, c') \<Longrightarrow> newly c c' k \<Longrightarrow> sign_block_evidence E"
proof (induction hs arbitrary: buf c)
  case (Cons h hs)
  let ?d = "take (be64 buf) (drop 8 buf)" and ?r = "drop (be64 buf) (drop 8 buf)"
  consider "c' = c" | sb where "parseBlockDump (lib E) ?d = Inr (SomeSignBlock sb)" "process_extras E hs ?r (store_extra E ?d sb c) = (ex, c')"
    | "process_extras E hs ?r c = (ex, c')"
    using Cons.prems(1) by (auto simp: Let_def split: if_splits sum.splits some_block.splits)
  then show ?case
  proof cases
    case (2 sb)
    then show ?thesis
      using newly_trans [OF Cons.prems(2), of "store_extra E ?d sb c"] store_extra_newly Cons.IH unfolding sign_block_evidence_def by blast
  qed (use Cons in auto)
qed simp

lemma extra_answer_newly: "extra_answer E hs json c = (ex, c') \<Longrightarrow> newly c c' k \<Longrightarrow> sign_block_evidence E"
  by (auto simp: extra_answer_def split: option.splits if_splits intro: process_extras_newly)

lemma load_extra_blocks_newly:
  "load_extra_blocks E hs c = Some r \<Longrightarrow> newly c (snd r) k \<longrightarrow> sign_block_evidence E"
proof (erule load_extra_blocks.raw_induct [where P = "\<lambda>E hs c r. newly c (snd r) k \<longrightarrow> sign_block_evidence E", rotated])
  fix f :: "cache_env \<Rightarrow> blk_info list \<Rightarrow> blocks_cache \<Rightarrow> (exc option \<times> blocks_cache) option" and E hashes c r
  assume IH: "\<And>E hashes c r. f E hashes c = Some r \<Longrightarrow> newly c (snd r) k \<longrightarrow> sign_block_evidence E"
    and f: "(if hashes = [] then Some (None, c)
     else let (json, cnt, iter) = extra_request (recv_count E) hashes
          in if cnt = 0 then Some (None, c)
             else case extra_answer E hashes json c of
                    (None, c) \<Rightarrow> f E (drop iter hashes) c | (Some e, c) \<Rightarrow> Some (Some e, c)) = Some r"
  obtain json n iter where q: "extra_request (recv_count E) hashes = (json, n, iter)" by (metis prod_cases3)
  obtain ex c1 where a: "extra_answer E hashes json c = (ex, c1)" by fastforce
  have "snd r = c \<or> snd r = c1 \<or> f E (drop iter hashes) c1 = Some r"
    using f by (cases ex) (auto simp: q a split: if_splits)
  then show "newly c (snd r) k \<longrightarrow> sign_block_evidence E"
    using extra_answer_newly [OF a] IH newly_trans by (metis newly_refl)
qed

section \<open>Evidence along the passes\<close>

lemma read_header_number: "read_header j = Inr (Some h) \<Longrightarrow> blk_number h < 2 ^ 32"
  by (auto simp: read_header_def bindE_def get_uint_def as_uint_def nat_less_iff split: option.splits sum.splits json.splits if_splits)

lemma collect_hashes_numbers:
  "collect_hashes E js sz hs = Inr hs' \<Longrightarrow> \<forall>h\<in>set hs. blk_number h < 2 ^ 32 \<Longrightarrow> \<forall>h\<in>set hs'. blk_number h < 2 ^ 32"
proof (induction js arbitrary: sz hs)
  case (Cons j js)
  obtain e where c: "count_size E hs sz j = e" by simp
  obtain h where r: "read_header j = h" by simp
  show ?case
  proof (cases "IsObject j")
    case False
    then show ?thesis using Cons.prems by (intro Cons.IH [of sz hs]) simp_all
  next
    case True
    then obtain sz' full where e: "e = Inr (sz', full)"
      using Cons.prems(1) c by (cases e) (auto simp: bindE_def)
    show ?thesis
    proof (cases full)
      case False
      then obtain o' where h: "h = Inr o'" using Cons.prems(1) True c e r by (cases h) (auto simp: bindE_def)
      show ?thesis
      proof (cases o')
        case (Some b)
        then have "collect_hashes E js sz' (hs @ [b]) = Inr hs'"
          using Cons.prems(1) True False c e r h by (simp add: bindE_def)
        moreover have "blk_number b < 2 ^ 32" using r h Some read_header_number by blast
        ultimately show ?thesis using Cons.prems(2) by (intro Cons.IH [of sz' "hs @ [b]"]) simp_all
      qed (use Cons.prems(1) True False c e r h in \<open>simp add: bindE_def\<close>)
    qed (use Cons.prems True c e in \<open>simp add: bindE_def\<close>)
  qed
qed simp

text \<open>Every announced hash is longer than ten bytes, so that no hash key of the database is a number.\<close>

definition long_hashes :: "cache_env \<Rightarrow> bool" where
  "long_hashes E \<longleftrightarrow> (\<forall>q body doc r js hs. request E ''get-blocks'' q = Some body \<longrightarrow> json_parse E body = Some doc \<longrightarrow>
     get_result doc = Some r \<longrightarrow> as_array r = Some js \<longrightarrow> collect_hashes E js 0 [] = Inr hs \<longrightarrow>
     (\<forall>h\<in>set hs. 10 < length (blk_hash h)))"

lemma pass_no_blocks_newly:
  assumes "pass_no_blocks E force st = Some (ex, force', st')" and "newly (cache st) (cache st') k"
  shows "sign_block_evidence E"
proof -
  have "cache st' = cache st \<or> (\<exists>hs r. load_extra_blocks E hs (cache st) = Some r \<and> cache st' = snd r)"
    using assms(1) by (auto simp: pass_no_blocks_def split: option.splits if_splits sum.splits prod.splits)
  with assms(2) load_extra_blocks_newly show ?thesis by (metis newly_refl)
qed

lemma pass_dumps_newly:
  assumes "pass_dumps E hs st = Some (ex, st')" and "newly (cache st) (cache st') k" and "\<forall>h\<in>set hs. entry_ok h"
  shows "k = 1 \<or> signature_evidence E k \<or> sign_block_evidence E"
proof -
  let ?s = "st\<lparr>bi_prev := (bi_prev st)\<lparr>bi_header := (bi_header (bi_prev st))\<lparr>bh_hash := []\<rparr>\<rparr>\<rparr>"
  consider "cache st' = cache st" | buf fin ex1 st1 where "process_batch E [] hs buf ?s = (fin, ex1, st1)"
      "st' = st1 \<or> (\<exists>r. load_extra_blocks E fin (cache st1) = Some r \<and> cache st' = snd r)"
    using assms(1) by (auto simp: pass_dumps_def Let_def split: option.splits if_splits prod.splits)
  then show ?thesis
  proof cases
    case (2 buf fin ex1 st1)
    have "newly (cache ?s) (cache st1) k \<Longrightarrow> k = 1 \<or> signature_evidence E k"
      using process_batch_newly [OF 2(1) assms(3)] by blast
    then show ?thesis using newly_trans [OF assms(2), of "cache st1"] 2(2) load_extra_blocks_newly by fastforce
  qed (use assms(2) in simp)
qed

lemma routine_2_pass_newly:
  assumes "routine_2_pass E force st = Some (ex, force', st')" and "newly (cache st) (cache st') k" and "long_hashes E"
  shows "k = 1 \<or> signature_evidence E k \<or> sign_block_evidence E"
proof -
  consider "st' = st" | "pass_no_blocks E force st = Some (ex, force', st')"
    | body doc r js hs where "request E ''get-blocks'' (blocks_request E (m_nextblock (cache st))) = Some body"
        "json_parse E body = Some doc" "get_result doc = Some r" "as_array r = Some js" "collect_hashes E js 0 [] = Inr hs"
        "pass_dumps E hs st = Some (ex, st')"
    using assms(1) unfolding routine_2_pass_def by (auto split: option.splits if_splits list.splits sum.splits prod.splits)
  then show ?thesis
  proof cases
    case (3 body doc r js hs)
    have "\<forall>h\<in>set hs. 10 < length (blk_hash h)" using assms(3) 3(1-5) unfolding long_hashes_def by blast
    moreover have "\<forall>h\<in>set hs. blk_number h < 2 ^ 32" using collect_hashes_numbers [OF 3(5)] by simp
    ultimately have "\<forall>h\<in>set hs. entry_ok h" unfolding entry_ok_def by force
    then show ?thesis using pass_dumps_newly [OF 3(6) assms(2)] by blast
  qed (use assms(2) pass_no_blocks_newly in auto)
qed

lemma signed_in_m_run [simp]: "signed_in (c\<lparr>m_run := b\<rparr>) k \<longleftrightarrow> signed_in c k"
  by (simp add: signed_in_def cache_get_def)

lemma routine_2_passes_newly:
  "routine_2_passes Es force st = Some st' \<Longrightarrow> newly (cache st) (cache st') k \<Longrightarrow> \<forall>E\<in>set Es. long_hashes E \<Longrightarrow>
   k = 1 \<or> (\<exists>E\<in>set Es. signature_evidence E k \<or> sign_block_evidence E)"
proof (induction Es arbitrary: force st)
  case (Cons E Es)
  obtain ex force1 st1 where p: "routine_2_pass E force st = Some (ex, force1, st1)"
    using Cons.prems(1) by (auto split: option.splits)
  then have "newly (cache st) (cache st1) k \<Longrightarrow> ?case" using routine_2_pass_newly Cons.prems(3) by fastforce
  moreover have "newly (cache st1) (cache st') k \<Longrightarrow> ?case"
    using p Cons.prems Cons.IH by (cases ex) (auto simp: newly_def)
  ultimately show ?case using newly_trans [OF Cons.prems(2)] by blast
qed simp

section \<open>Properties of the worker\<close>

text \<open>C9: loading the signature blocks ends, whatever the node answers, when every announced block has fewer
  signature blocks than \<^verbatim>\<open>blocks_cache_recv_count\<close>.\<close>

theorem load_extra_blocks_returns:
  assumes "\<forall>h\<in>set hashes. length (blk_extra h) < recv_count E"
  shows "\<exists>ex c'. load_extra_blocks E hashes c = Some (ex, c')"
  using load_extra_blocks_total [OF assms] by (metis surj_pair)

theorem load_extra_blocks_returns_witness:
  "\<exists>ex c'. load_extra_blocks sample_env [sample_entry\<lparr>blk_extra := [[1], [2]]\<rparr>, sample_entry] new_blocks_cache = Some (ex, c')"
  by (rule load_extra_blocks_returns) (simp add: sample_env_def sample_entry_def)

text \<open>C34: a block with at least \<^verbatim>\<open>blocks_cache_recv_count\<close> signature blocks blocks the worker for ever once the
  node does not answer: \<^verbatim>\<open>iter\<close> stays at the first entry, nothing is erased and the same request is
  sent again.\<close>

theorem load_extra_blocks_never_returns:
  assumes "recv_count E \<le> length (blk_extra h)" and "blk_extra h \<noteq> []"
    and "request E ''get-dumps-blocks-by-hash'' (fst (extra_request (recv_count E) (h # hs))) = None"
  shows "load_extra_blocks E (h # hs) c = None"
  using assms by (rule load_extra_blocks_stuck)

theorem load_extra_blocks_never_returns_witness:
  "load_extra_blocks sample_env [sample_entry\<lparr>blk_extra := replicate 10 [1]\<rparr>] new_blocks_cache = None"
  by (rule load_extra_blocks_never_returns) (simp_all add: sample_env_def)

text \<open>C5: a signature block decides the status of the block it refers to, whatever that status was: the
  block becomes visible to verified lookups exactly when the signature block passes the core test, an
  unconvincing one takes the visibility of a signed block away, and all other blocks keep theirs.\<close>

theorem sign_block_decides:
  assumes "get_block_num_by_hash c (string_utils_bin2hex (sh_prevHash (sb_header sb))) = Some (to_string k)"
    and "write_ok E = (\<lambda>_ _. True)" and "m \<noteq> k"
  shows "(signed_in (store_extra E dump sb c) k \<longleftrightarrow> 0 < core_addr_verification_sign (lib E) (cores E) sb) \<and>
    (signed_in (store_extra E dump sb c) m \<longleftrightarrow> signed_in c m) \<and>
    get_extra_block_for (store_extra E dump sb c) k = Some dump \<and>
    get_block_by_num (store_extra E dump sb c) k True =
      (if 0 < core_addr_verification_sign (lib E) (cores E) sb then get_block_by_num c k False else None)"
proof -
  have st: "first_char (set_status v (ext_data_of blk_not_checked)) = ext_char v" for v
    by (simp add: set_status_def ext_data_of_def first_char_def)
  have "extra_key (to_string k) \<noteq> ''last_signed_block''" "data_key (to_string k) \<noteq> ''last_signed_block''"
    "extra_key (to_string k) \<noteq> data_key (to_string k)" by (simp_all add: key_defs)
  then have d: "cache_get (store_extra E dump sb c) (extra_key (to_string k)) = Some dump"
    "cache_get (store_extra E dump sb c) (to_string k) = cache_get c (to_string k)"
    "cache_get (store_extra E dump sb c) (data_key (to_string k)) =
       Some (set_status (if 0 < core_addr_verification_sign (lib E) (cores E) sb then blk_signed else blk_not_signed)
         (ext_data_of blk_not_checked))"
    using assms(1,2)
    by (simp_all add: store_extra_def Let_def save_extra_data_def save_extra_block_def cache_put_get update_last_signed_get)
      (simp_all add: key_defs)
  have "ext_char blk_not_signed \<noteq> ext_char blk_signed" by simp
  then have "get_block_by_num (store_extra E dump sb c) k True =
      (if 0 < core_addr_verification_sign (lib E) (cores E) sb then get_block_by_num c k False else None)"
    by (simp add: get_block_by_num_def get_block_by_num_str_def d st)
  moreover have "(signed_in (store_extra E dump sb c) k \<longleftrightarrow> 0 < core_addr_verification_sign (lib E) (cores E) sb) \<and>
    (signed_in (store_extra E dump sb c) m \<longleftrightarrow> signed_in c m)"
    using assms by (simp add: store_extra_def Let_def)
  ultimately show ?thesis using d by (simp add: get_extra_block_for_def)
qed

definition sample_sign_block :: SignBlockInfo where
  "sample_sign_block = \<lparr>sb_header = \<lparr>sh_timestamp = 0, sh_blockSize = 0, sh_hash = [], sh_prevHash = replicate 11 2,
     sh_filePos = \<lparr>fp_pos = 0, fileNameRelative = []\<rparr>, sh_senderSign = [], sh_senderPubkey = [], sh_senderAddress = []\<rparr>,
     sb_txs = []\<rparr>"

theorem sign_block_decides_witness:
  "\<exists>c. signed_in c 7 \<and> \<not> signed_in (store_extra sample_env ''x'' sample_sign_block c) 7 \<and>
     get_block_by_num (store_extra sample_env ''x'' sample_sign_block c) 7 True = None"
proof -
  obtain c where c: "save_block (write_ok sample_env) 7 (string_utils_bin2hex (replicate 11 2)) ''d'' (ext_data_of blk_signed)
      new_blocks_cache = (True, c)" using sample_save by blast
  note s = save_block_ok [OF c hash_key_bin2hex]
  have "signed_in c 7" using s(3) by (simp add: signed_in_def is_status_def ext_data_of_def first_char_def)
  moreover have "\<not> 0 < core_addr_verification_sign (lib sample_env) (cores sample_env) sample_sign_block"
    by (simp add: core_addr_verification_sign_def sample_sign_block_def)
  moreover have "get_block_num_by_hash c (string_utils_bin2hex (sh_prevHash (sb_header sample_sign_block))) = Some (to_string 7)"
    using s(2) by (simp add: get_block_num_by_hash_def sample_sign_block_def)
  ultimately show ?thesis
    using sign_block_decides [of c sample_sign_block 7 sample_env 8 "''x''"] by (auto simp: sample_env_def)
qed


text \<open>A node that announces block 1 and sends its dump.\<close>

definition sample_announcement :: json where
  "sample_announcement = JObject [(''result'', JArray [JObject
     [(''number'', JInt 1), (''hash'', JString (toHex_iter (replicate 11 2)))]])]"

definition sample_node :: cache_env where
  "sample_node = sample_env\<lparr>
     request := (\<lambda>path _. if path = ''get-blocks'' then Some ''blocks''
       else Some (compress stored_lz4 (replicate 7 (CHR 0x00) @ [CHR 0x02] @ ''B1''))),
     json_parse := (\<lambda>body. if body = ''blocks'' then Some sample_announcement else None)\<rparr>"

lemma sample_collect: "collect_hashes sample_node [JObject [(''number'', JInt 1), (''hash'', JString (toHex_iter (replicate 11 2)))]] 0 [] =
    Inr [sample_entry\<lparr>blk_number := 1\<rparr>]"
  by (simp add: count_size_def read_header_def FindMember_def get_uint_def as_uint_def get_string_def as_string_def extra_field_def
      fromHex_toHex_iter sample_entry_def bindE_def)

lemma sample_long_hashes: "long_hashes sample_node"
  unfolding long_hashes_def
proof (intro allI impI)
  fix q body doc r js hs
  assume "request sample_node ''get-blocks'' q = Some body" "json_parse sample_node body = Some doc" "get_result doc = Some r"
    "as_array r = Some js" and c: "collect_hashes sample_node js 0 [] = Inr hs"
  then have "js = [JObject [(''number'', JInt 1), (''hash'', JString (toHex_iter (replicate 11 2)))]]"
    by (auto simp: sample_node_def sample_announcement_def get_result_def reader_get_def FindMember_def as_array_def)
  then have "hs = [sample_entry\<lparr>blk_number := 1\<rparr>]" using c sample_collect by simp
  then show "\<forall>h\<in>set hs. 10 < length (blk_hash h)" by (simp add: sample_entry_def)
qed

lemma sample_pass:
  "\<exists>st'. routine_2_passes [sample_node] False sample_state = Some st' \<and> signed_in (cache st') 1"
proof -
  let ?buf = "replicate 7 (CHR 0x00) @ [CHR 0x02] @ ''B1''" and ?h = "sample_entry\<lparr>blk_number := 1\<rparr>"
  have n: "request sample_node ''get-blocks'' q = Some ''blocks''" "json_parse sample_node ''blocks'' = Some sample_announcement"
    "request sample_node ''get-dumps-blocks-by-hash'' q = Some (compress stored_lz4 ?buf)" for q
    by (simp_all add: sample_node_def)
  let ?s = "sample_state\<lparr>bi_prev := (bi_prev sample_state)\<lparr>bi_header := (bi_header (bi_prev sample_state))\<lparr>bh_hash := []\<rparr>\<rparr>\<rparr>"
  have "\<exists>st'. process_batch sample_node [] [?h] ?buf ?s = ([?h], None, st') \<and>
      get_block_by_num (cache st') 1 True = Some ''B1'' \<and> signed_in (cache st') 1"
    by (rule first_batch_signed) (simp_all add: sample_node_def sample_env_def sample_state_def)
  then obtain st' where b: "process_batch sample_node [] [?h] ?buf ?s = ([?h], None, st')" and sg: "signed_in (cache st') 1"
    by blast
  have z: "decompress (lz sample_node) (compress stored_lz4 ?buf) = ?buf"
    using decompress_compress [OF stored_lz4_laws, of ?buf] by (simp add: sample_node_def sample_env_def LZ4_MAX_INPUT_SIZE_def)
  obtain d where "compress_uint32_block stored_lz4 ?buf [] = (True, u32_chars (length ?buf) @ d)"
    by (rule compress_eq [OF stored_lz4_laws, of ?buf]) (simp_all add: LZ4_MAX_INPUT_SIZE_def)
  moreover have "u32_chars (length ?buf) = [CHR 0x0A, CHR 0x00, CHR 0x00, CHR 0x00]" by code_simp
  ultimately have "compress stored_lz4 ?buf = CHR 0x0A # CHR 0x00 # CHR 0x00 # CHR 0x00 # d"
    by (simp add: compress_def del: length_append)
  then have c: "compress stored_lz4 ?buf \<noteq> []" "json_parse sample_node (compress stored_lz4 ?buf) = None"
    by (simp_all add: sample_node_def)
  have "load_extra_blocks sample_node [?h] c' = Some (None, c')" for c'
    by (simp add: load_extra_blocks.simps extra_request_def sample_entry_def sample_node_def sample_env_def)
  then have "pass_dumps sample_node [?h] sample_state = Some (None, st')"
    using n(3) c z b by (simp add: pass_dumps_def Let_def)
  moreover have "get_result sample_announcement = Some (JArray [JObject [(''number'', JInt 1), (''hash'', JString (toHex_iter (replicate 11 2)))]])"
    "get_error sample_announcement = None"
    by (simp_all add: sample_announcement_def get_result_def get_error_def reader_get_def FindMember_def)
  ultimately have "routine_2_pass sample_node False sample_state = Some (None, cache_force sample_node, st')"
    using n(1,2) sample_collect by (simp add: routine_2_pass_def as_array_def)
  with sg show ?thesis by simp
qed



text \<open>Where the node has fewer blocks than \<^verbatim>\<open>blocks_cache_init_count\<close>, the subtraction of the first
  version wraps and its pass loads nothing: the next block is set to a number near \<open>2 ^ 64\<close>.\<close>

lemma short_chain_never_cached:
  assumes "m_nextblock c = 0" and "request E ''get-count-blocks'' count_request_1 = Some body"
    and "count_answer E body = Some (r, n)" and "n < init_count E" and "init_count E < 2 ^ 32"
  shows "routine_pass E c = Some (None, c\<lparr>m_nextblock := 2 ^ 64 - (init_count E - n)\<rparr>)"
proof -
  have "(n + 2 ^ 64 - init_count E) mod 2 ^ 64 = 2 ^ 64 - (init_count E - n)" using assms(4,5) by simp
  then have "first_block E n = 2 ^ 64 - (init_count E - n)" using assms(4,5) by (simp add: first_block_def Let_def)
  moreover have "\<not> 2 ^ 64 - (init_count E - n) \<le> n" using assms(4,5) by simp
  ultimately show ?thesis using assms(1-3) by (simp add: routine_pass_def routine_dumps.simps)
qed


definition sample_short_chain :: cache_env where
  "sample_short_chain = sample_env\<lparr>request := (\<lambda>_ _. Some ''count''),
     json_parse := (\<lambda>_. Some (JObject [(''result'', JObject [(''count_blocks'', JInt 3)])]))\<rparr>"

lemma short_chain_never_cached_witness:
  "routine_pass sample_short_chain new_blocks_cache = Some (None, new_blocks_cache\<lparr>m_nextblock := 2 ^ 64 - 7\<rparr>)"
  using short_chain_never_cached [of new_blocks_cache sample_short_chain "''count''" "JObject [(''count_blocks'', JInt 3)]" 3]
  by (simp add: new_blocks_cache_def sample_short_chain_def sample_env_def count_answer_def get_result_def reader_get_def
      FindMember_def get_value_def as_uint64_def)

end
