(* ===== verification/History_Cache.thy ===== *)
theory History_Cache
  imports Json_Rpc Kv_Store Tx_Utils "HOL-Library.Countable"
begin

text \<open>
  The cache of transaction histories, \<^verbatim>\<open>src/src/cache/history_cache.{h,cpp}\<close>: opening it for the
  configured addresses, one round of the worker over an address, and the lookup.  The LevelDB database
  is a key-value store, RapidJSON's parser and printer are arguments, and the answers of the node are a
  sequence, one for each request in the order the worker sends them (\<^const>\<open>None\<close> where no response came).
  Sizes and members of a value of another kind, which RapidJSON leaves undefined, are 0 and absent.
\<close>

section \<open>State\<close>

record hist_info =
  hi_begin :: nat
  hi_tx_count :: nat
  hi_addr :: string
  hi_trx :: json

record history_cache =
  hc_run :: bool
  hc_addrs :: "hist_info list"
  hc_db :: "db option"

definition new_info :: "string \<Rightarrow> hist_info" where
  "new_info address = \<lparr>hi_begin = 0, hi_tx_count = 0, hi_addr = address, hi_trx = JArray []\<rparr>"

definition new_history_cache :: history_cache where
  "new_history_cache = \<lparr>hc_run = False, hc_addrs = [], hc_db = None\<rparr>"

definition Size :: "json \<Rightarrow> nat" where
  "Size j = (case as_array j of Some xs \<Rightarrow> length xs | None \<Rightarrow> 0)"

definition elements :: "json \<Rightarrow> json list" where
  "elements j = (case as_array j of Some xs \<Rightarrow> xs | None \<Rightarrow> [])"

definition push_back :: "json \<Rightarrow> json \<Rightarrow> json" where
  "push_back v j = JArray (elements j @ [v])"

definition GetString :: "json \<Rightarrow> string" where
  "GetString j = (case as_string j of Some s \<Rightarrow> c_str s | None \<Rightarrow> [])"

text \<open>\<^verbatim>\<open>strncmp(a, b, n) == 0\<close>.\<close>

definition strncmp_eq :: "string \<Rightarrow> string \<Rightarrow> nat \<Rightarrow> bool" where
  "strncmp_eq a b n \<longleftrightarrow> take n (c_str a) = take n (c_str b)"

section \<open>Start\<close>

fun valid_infos :: "'k openssl \<Rightarrow> string list \<Rightarrow> hist_info list fallible" where
  "valid_infos ssl [] = Inr []"
| "valid_infos ssl (a # rest) =
     bindE (validate_address ssl a) (\<lambda>ok.
       bindE (valid_infos ssl rest) (\<lambda>infos. Inr (if ok then new_info a # infos else infos)))"

definition load_info :: "(string \<Rightarrow> json option) \<Rightarrow> db \<Rightarrow> hist_info \<Rightarrow> hist_info" where
  "load_info Parse d v =
     (case db_get d (hi_addr v) of
        None \<Rightarrow> v
      | Some res \<Rightarrow>
          (case Parse res of
             None \<Rightarrow> v\<lparr>hi_trx := JNull\<rparr>
           | Some j \<Rightarrow> v\<lparr>hi_trx := j, hi_tx_count := Size j\<rparr>))"

text \<open>\<open>data_dir\<close> and \<open>cache_dir\<close>: the directory exists or could be created; \<open>opened\<close>: the database, if it
  could be opened.  An exception of the address check leaves the database open and the cache stopped.\<close>

definition history_start :: "'k openssl \<Rightarrow> (string \<Rightarrow> json option) \<Rightarrow> bool \<Rightarrow> bool \<Rightarrow> db option \<Rightarrow> string list \<Rightarrow>
    history_cache \<Rightarrow> bool \<times> history_cache" where
  "history_start ssl Parse data_dir cache_dir opened history_cache_addrs c =
     (if \<not> data_dir \<or> \<not> cache_dir then (False, c)
      else case opened of
             None \<Rightarrow> (False, c)
           | Some d \<Rightarrow>
               let c = c\<lparr>hc_db := Some d\<rparr>
               in case valid_infos ssl history_cache_addrs of
                    Inl _ \<Rightarrow> (False, c)
                  | Inr infos \<Rightarrow>
                      let addrs = hc_addrs c @ infos
                      in if addrs = [] then (False, c)
                         else (True, c\<lparr>hc_addrs := map (load_info Parse d) addrs\<rparr>))"

definition history_stop :: "history_cache \<Rightarrow> history_cache" where
  "history_stop c = c\<lparr>hc_run := False\<rparr>"

definition history_runing :: "history_cache \<Rightarrow> bool" where
  "history_runing c = hc_run c"

section \<open>Writing\<close>

definition save_transaction :: "(json \<Rightarrow> string) \<Rightarrow> (string \<Rightarrow> string \<Rightarrow> bool) \<Rightarrow> string \<Rightarrow> json \<Rightarrow> db option \<Rightarrow> bool \<times> db option" where
  "save_transaction Print write_ok name trx d =
     (case d of
        None \<Rightarrow> (False, d)
      | Some m \<Rightarrow> (case db_put write_ok name (Print trx) m of (ok, m) \<Rightarrow> (ok, Some m)))"

definition save_history :: "(json \<Rightarrow> string) \<Rightarrow> (string \<Rightarrow> string \<Rightarrow> bool) \<Rightarrow> hist_info \<Rightarrow> db option \<Rightarrow> bool \<times> db option" where
  "save_history Print write_ok hi d =
     (case d of
        None \<Rightarrow> (False, d)
      | Some m \<Rightarrow> (case db_put write_ok (hi_addr hi) (Print (hi_trx hi)) m of (ok, m) \<Rightarrow> (ok, Some m)))"

section \<open>One round of the worker over an address\<close>

text \<open>The checks on a response that \<^verbatim>\<open>fetch-balance\<close> and \<^verbatim>\<open>fetch-history\<close> share.\<close>

definition checked_response :: "(string \<Rightarrow> json option) \<Rightarrow> string option \<Rightarrow> json option" where
  "checked_response Parse response =
     (case response of
        None \<Rightarrow> None
      | Some body \<Rightarrow>
          if body = [] then None
          else case Parse body of
                 None \<Rightarrow> None
               | Some doc \<Rightarrow> (case get_error doc of Some _ \<Rightarrow> None | None \<Rightarrow> get_result doc))"

text \<open>A page of transactions: one that is known, or cannot be saved, is passed over.\<close>

fun store_page :: "(json \<Rightarrow> string) \<Rightarrow> (string \<Rightarrow> string \<Rightarrow> bool) \<Rightarrow> json list \<Rightarrow> hist_info \<Rightarrow> db option \<Rightarrow> hist_info \<times> db option" where
  "store_page Print write_ok [] v d = (v, d)"
| "store_page Print write_ok (tx # txs) v d =
     (case FindMember ''transaction'' tx of
        None \<Rightarrow> store_page Print write_ok txs v d
      | Some it \<Rightarrow>
          if \<exists>t\<in>set (elements (hi_trx v)). strncmp_eq (GetString t) (GetString it) (case as_string t of Some s \<Rightarrow> length s | None \<Rightarrow> 0)
          then store_page Print write_ok txs v d
          else (case save_transaction Print write_ok (GetString it) tx d of
                  (False, d) \<Rightarrow> store_page Print write_ok txs v d
                | (True, d) \<Rightarrow>
                    store_page Print write_ok txs
                      (v\<lparr>hi_trx := push_back (JString (case as_string it of Some s \<Rightarrow> s | None \<Rightarrow> [])) (hi_trx v)\<rparr>) d))"

text \<open>The inner loop: the state of the address, the database and the number of answers used.  It goes on
  asking while it gets no usable answer.\<close>

partial_function (option) history_loop :: "(string \<Rightarrow> json option) \<Rightarrow> (json \<Rightarrow> string) \<Rightarrow> (string \<Rightarrow> string \<Rightarrow> bool) \<Rightarrow>
    (nat \<Rightarrow> string option) \<Rightarrow> hist_info \<Rightarrow> db option \<Rightarrow> nat \<Rightarrow> (hist_info \<times> db option \<times> nat) option" where
  "history_loop Parse Print write_ok answers v d k =
     (if hi_begin v < hi_tx_count v \<and> Size (hi_trx v) < hi_tx_count v
      then (case checked_response Parse (answers k) of
              None \<Rightarrow> history_loop Parse Print write_ok answers v d (Suc k)
            | Some res \<Rightarrow>
                (case as_array res of
                   None \<Rightarrow> history_loop Parse Print write_ok answers v d (Suc k)
                 | Some txs \<Rightarrow>
                     if txs = [] then history_loop Parse Print write_ok answers (v\<lparr>hi_begin := 0\<rparr>) d (Suc k)
                     else (case store_page Print write_ok txs v d of
                             (v, d) \<Rightarrow> history_loop Parse Print write_ok answers
                                         (v\<lparr>hi_begin := (hi_begin v + 10) mod 2 ^ 32\<rparr>) d (Suc k))))
      else Some (v, d, k))"

definition update_address :: "(string \<Rightarrow> json option) \<Rightarrow> (json \<Rightarrow> string) \<Rightarrow> (string \<Rightarrow> string \<Rightarrow> bool) \<Rightarrow>
    (nat \<Rightarrow> string option) \<Rightarrow> hist_info \<Rightarrow> db option \<Rightarrow> (hist_info \<times> db option) option" where
  "update_address Parse Print write_ok answers v d =
     (case checked_response Parse (answers 0) of
        None \<Rightarrow> Some (v, d)
      | Some res \<Rightarrow>
          (case FindMember ''count_txs'' res of
             None \<Rightarrow> Some (v, d)
           | Some cnt \<Rightarrow>
               let n = (case as_uint cnt of Some n \<Rightarrow> n | None \<Rightarrow> 0)
               in if Size (hi_trx v) = n then Some (v, d)
                  else (case history_loop Parse Print write_ok answers (v\<lparr>hi_tx_count := n, hi_begin := 0\<rparr>) d 1 of
                          None \<Rightarrow> None
                        | Some (v, d, k) \<Rightarrow> Some (v, snd (save_history Print write_ok v d)))))"

section \<open>Lookup\<close>

fun collect :: "(string \<Rightarrow> json option) \<Rightarrow> db \<Rightarrow> json list \<Rightarrow> json list" where
  "collect Parse d [] = []"
| "collect Parse d (trx # trxs) =
     (case db_get d (GetString trx) of
        None \<Rightarrow> collect Parse d trxs
      | Some str \<Rightarrow>
          if str = [] then collect Parse d trxs
          else case Parse str of None \<Rightarrow> collect Parse d trxs | Some t \<Rightarrow> t # collect Parse d trxs)"

text \<open>The transactions, or the text of the error.\<close>

definition get_history :: "(string \<Rightarrow> json option) \<Rightarrow> (string \<Rightarrow> nat) \<Rightarrow> (json \<Rightarrow> nat) \<Rightarrow> history_cache \<Rightarrow> string \<Rightarrow> string + json list" where
  "get_history Parse parse_code GetType c address =
     (let addr = map to_lower_char address
      in if addr \<notin> hi_addr ` set (hc_addrs c) then Inl ''Address is not found''
         else case hc_db c of
                None \<Rightarrow> Inl ''Database is not initialized''
              | Some d \<Rightarrow>
                  (case db_get d addr of
                     None \<Rightarrow> Inl ''Database error NotFound: ''
                   | Some str \<Rightarrow>
                       (case Parse str of
                          None \<Rightarrow> Inl (''History parse error '' @ to_string (parse_code str))
                        | Some hst \<Rightarrow>
                            (case as_array hst of
                               None \<Rightarrow> Inl (''History has different format '' @ to_string (GetType hst))
                             | Some xs \<Rightarrow> Inr (collect Parse d xs)))))"

section \<open>What is listed is stored\<close>

text \<open>Every listed transaction is a string, no two have the same name, and the database holds, under that
  name, a transaction of that name.\<close>

definition tx_name :: "json \<Rightarrow> string" where
  "tx_name tx = (case FindMember ''transaction'' tx of Some it \<Rightarrow> GetString it | None \<Rightarrow> [])"

definition listed_stored :: "(json \<Rightarrow> string) \<Rightarrow> json list \<Rightarrow> db \<Rightarrow> bool" where
  "listed_stored Print ts m \<longleftrightarrow> distinct (map GetString ts) \<and>
     (\<forall>t\<in>set ts. (\<exists>s. t = JString s) \<and> (\<exists>tx. m (GetString t) = Some (Print tx) \<and> tx_name tx = GetString t))"

lemma GetString_JString [simp]: "GetString (JString s) = c_str s"
  by (simp add: GetString_def as_string_def)

lemma c_str_length: "length (c_str s) \<le> length s"
  by (simp add: c_str_def length_takeWhile_le)

lemma c_str_idem [simp]: "c_str (c_str s) = c_str s"
  unfolding c_str_def by (induction s) (auto dest: set_takeWhileD)

lemma same_name_found:
  assumes "listed_stored Print ts m" and "t \<in> set ts" and "GetString t = GetString it"
  shows "strncmp_eq (GetString t) (GetString it) (case as_string t of Some s \<Rightarrow> length s | None \<Rightarrow> 0)"
  using assms by (auto simp: listed_stored_def strncmp_eq_def)

lemma elements_push_back [simp]: "elements (push_back v j) = elements j @ [v]"
  by (simp add: push_back_def elements_def as_array_def)

lemma listed_stored_put:
  assumes "listed_stored Print ts m" and "\<forall>t\<in>set ts. GetString t \<noteq> GetString it"
    and "tx_name tx = GetString it" and "s = (case as_string it of Some s \<Rightarrow> s | None \<Rightarrow> [])"
  shows "listed_stored Print (ts @ [JString s]) (m(GetString it \<mapsto> Print tx))"
proof -
  have "c_str s = GetString it" using assms(4) by (cases it) (simp_all add: GetString_def as_string_def c_str_def)
  then show ?thesis using assms(1-3) by (auto simp: listed_stored_def)
qed

lemma store_page_stored:
  assumes "listed_stored Print (elements (hi_trx v)) m" and "store_page Print write_ok txs v (Some m) = (v', d')"
  shows "\<exists>m'. d' = Some m' \<and> listed_stored Print (elements (hi_trx v')) m' \<and> hi_addr v' = hi_addr v \<and>
    hi_begin v' = hi_begin v \<and> hi_tx_count v' = hi_tx_count v \<and> (as_array (hi_trx v) \<noteq> None \<longrightarrow> as_array (hi_trx v') \<noteq> None)"
  using assms
proof (induction txs arbitrary: v m)
  case Nil
  then show ?case by auto
next
  case (Cons tx txs)
  show ?case
  proof (cases "FindMember ''transaction'' tx")
    case None
    then show ?thesis using Cons by simp
  next
    case (Some it)
    let ?found = "\<exists>t\<in>set (elements (hi_trx v)). strncmp_eq (GetString t) (GetString it) (case as_string t of Some s \<Rightarrow> length s | None \<Rightarrow> 0)"
    let ?v = "v\<lparr>hi_trx := push_back (JString (case as_string it of Some s \<Rightarrow> s | None \<Rightarrow> [])) (hi_trx v)\<rparr>"
    let ?m = "m(GetString it \<mapsto> Print tx)"
    show ?thesis
    proof (cases "\<not> ?found \<and> write_ok (GetString it) (Print tx)")
      case True
      then have "\<forall>t\<in>set (elements (hi_trx v)). GetString t \<noteq> GetString it"
        using same_name_found [OF Cons.prems(1)] by blast
      then have "listed_stored Print (elements (hi_trx ?v)) ?m"
        using listed_stored_put [OF Cons.prems(1)] Some by (simp add: tx_name_def)
      moreover have "store_page Print write_ok txs ?v (Some ?m) = (v', d')"
        using Cons.prems(2) True Some by (simp add: save_transaction_def db_put_def)
      ultimately have "\<exists>m'. d' = Some m' \<and> listed_stored Print (elements (hi_trx v')) m' \<and> hi_addr v' = hi_addr ?v \<and>
          hi_begin v' = hi_begin ?v \<and> hi_tx_count v' = hi_tx_count ?v \<and>
          (as_array (hi_trx ?v) \<noteq> None \<longrightarrow> as_array (hi_trx v') \<noteq> None)" by (rule Cons.IH)
      then show ?thesis by (auto simp: push_back_def as_array_def)
    next
      case False
      then have "store_page Print write_ok txs v (Some m) = (v', d')"
        using Cons.prems(2) Some by (auto simp: save_transaction_def db_put_def split: if_splits)
      then show ?thesis using Cons.IH Cons.prems(1) by blast
    qed
  qed
qed

text \<open>Every usable page moves on by ten transactions, so the loop ends.\<close>

lemma history_loop_returns:
  assumes "\<forall>j\<ge>k. \<exists>txs. checked_response Parse (answers j) = Some (JArray txs) \<and> txs \<noteq> []"
    and "hi_tx_count v + 10 < 2 ^ 32" and "listed_stored Print (elements (hi_trx v)) m"
  shows "\<exists>v' m' k'. history_loop Parse Print write_ok answers v (Some m) k = Some (v', Some m', k') \<and>
    listed_stored Print (elements (hi_trx v')) m' \<and> hi_addr v' = hi_addr v \<and> (as_array (hi_trx v) \<noteq> None \<longrightarrow> as_array (hi_trx v') \<noteq> None)"
  using assms
proof (induction "hi_tx_count v - hi_begin v" arbitrary: v m k rule: less_induct)
  case less
  show ?case
  proof (cases "hi_begin v < hi_tx_count v \<and> Size (hi_trx v) < hi_tx_count v")
    case False
    then show ?thesis using less.prems(3) by (subst history_loop.simps) auto
  next
    case True
    obtain txs where txs: "checked_response Parse (answers k) = Some (JArray txs)" "txs \<noteq> []" using less.prems(1) by blast
    obtain v1 d1 where p: "store_page Print write_ok txs v (Some m) = (v1, d1)" by (cases "store_page Print write_ok txs v (Some m)")
    obtain m1 where m1: "d1 = Some m1" "listed_stored Print (elements (hi_trx v1)) m1" "hi_addr v1 = hi_addr v"
      "hi_begin v1 = hi_begin v" "hi_tx_count v1 = hi_tx_count v" "as_array (hi_trx v) \<noteq> None \<longrightarrow> as_array (hi_trx v1) \<noteq> None"
      using store_page_stored [OF less.prems(3) p] by auto
    let ?v = "v1\<lparr>hi_begin := (hi_begin v1 + 10) mod 2 ^ 32\<rparr>"
    have b: "hi_begin ?v = hi_begin v + 10" using True less.prems(2) m1 by simp
    have "\<exists>v' m' k'. history_loop Parse Print write_ok answers ?v (Some m1) (Suc k) = Some (v', Some m', k') \<and>
        listed_stored Print (elements (hi_trx v')) m' \<and> hi_addr v' = hi_addr ?v \<and>
        (as_array (hi_trx ?v) \<noteq> None \<longrightarrow> as_array (hi_trx v') \<noteq> None)"
      by (rule less.hyps) (use b True m1 less.prems(1,2) in auto)
    then show ?thesis
      using True txs p m1 by (subst history_loop.simps) (auto simp: as_array_def)
  qed
qed

definition json_text_laws :: "(string \<Rightarrow> json option) \<Rightarrow> (json \<Rightarrow> string) \<Rightarrow> bool" where
  "json_text_laws Parse Print \<longleftrightarrow> (\<forall>j. Parse (Print j) = Some j \<and> Print j \<noteq> [])"

lemma collect_listed:
  assumes "json_text_laws Parse Print" and "\<forall>t\<in>set ts. \<exists>tx. m (GetString t) = Some (Print tx) \<and> tx_name tx = GetString t"
  shows "map tx_name (collect Parse m ts) = map GetString ts"
  using assms(2)
proof (induction ts)
  case (Cons t ts)
  then obtain tx where "m (GetString t) = Some (Print tx)" "tx_name tx = GetString t" by auto
  then show ?case using Cons assms(1) by (simp add: json_text_laws_def db_get_def)
qed simp

text \<open>Documents as text, for the examples: the number of a document among all documents.\<close>

instance json :: countable
  by countable_datatype

definition sample_Print :: "json \<Rightarrow> string" where
  "sample_Print j = to_string (to_nat j)"

definition sample_Parse :: "string \<Rightarrow> json option" where
  "sample_Parse s = Some (from_nat (dec_value s))"

lemma sample_text_laws: "json_text_laws sample_Parse sample_Print"
  by (simp add: json_text_laws_def sample_Parse_def sample_Print_def)

section \<open>Properties\<close>



end
