(* ===== verification/Socket_Pool.thy ===== *)
theory Socket_Pool
  imports Prelude "HOL-Library.Multiset"
begin

text \<open>
  The connection pool of \<^verbatim>\<open>src/src/connection_pool.{h,cpp}\<close>.  The two lists hold the idle connections and
  those a request has taken.  A \<^verbatim>\<open>pool_object\<close> is an iterator into the busy list: here the identity of a
  list node, \<^term>\<open>None\<close> for \<^verbatim>\<open>m_busy.end()\<close> and for an iterator that was never set.  Splicing keeps the node.
  Every operation holds \<^verbatim>\<open>m_lock\<close>, so an operation is one step.  Times are in nanoseconds, the resolution
  of the clock.
\<close>

section \<open>The pool\<close>

record ep_descr =
  node :: nat
  ep :: string
  socket :: int
  ttl :: int

type_synonym pool_object = "nat option"

record socket_pool =
  m_ready :: "ep_descr list"
  m_busy :: "ep_descr list"
  m_capacity :: nat
  m_enable :: bool
  next_node :: nat

definition new_ep :: "nat \<Rightarrow> string \<Rightarrow> ep_descr" where
  "new_ep n host = \<lparr>node = n, ep = c_str host, socket = -1, ttl = 0\<rparr>"

definition new_pool :: "nat \<Rightarrow> socket_pool" where
  "new_pool conn_pool_capacity =
     \<lparr>m_ready = [], m_busy = [], m_capacity = conn_pool_capacity, m_enable = False, next_node = 0\<rparr>"

definition set_enable :: "bool \<Rightarrow> socket_pool \<Rightarrow> socket_pool" where
  "set_enable value P = P\<lparr>m_enable := value\<rparr>"

definition set_capacity :: "nat \<Rightarrow> socket_pool \<Rightarrow> socket_pool" where
  "set_capacity value P = P\<lparr>m_capacity := value\<rparr>"

definition unlink :: "nat \<Rightarrow> ep_descr list \<Rightarrow> ep_descr list" where
  "unlink n ds = filter (\<lambda>d. node d \<noteq> n) ds"

text \<open>\<^verbatim>\<open>checkout\<close>: the first idle connection to the host, else a new entry without a socket while there is
  room; the exception of a disabled pool is caught and gives \<^verbatim>\<open>m_busy.end()\<close>.\<close>

definition checkout :: "string \<Rightarrow> socket_pool \<Rightarrow> socket_pool \<times> pool_object" where
  "checkout host P =
     (if \<not> m_enable P then (P, None)
      else case find (\<lambda>d. ep d = host) (m_ready P) of
        Some d \<Rightarrow> (P\<lparr>m_ready := unlink (node d) (m_ready P), m_busy := d # m_busy P\<rparr>, Some (node d))
      | None \<Rightarrow>
          if m_capacity P > length (m_busy P) + length (m_ready P)
          then (P\<lparr>m_busy := new_ep (next_node P) host # m_busy P, next_node := Suc (next_node P)\<rparr>, Some (next_node P))
          else (P, None))"

definition checkin :: "int \<Rightarrow> nat \<Rightarrow> pool_object \<Rightarrow> socket_pool \<Rightarrow> socket_pool" where
  "checkin now conn_pool_ttl value P =
     (case find (\<lambda>d. Some (node d) = value) (m_busy P) of
        None \<Rightarrow> P
      | Some d \<Rightarrow>
          if socket d = -1 then P\<lparr>m_busy := unlink (node d) (m_busy P)\<rparr>
          else P\<lparr>m_busy := unlink (node d) (m_busy P),
                 m_ready := d\<lparr>ttl := now + int conn_pool_ttl * 10 ^ 9\<rparr> # m_ready P\<rparr>)"

definition valid :: "pool_object \<Rightarrow> bool" where
  "valid value \<longleftrightarrow> value \<noteq> None"

definition get_ready_size :: "socket_pool \<Rightarrow> nat" where
  "get_ready_size P = length (m_ready P)"

definition get_busy_size :: "socket_pool \<Rightarrow> nat" where
  "get_busy_size P = length (m_busy P)"

text \<open>One pass of the monitor: idle connections whose time has come are closed and removed.  The pass also
  gives the handles it closed; \<open>assign_ec\<close> tells which handles the system refuses.\<close>

definition expire :: "(int \<Rightarrow> bool) \<Rightarrow> int \<Rightarrow> socket_pool \<Rightarrow> socket_pool \<times> int list" where
  "expire assign_ec now P =
     (let del = filter (\<lambda>d. \<not> now < ttl d) (m_ready P)
      in (P\<lparr>m_ready := filter (\<lambda>d. now < ttl d) (m_ready P)\<rparr>,
          map socket (filter (\<lambda>d. socket d \<noteq> -1 \<and> \<not> assign_ec (socket d)) del)))"

text \<open>The loop of the monitor: it sleeps until the next pass is due, every thirty seconds.\<close>

definition routine_round :: "(int \<Rightarrow> bool) \<Rightarrow> int \<Rightarrow> int \<times> socket_pool \<Rightarrow> int \<times> socket_pool" where
  "routine_round assign_ec now = (\<lambda>(tp, P).
     if now < tp then (tp, P) else (now + 30 * 10 ^ 9, fst (expire assign_ec now P)))"

definition cleanup :: "(int \<Rightarrow> bool) \<Rightarrow> socket_pool \<Rightarrow> socket_pool \<times> int list" where
  "cleanup assign_ec P =
     (P\<lparr>m_busy := [], m_ready := []\<rparr>,
      map socket (filter (\<lambda>d. socket d \<noteq> -1 \<and> \<not> assign_ec (socket d)) (m_busy P @ m_ready P)))"

definition pool_start :: "socket_pool \<Rightarrow> socket_pool" where
  "pool_start P = set_enable True P"

text \<open>\<^verbatim>\<open>stop\<close> disables the pool and waits for the monitor, which cleans up when its loop ends.\<close>

definition pool_stop :: "(int \<Rightarrow> bool) \<Rightarrow> socket_pool \<Rightarrow> socket_pool" where
  "pool_stop assign_ec P = (if m_enable P then fst (cleanup assign_ec (set_enable False P)) else P)"

text \<open>\<^verbatim>\<open>value->socket = s\<close> by the request that holds the entry.\<close>

definition set_socket :: "nat \<Rightarrow> int \<Rightarrow> socket_pool \<Rightarrow> socket_pool" where
  "set_socket n s P = P\<lparr>m_busy := map (\<lambda>d. if node d = n then d\<lparr>socket := s\<rparr> else d) (m_busy P)\<rparr>"

definition held_socket :: "nat \<Rightarrow> socket_pool \<Rightarrow> int option" where
  "held_socket n P = map_option socket (find (\<lambda>d. node d = n) (m_busy P))"

section \<open>The invariant\<close>

definition nodes :: "ep_descr list \<Rightarrow> nat set" where
  "nodes ds = node ` set ds"

definition pool_inv :: "socket_pool \<Rightarrow> bool" where
  "pool_inv P \<longleftrightarrow> distinct (map node (m_busy P @ m_ready P)) \<and> (\<forall>d\<in>set (m_busy P @ m_ready P). node d < next_node P) \<and>
     (\<forall>d\<in>set (m_ready P). socket d \<noteq> -1) \<and> length (m_busy P) + length (m_ready P) \<le> m_capacity P"

lemma nodes_simps [simp]: "nodes [] = {}" "nodes (d # ds) = insert (node d) (nodes ds)" "nodes (xs @ ys) = nodes xs \<union> nodes ys"
  by (auto simp: nodes_def)

lemma nodes_unlink [simp]: "nodes (unlink n ds) = nodes ds - {n}"
  by (auto simp: nodes_def unlink_def)

lemma node_in_nodes: "d \<in> set ds \<Longrightarrow> node d \<in> nodes ds"
  by (simp add: nodes_def)

lemma set_unlink [simp]: "set (unlink n ds) = {d \<in> set ds. node d \<noteq> n}"
  by (auto simp: unlink_def)

lemma distinct_unlink: "distinct (map node ds) \<Longrightarrow> distinct (map node (unlink n ds))"
  by (simp add: unlink_def distinct_map_filter)

lemma find_in: "find P xs = Some x \<Longrightarrow> x \<in> set xs \<and> P x"
  by (auto simp: find_Some_iff)

lemma find_node: "distinct (map node ds) \<Longrightarrow> d \<in> set ds \<Longrightarrow> find (\<lambda>x. node x = node d) ds = Some d"
  by (induction ds) auto

lemma unlink_mset:
  assumes "distinct (map node ds)" and "d \<in> set ds"
  shows "mset ds = add_mset d (mset (unlink (node d) ds))"
  using assms
proof (induction ds)
  case (Cons x ds)
  have "unlink (node x) ds = ds" if "node x \<notin> node ` set ds"
    using that by (auto simp: unlink_def image_iff filter_id_conv)
  then show ?case using Cons by (cases "d = x") (auto simp: unlink_def)
qed simp

lemma length_unlink:
  "distinct (map node ds) \<Longrightarrow> d \<in> set ds \<Longrightarrow> length ds = Suc (length (unlink (node d) ds))"
  using unlink_mset [of ds d] by (metis size_mset size_add_mset)

lemma pool_inv_new: "pool_inv (new_pool c)"
  by (simp add: pool_inv_def new_pool_def)

section \<open>What the operations keep\<close>

text \<open>\<open>checkout\<close> by its three outcomes.\<close>

lemma checkout_cases:
  assumes "checkout host P = (P', v)"
  obtains (refused) "P' = P" "v = None" "\<not> m_enable P \<or> (\<forall>d\<in>set (m_ready P). ep d \<noteq> host) \<and> m_capacity P \<le> length (m_busy P) + length (m_ready P)"
  | (reused) d where "m_enable P" "d \<in> set (m_ready P)" "ep d = host" "v = Some (node d)" "find (\<lambda>d. ep d = host) (m_ready P) = Some d"
      "P' = P\<lparr>m_ready := unlink (node d) (m_ready P), m_busy := d # m_busy P\<rparr>"
  | (opened) "m_enable P" "\<forall>d\<in>set (m_ready P). ep d \<noteq> host" "v = Some (next_node P)" "length (m_busy P) + length (m_ready P) < m_capacity P"
      "P' = P\<lparr>m_busy := new_ep (next_node P) host # m_busy P, next_node := Suc (next_node P)\<rparr>"
proof (cases "m_enable P")
  case False
  with assms have "P' = P" "v = None" by (auto simp: checkout_def)
  with False show thesis by (intro refused) simp_all
next
  case True
  show thesis
  proof (cases "find (\<lambda>d. ep d = host) (m_ready P)")
    case None
    then have none: "\<forall>d\<in>set (m_ready P). ep d \<noteq> host" by (simp add: find_None_iff)
    show thesis
    proof (cases "length (m_busy P) + length (m_ready P) < m_capacity P")
      case room: True
      with True None assms show thesis by (intro opened [OF True none]) (auto simp: checkout_def)
    next
      case False
      with True None assms none show thesis by (intro refused) (auto simp: checkout_def)
    qed
  next
    case (Some d)
    with True assms find_in [OF Some] show thesis by (intro reused [of d]) (auto simp: checkout_def)
  qed
qed

lemma checkout_inv: "pool_inv P \<Longrightarrow> checkout host P = (P', v) \<Longrightarrow> pool_inv P'"
proof (elim checkout_cases)
  fix d
  assume inv: "pool_inv P" and d: "d \<in> set (m_ready P)"
    and P': "P' = P\<lparr>m_ready := unlink (node d) (m_ready P), m_busy := d # m_busy P\<rparr>"
  have "distinct (map node (m_ready P))" using inv by (simp add: pool_inv_def)
  from length_unlink [OF this d] distinct_unlink [OF this, of "node d"] inv d show "pool_inv P'"
    by (auto simp: pool_inv_def P')
next
  assume "pool_inv P" and "length (m_busy P) + length (m_ready P) < m_capacity P"
    and "P' = P\<lparr>m_busy := new_ep (next_node P) host # m_busy P, next_node := Suc (next_node P)\<rparr>"
  then show "pool_inv P'" by (auto simp: pool_inv_def new_ep_def less_Suc_eq)
qed simp

lemma checkin_cases:
  obtains (unknown) "checkin now t v P = P" "\<forall>d\<in>set (m_busy P). Some (node d) \<noteq> v"
  | (dropped) d where "d \<in> set (m_busy P)" "v = Some (node d)" "socket d = -1"
      "checkin now t v P = P\<lparr>m_busy := unlink (node d) (m_busy P)\<rparr>"
  | (returned) d where "d \<in> set (m_busy P)" "v = Some (node d)" "socket d \<noteq> -1"
      "checkin now t v P = P\<lparr>m_busy := unlink (node d) (m_busy P),
         m_ready := d\<lparr>ttl := now + int t * 10 ^ 9\<rparr> # m_ready P\<rparr>"
proof (cases "find (\<lambda>d. Some (node d) = v) (m_busy P)")
  case None
  then have "checkin now t v P = P" by (simp add: checkin_def)
  then show thesis using None by (intro unknown) (simp_all add: find_None_iff)
next
  case (Some d)
  from find_in [OF this] have "d \<in> set (m_busy P)" "v = Some (node d)" by auto
  with Some show thesis
    by (cases "socket d = -1") (intro dropped [of d] returned [of d]; simp add: checkin_def)+
qed

lemma checkin_inv: "pool_inv P \<Longrightarrow> pool_inv (checkin now t v P)"
proof (cases rule: checkin_cases [of now t v P])
  case (dropped d)
  moreover assume "pool_inv P"
  moreover from this have "distinct (map node (m_busy P))" by (simp add: pool_inv_def)
  ultimately show ?thesis using length_unlink [of "m_busy P" d] distinct_unlink [of "m_busy P" "node d"]
    by (auto simp: pool_inv_def)
next
  case (returned d)
  moreover assume inv: "pool_inv P"
  moreover from this have "distinct (map node (m_busy P))" by (simp add: pool_inv_def)
  moreover have "node d \<notin> node ` set (m_ready P)" using inv returned(1) by (auto simp: pool_inv_def)
  ultimately show ?thesis using length_unlink [of "m_busy P" d] distinct_unlink [of "m_busy P" "node d"]
    by (auto simp: pool_inv_def)
qed simp

lemma expire_inv: "pool_inv P \<Longrightarrow> pool_inv (fst (expire ec now P))"
  by (auto simp: pool_inv_def expire_def distinct_map_filter)
    (meson add_left_mono le_trans length_filter_le)

lemma map_node_set_socket: "map node (m_busy (set_socket n s P)) = map node (m_busy P)"
  by (auto simp: set_socket_def)

lemma set_socket_inv: "pool_inv P \<Longrightarrow> pool_inv (set_socket n s P)"
proof -
  assume inv: "pool_inv P"
  have "distinct (map node (m_busy (set_socket n s P) @ m_ready P))"
    unfolding map_append map_node_set_socket using inv by (simp add: pool_inv_def)
  with inv show ?thesis by (auto simp: pool_inv_def set_socket_def split: if_splits)
qed

lemma cleanup_inv: "pool_inv P \<Longrightarrow> pool_inv (fst (cleanup ec P))"
  by (simp add: pool_inv_def cleanup_def)

lemmas pool_inv_intros = checkout_inv checkin_inv expire_inv set_socket_inv cleanup_inv

section \<open>Clients of the pool\<close>

text \<open>
  Any number of requests use the pool at once.  A state is the pool with the objects the requests hold; a
  step is one operation of one of them, or a pass of the monitor.
\<close>

type_synonym pool_system = "socket_pool \<times> nat list"

datatype pool_event = Checkout string pool_object | Assign nat int | Checkin nat | Monitor | Enable bool

inductive pool_step :: "pool_system \<Rightarrow> pool_event \<Rightarrow> pool_system \<Rightarrow> bool" where
  take: "checkout host P = (P', Some n) \<Longrightarrow> pool_step (P, held) (Checkout host (Some n)) (P', n # held)"
| refuse: "checkout host P = (P', None) \<Longrightarrow> pool_step (P, held) (Checkout host None) (P', held)"
| update: "n \<in> set held \<Longrightarrow> pool_step (P, held) (Assign n s) (set_socket n s P, held)"
| give: "n \<in> set held \<Longrightarrow> pool_step (P, held) (Checkin n) (checkin now t (Some n) P, remove1 n held)"
| monitor: "pool_step (P, held) Monitor (fst (expire ec now P), held)"
| enabling: "pool_step (P, held) (Enable value) (set_enable value P, held)"

definition system_inv :: "nat \<Rightarrow> pool_system \<Rightarrow> bool" where
  "system_inv c = (\<lambda>(P, held). pool_inv P \<and> m_capacity P = c \<and> distinct held \<and> set held = nodes (m_busy P))"

lemma checkout_capacity: "checkout host P = (P', v) \<Longrightarrow> m_capacity P' = m_capacity P"
  by (elim checkout_cases) simp_all

lemma checkin_capacity [simp]: "m_capacity (checkin now t v P) = m_capacity P"
  by (cases rule: checkin_cases [of now t v P]) simp_all

lemma nodes_checkin: "nodes (m_busy (checkin now t (Some n) P)) = nodes (m_busy P) - {n}"
  by (cases rule: checkin_cases [of now t "Some n" P]) (auto simp: nodes_def)

lemma nodes_set_socket [simp]: "nodes (m_busy (set_socket n s P)) = nodes (m_busy P)"
  using map_node_set_socket [of n s P] by (metis list.set_map nodes_def)

lemma pool_fields [simp]:
  "m_capacity (set_socket n s P) = m_capacity P" "m_capacity (fst (expire ec now P)) = m_capacity P"
  "m_busy (fst (expire ec now P)) = m_busy P" "m_capacity (set_enable b P) = m_capacity P"
  "m_busy (set_enable b P) = m_busy P" "pool_inv (set_enable b P) = pool_inv P"
  by (simp_all add: set_socket_def expire_def set_enable_def pool_inv_def)

lemma take_inv:
  assumes "system_inv c (P, held)" and "checkout host P = (P', Some n)"
  shows "system_inv c (P', n # held)"
proof -
  have P': "pool_inv P'" using assms by (auto simp: system_inv_def intro: checkout_inv)
  show ?thesis using assms(2)
  proof (cases rule: checkout_cases)
    case (reused d)
    have "node d \<notin> nodes (m_busy P)" using assms(1) reused(2) by (auto simp: system_inv_def pool_inv_def nodes_def)
    with reused assms P' show ?thesis by (simp add: system_inv_def)
  next
    case opened
    have "next_node P \<notin> nodes (m_busy P)" using assms(1) by (auto simp: system_inv_def pool_inv_def nodes_def)
    with opened assms P' show ?thesis by (simp add: system_inv_def new_ep_def)
  qed simp
qed

lemma step_inv: "pool_step S ev S' \<Longrightarrow> system_inv c S \<Longrightarrow> system_inv c S'"
proof (induction rule: pool_step.induct)
  case (take host P P' n held)
  then show ?case by (rule take_inv [rotated])
next
  case (refuse host P P' held)
  then show ?case by (auto elim: checkout_cases)
next
  case (give n held P now t)
  then show ?case by (simp add: system_inv_def nodes_checkin checkin_inv)
qed (simp_all add: system_inv_def pool_inv_intros)

lemma new_system_inv: "system_inv c (new_pool c, [])"
  using pool_inv_new by (simp add: system_inv_def new_pool_def)

section \<open>Leases\<close>

text \<open>
  What the pool promises, without lists and nodes: a bag of idle connections (host and handle) and the
  leases handed out.  A lease is taken from the idle connections of the host, or opened when there is none
  and room; a returned connection is idle again unless it is closed.
\<close>

record leases =
  idle :: "(string \<times> int) multiset"
  leased :: "nat \<rightharpoonup> string \<times> int"
  limit :: nat
  working :: bool

inductive lease_step :: "leases \<Rightarrow> pool_event \<Rightarrow> leases \<Rightarrow> bool" where
  reuse: "working L \<Longrightarrow> (h, s) \<in># idle L \<Longrightarrow> n \<notin> dom (leased L) \<Longrightarrow>
    lease_step L (Checkout h (Some n)) (L\<lparr>idle := idle L - {#(h, s)#}, leased := (leased L)(n \<mapsto> (h, s))\<rparr>)"
| fresh: "working L \<Longrightarrow> h \<notin> fst ` set_mset (idle L) \<Longrightarrow> n \<notin> dom (leased L) \<Longrightarrow>
    card (dom (leased L)) + size (idle L) < limit L \<Longrightarrow>
    lease_step L (Checkout h (Some n)) (L\<lparr>leased := (leased L)(n \<mapsto> (c_str h, -1))\<rparr>)"
| full: "\<not> working L \<or> h \<notin> fst ` set_mset (idle L) \<and> limit L \<le> card (dom (leased L)) + size (idle L) \<Longrightarrow>
    lease_step L (Checkout h None) L"
| assigned: "leased L n = Some (h, s') \<Longrightarrow> lease_step L (Assign n s) (L\<lparr>leased := (leased L)(n \<mapsto> (h, s))\<rparr>)"
| closed: "leased L n = Some (h, -1) \<Longrightarrow> lease_step L (Checkin n) (L\<lparr>leased := (leased L)(n := None)\<rparr>)"
| returned: "leased L n = Some (h, s) \<Longrightarrow> s \<noteq> -1 \<Longrightarrow>
    lease_step L (Checkin n) (L\<lparr>leased := (leased L)(n := None), idle := add_mset (h, s) (idle L)\<rparr>)"
| expired: "M \<subseteq># idle L \<Longrightarrow> lease_step L Monitor (L\<lparr>idle := M\<rparr>)"
| switched: "lease_step L (Enable b) (L\<lparr>working := b\<rparr>)"

definition connection :: "ep_descr \<Rightarrow> string \<times> int" where
  "connection d = (ep d, socket d)"

definition leases_of :: "socket_pool \<Rightarrow> leases" where
  "leases_of P = \<lparr>idle = image_mset connection (mset (m_ready P)),
     leased = map_of (map (\<lambda>d. (node d, connection d)) (m_busy P)), limit = m_capacity P, working = m_enable P\<rparr>"

lemma connection_ttl: "connection (d\<lparr>ttl := t\<rparr>) = (ep d, socket d)"
  by (simp add: connection_def)

lemma leased_dom: "dom (leased (leases_of P)) = nodes (m_busy P)"
  by (auto simp: leases_of_def nodes_def dom_map_of_conv_image_fst image_image)

lemma card_leased: "pool_inv P \<Longrightarrow> card (dom (leased (leases_of P))) = length (m_busy P)"
  using distinct_card [of "map node (m_busy P)"] by (simp add: leased_dom nodes_def pool_inv_def)

lemma leased_busy:
  "pool_inv P \<Longrightarrow> d \<in> set (m_busy P) \<Longrightarrow> leased (leases_of P) (node d) = Some (connection d)"
  by (auto simp: leases_of_def pool_inv_def comp_def intro!: map_of_is_SomeI)

lemma map_of_unlink:
  "map_of (map (\<lambda>d. (node d, connection d)) (unlink n ds)) = (map_of (map (\<lambda>d. (node d, connection d)) ds))(n := None)"
  by (induction ds) (auto simp: unlink_def)

lemma map_of_set_socket:
  "map_of (map (\<lambda>d. (node d, connection d)) (map (\<lambda>d. if node d = n then d\<lparr>socket := s\<rparr> else d) ds)) k =
    map_option (\<lambda>(h, s'). (h, if k = n then s else s')) (map_of (map (\<lambda>d. (node d, connection d)) ds) k)"
  by (induction ds) (auto simp: connection_def)

lemma leases_set_socket:
  assumes "leased (leases_of P) n = Some (h, s')"
  shows "leases_of (set_socket n s P) = leases_of P\<lparr>leased := (leased (leases_of P))(n \<mapsto> (h, s))\<rparr>"
proof -
  have "leased (leases_of (set_socket n s P)) k = ((leased (leases_of P))(n \<mapsto> (h, s))) k" for k
    using assms by (auto simp: leases_of_def set_socket_def map_of_set_socket map_option_case simp del: map_map split: option.split)
  then have "leased (leases_of (set_socket n s P)) = (leased (leases_of P))(n \<mapsto> (h, s))" ..
  then show ?thesis by (simp add: leases_of_def set_socket_def)
qed

lemma checkout_refines:
  assumes inv: "pool_inv P" and out: "checkout host P = (P', v)"
  shows "lease_step (leases_of P) (Checkout host v) (leases_of P')"
  using out
proof (cases rule: checkout_cases)
  case refused
  then show ?thesis using card_leased [OF inv]
    by (auto intro!: lease_step.full simp: leases_of_def connection_def image_image)
next
  case (reused d)
  have "leases_of P' = leases_of P\<lparr>idle := idle (leases_of P) - {#(host, socket d)#},
      leased := (leased (leases_of P))(node d \<mapsto> (host, socket d))\<rparr>"
    using reused inv unlink_mset [of "m_ready P" d] by (simp add: leases_of_def pool_inv_def connection_def)
  moreover have "node d \<notin> nodes (m_busy P)" using inv reused(2) by (auto simp: pool_inv_def nodes_def)
  moreover have "(host, socket d) \<in># idle (leases_of P)" using reused by (force simp: leases_of_def connection_def)
  ultimately show ?thesis using reused(1,4) lease_step.reuse [of "leases_of P" host "socket d" "node d"]
    by (simp add: leased_dom) (simp add: leases_of_def)
next
  case opened
  have "leases_of P' = leases_of P\<lparr>leased := (leased (leases_of P))(next_node P \<mapsto> (c_str host, -1))\<rparr>"
    using opened by (simp add: leases_of_def connection_def new_ep_def)
  moreover have "next_node P \<notin> nodes (m_busy P)" using inv by (auto simp: pool_inv_def nodes_def)
  moreover have "host \<notin> fst ` set_mset (idle (leases_of P))" using opened by (auto simp: leases_of_def connection_def)
  ultimately show ?thesis using opened card_leased [OF inv] lease_step.fresh [of "leases_of P" host "next_node P"]
    by (simp add: leased_dom) (simp add: leases_of_def)
qed

lemma checkin_refines:
  assumes inv: "pool_inv P" and n: "n \<in> nodes (m_busy P)"
  shows "lease_step (leases_of P) (Checkin n) (leases_of (checkin now t (Some n) P))"
proof (cases rule: checkin_cases [of now t "Some n" P])
  case unknown
  then show ?thesis using n by (auto simp: nodes_def)
next
  case (dropped d)
  then have "leases_of (checkin now t (Some n) P) = leases_of P\<lparr>leased := (leased (leases_of P))(n := None)\<rparr>"
    by (simp add: leases_of_def map_of_unlink)
  then show ?thesis using lease_step.closed [of "leases_of P" n "ep d"] leased_busy [OF inv dropped(1)] dropped
    by (simp add: connection_def)
next
  case (returned d)
  then have "leases_of (checkin now t (Some n) P) = leases_of P\<lparr>leased := (leased (leases_of P))(n := None),
      idle := add_mset (ep d, socket d) (idle (leases_of P))\<rparr>"
    by (simp add: leases_of_def map_of_unlink connection_ttl)
  then show ?thesis using lease_step.returned [of "leases_of P" n "ep d" "socket d"] leased_busy [OF inv returned(1)] returned
    by (simp add: connection_def)
qed

lemma step_refines:
  assumes "pool_step (P, held) ev (P', held')" and "system_inv c (P, held)"
  shows "lease_step (leases_of P) ev (leases_of P')"
  using assms
proof (cases rule: pool_step.cases)
  case (update n s)
  with assms(2) obtain d where d: "d \<in> set (m_busy P)" "node d = n" by (auto simp: system_inv_def nodes_def)
  have inv: "pool_inv P" using assms(2) by (simp add: system_inv_def)
  have "leased (leases_of P) n = Some (ep d, socket d)" using leased_busy [OF inv d(1)] d(2) by (simp add: connection_def)
  with update show ?thesis using leases_set_socket lease_step.assigned by metis
next
  case (monitor ec now)
  have "leases_of P' = leases_of P\<lparr>idle := image_mset connection (mset (filter (\<lambda>d. now < ttl d) (m_ready P)))\<rparr>"
    using monitor by (simp add: leases_of_def expire_def)
  moreover have "image_mset connection (mset (filter (\<lambda>d. now < ttl d) (m_ready P))) \<subseteq># idle (leases_of P)"
    by (simp add: leases_of_def image_mset_subseteq_mono)
  ultimately show ?thesis using monitor lease_step.expired by metis
next
  case (enabling b)
  then have "leases_of P' = leases_of P\<lparr>working := b\<rparr>" by (simp add: leases_of_def set_enable_def)
  then show ?thesis using enabling lease_step.switched by simp
qed (auto simp: system_inv_def intro: checkout_refines checkin_refines)

interpretation pool: refining pool_step "system_inv c" lease_step "\<lambda>S. leases_of (fst S)" for c
  by unfold_locales (auto intro: step_inv step_refines)

lemma returned_connection_reused:
  assumes "pool_inv P" and "m_enable P" and "d \<in> set (m_busy P)" and "socket d \<noteq> -1"
  shows "snd (checkout (ep d) (checkin now t (Some (node d)) P)) = Some (node d)"
    and "held_socket (node d) (fst (checkout (ep d) (checkin now t (Some (node d)) P))) = Some (socket d)"
proof -
  have "find (\<lambda>x. Some (node x) = Some (node d)) (m_busy P) = Some d"
    using find_node [of "m_busy P" d] assms(1,3) by (simp add: pool_inv_def)
  then show "snd (checkout (ep d) (checkin now t (Some (node d)) P)) = Some (node d)"
    and "held_socket (node d) (fst (checkout (ep d) (checkin now t (Some (node d)) P))) = Some (socket d)"
    using assms by (simp_all add: checkin_def checkout_def held_socket_def)
qed

section \<open>Properties\<close>

text \<open>C16: the pool of connections implements a bag of leases: whatever the requests and the monitor do, every
  operation is one the specification allows with the same outcome.  A connection is handed out from the idle
  ones of the host whenever there is one, a new one is opened only below the limit, a request is refused only
  at the limit or with the pool switched off, and a returned connection becomes idle exactly if it is open.\<close>

theorem pool_refines_leases:
  assumes "run pool_step (new_pool c, []) es (P, held)"
  shows "run lease_step (leases_of (new_pool c)) es (leases_of P)"
  using pool.run_refines [OF assms new_system_inv] by simp

text \<open>C17: at any moment the connections number at most the capacity, every connection a request holds is held by
  that request alone and is in no list of idle ones, and every idle connection is open.\<close>

theorem connections_exclusive:
  assumes "run pool_step (new_pool c, []) es (P, held)"
  shows "get_ready_size P + get_busy_size P \<le> c \<and> distinct held \<and> set held = nodes (m_busy P) \<and>
    nodes (m_ready P) \<inter> set held = {} \<and> (\<forall>d\<in>set (m_ready P). socket d \<noteq> -1)"
  using pool.run_keeps [OF assms new_system_inv]
  by (auto simp: system_inv_def pool_inv_def get_ready_size_def get_busy_size_def nodes_def)

definition sample_events :: "pool_event list" where
  "sample_events = [Enable True, Checkout ''n'' (Some 0), Assign 0 7, Checkin 0, Checkout ''n'' (Some 0)]"

lemma sample_run:
  "run pool_step (new_pool 1, []) sample_events
     (\<lparr>m_ready = [], m_busy = [\<lparr>node = 0, ep = ''n'', socket = 7, ttl = 60000000005\<rparr>], m_capacity = 1, m_enable = True, next_node = 1\<rparr>, [0])"
proof -
  let ?P = "\<lambda>r b. \<lparr>m_ready = r, m_busy = b, m_capacity = 1, m_enable = True, next_node = 1\<rparr>"
  let ?d = "\<lambda>s t. \<lparr>node = 0, ep = ''n'', socket = s, ttl = t\<rparr>"
  have "pool_step (new_pool 1, []) (Enable True) (set_enable True (new_pool 1), [])" by (rule pool_step.enabling)
  moreover have "pool_step (set_enable True (new_pool 1), []) (Checkout ''n'' (Some 0)) (?P [] [?d (-1) 0], [0])"
    by (rule pool_step.take) (simp add: checkout_def set_enable_def new_pool_def new_ep_def c_str_def)
  moreover have "pool_step (?P [] [?d (-1) 0], [0]) (Assign 0 7) (?P [] [?d 7 0], [0])"
    using pool_step.update [of 0 "[0]" "?P [] [?d (-1) 0]" 7] by (simp add: set_socket_def)
  moreover have "pool_step (?P [] [?d 7 0], [0]) (Checkin 0) (?P [?d 7 60000000005] [], [])"
    using pool_step.give [of 0 "[0]" "?P [] [?d 7 0]" 5 60] by (simp add: checkin_def unlink_def)
  moreover have "pool_step (?P [?d 7 60000000005] [], []) (Checkout ''n'' (Some 0)) (?P [] [?d 7 60000000005], [0])"
    by (rule pool_step.take) (simp add: checkout_def unlink_def)
  ultimately show ?thesis unfolding sample_events_def by - ((rule run_Cons, assumption)+, rule run_Nil)
qed

theorem pool_refines_leases_witness:
  "\<exists>P held. run pool_step (new_pool 1, []) sample_events (P, held) \<and>
     run lease_step (leases_of (new_pool 1)) sample_events (leases_of P) \<and> leased (leases_of P) 0 = Some (''n'', 7)"
  using sample_run pool_refines_leases [OF sample_run]
  by (intro exI conjI) (assumption, assumption, simp add: leases_of_def connection_def)

theorem connections_exclusive_witness:
  "\<exists>P held. run pool_step (new_pool 1, []) sample_events (P, held) \<and> held = [0] \<and> get_busy_size P = 1 \<and>
     get_ready_size P + get_busy_size P \<le> 1"
  using sample_run connections_exclusive [OF sample_run] by (intro exI conjI) (assumption, simp_all add: get_busy_size_def)

end
