(* ===== verification/Http_Request.thy ===== *)
theory Http_Request
  imports Json_Rpc Tx_Utils Socket_Pool
begin

text \<open>
  Requests to a node: \<^verbatim>\<open>src/src/http_json_rpc_request.{h,cpp}\<close>.  A request resolves the host, connects, writes
  and reads through asynchronous operations of Boost.Asio; here the operation that is outstanding and the
  armed timer are fields of the state, and the completion of an operation or the expiry of the timer is an
  event that runs the handler of the source.  A socket is its native handle, -1 when it is closed.  The timer
  is \<^verbatim>\<open>utils::Timer\<close>, whose \<^verbatim>\<open>stop\<close> waits for a running callback: after it the timer is disarmed.
\<close>

section \<open>The request\<close>

datatype timeout = timeout_request | timeout_connection

datatype operation = Resolve | Connect | Handshake | Write | Read

text \<open>An error code: \<^term>\<open>None\<close> is success.\<close>

type_synonym error_code = "(int \<times> string) option"

definition ec_value :: "error_code \<Rightarrow> int" where
  "ec_value e = (case e of None \<Rightarrow> 0 | Some (v, _) \<Rightarrow> v)"

definition ec_message :: "error_code \<Rightarrow> string" where
  "ec_message e = (case e of None \<Rightarrow> ''Success'' | Some (_, msg) \<Rightarrow> msg)"

record http_request =
  m_host :: string
  m_host_field :: string
  m_target :: string
  m_body :: string
  m_close_field :: bool
  m_result :: json
  m_callback :: bool
  m_socket :: int
  m_ssl_socket :: int
  m_pool_obj :: pool_object
  m_attempt :: u32
  m_timeout :: u32
  m_conn_timeout :: u32
  m_attempts_count :: u32
  m_use_ssl :: bool
  m_canceled :: bool
  m_rerun :: bool
  m_io_ctx :: "bool option"
  m_timer :: "timeout option"
  m_pending :: "operation option"
  m_calls :: "json list"

text \<open>
  \<open>m_close_field\<close> is the header \<^verbatim>\<open>Connection: close\<close> of the request, \<open>m_io_ctx\<close> whether a context of its own
  is stopped, \<open>m_calls\<close> what the callback was given.  What the system answers is the argument \<open>net\<close>.
\<close>

record network =
  assign_ec :: "int \<Rightarrow> bool"
  endpoint_ec :: "int \<Rightarrow> bool"
  clock :: int
  pool_ttl :: nat

record response =
  status :: nat
  http_version :: nat
  connection_field :: "string option"
  response_keep_alive :: bool
  response_body :: string

definition set_host :: "string \<Rightarrow> http_request \<Rightarrow> http_request" where
  "set_host new_host r =
     (let e = parse_address new_host \<lparr>host = [], port = [], path = [], use_ssl = m_use_ssl r\<rparr>
      in r\<lparr>m_host := new_host, m_use_ssl := use_ssl e, m_host_field := endpoint.host e\<rparr>)"

definition http_json_rpc_request ::
  "string \<Rightarrow> bool \<Rightarrow> int \<Rightarrow> int \<Rightarrow> int \<Rightarrow> u32 \<Rightarrow> u32 \<Rightarrow> u32 \<Rightarrow> http_request" where
  "http_json_rpc_request host_name own_ctx timeout conn_timeout attempts_count jrpc_timeout jrpc_conn_timeout jrpc_attempts_count =
     (let r = \<lparr>m_host = host_name, m_host_field = [], m_target = ''/'', m_body = [], m_close_field = False, m_result = json_rpc_writer,
          m_callback = False, m_socket = -1, m_ssl_socket = -1, m_pool_obj = None, m_attempt = 0,
          m_timeout = (if timeout > 0 then of_int timeout else jrpc_timeout),
          m_conn_timeout = (if conn_timeout > 0 then of_int conn_timeout else jrpc_conn_timeout),
          m_attempts_count = (if attempts_count > 0 then of_int attempts_count else jrpc_attempts_count),
          m_use_ssl = False, m_canceled = False, m_rerun = False, m_io_ctx = (if own_ctx then Some False else None),
          m_timer = None, m_pending = None, m_calls = []\<rparr>
      in if host_name \<noteq> [] then set_host host_name r else r)"

definition set_path :: "string option \<Rightarrow> http_request \<Rightarrow> http_request" where
  "set_path value r =
     (let p = (case value of None \<Rightarrow> ''/'' | Some v \<Rightarrow> c_str v)
      in r\<lparr>m_target := (if p = [] \<or> hd p \<noteq> CHR ''/'' then ''/'' @ p else p)\<rparr>)"

text \<open>An identifier that cannot be read throws in \<^verbatim>\<open>get_id\<close>; the exception ends in the error of \<^verbatim>\<open>JRPC_END\<close>.\<close>

definition set_body :: "(string \<Rightarrow> json option) \<Rightarrow> string \<Rightarrow> http_request \<Rightarrow> http_request" where
  "set_body Parse body r =
     (let r = r\<lparr>m_body := body\<rparr>
      in case Parse body of
        None \<Rightarrow> r
      | Some doc \<Rightarrow> (case get_id doc of
          Inr i \<Rightarrow> r\<lparr>m_result := set_id i (m_result r)\<rparr>
        | Inl _ \<Rightarrow> r\<lparr>m_result := set_error (-32603) ''Json-rpc std exception. Check log for extra information.'' (m_result r),
                    m_canceled := True\<rparr>))"

definition reset_attempts :: "http_request \<Rightarrow> http_request" where
  "reset_attempts r = r\<lparr>m_attempt := 0\<rparr>"

definition perform_callback :: "http_request \<Rightarrow> http_request" where
  "perform_callback r = (if m_callback r then r\<lparr>m_calls := m_calls r @ [m_result r], m_callback := False\<rparr> else r)"

definition stop_ctx :: "http_request \<Rightarrow> http_request" where
  "stop_ctx r = r\<lparr>m_io_ctx := map_option (\<lambda>_. True) (m_io_ctx r)\<rparr>"

text \<open>\<^verbatim>\<open>close\<close>: with a pool object the handle of the socket in use goes back to the pool, after a forced close
  of \<^verbatim>\<open>m_socket\<close>; \<^verbatim>\<open>m_ssl_socket.shutdown\<close> does not close the socket below.\<close>

definition close :: "network \<Rightarrow> bool \<Rightarrow> socket_pool \<times> http_request \<Rightarrow> socket_pool \<times> http_request" where
  "close net force = (\<lambda>(P, r).
     if m_enable P \<and> valid (m_pool_obj r) then
       (let r = (if force then r\<lparr>m_socket := -1\<rparr> else r);
            n = the (m_pool_obj r);
            s = (if m_use_ssl r then m_ssl_socket r else m_socket r);
            P = checkin (clock net) (pool_ttl net) (Some n) (set_socket n s P);
            r = r\<lparr>m_pool_obj := None\<rparr>
        in (P, if m_use_ssl r then r\<lparr>m_ssl_socket := -1, m_socket := -1\<rparr> else r\<lparr>m_socket := -1\<rparr>))
     else (P, r\<lparr>m_socket := -1\<rparr>))"

text \<open>The tail of \<^verbatim>\<open>execute\<close>: without a usable connection the host is resolved first.\<close>

definition start_resolve :: "http_request \<Rightarrow> http_request" where
  "start_resolve r =
     r\<lparr>m_use_ssl := use_ssl (parse_address (m_host r) \<lparr>host = [], port = [], path = [], use_ssl = m_use_ssl r\<rparr>),
       m_pending := Some Resolve\<rparr>"

definition use_pooled :: "network \<Rightarrow> int \<Rightarrow> http_request \<Rightarrow> http_request" where
  "use_pooled net s r =
     (if assign_ec net s \<or> endpoint_ec net s then start_resolve (r\<lparr>m_socket := -1, m_ssl_socket := -1\<rparr>)
      else (if m_use_ssl r then r\<lparr>m_ssl_socket := s\<rparr> else r\<lparr>m_socket := s\<rparr>)
             \<lparr>m_timer := Some timeout_request, m_pending := Some Write\<rparr>)"

definition execute :: "network \<Rightarrow> bool \<Rightarrow> socket_pool \<times> http_request \<Rightarrow> socket_pool \<times> http_request" where
  "execute net callback = (\<lambda>(P, r).
     let r = r\<lparr>m_attempt := m_attempt r + 1\<rparr>;
         r = (if m_attempt r = 1 then r\<lparr>m_io_ctx := map_option (\<lambda>_. False) (m_io_ctx r)\<rparr> else r);
         r = (if callback then r\<lparr>m_callback := True\<rparr> else r);
         r = r\<lparr>m_canceled := False, m_result := writer_reset (m_result r), m_close_field := False\<rparr>
     in if m_enable P then
          (let (P, v) = checkout (m_host r) P; r = r\<lparr>m_pool_obj := v\<rparr>
           in case v of
                None \<Rightarrow> (P, start_resolve (r\<lparr>m_close_field := True\<rparr>))
              | Some n \<Rightarrow>
                  (case held_socket n P of
                     Some s \<Rightarrow> (P, if s \<noteq> -1 then use_pooled net s r else start_resolve r)
                   | None \<Rightarrow> (P, start_resolve r)))
        else (P, start_resolve (r\<lparr>m_close_field := True\<rparr>)))"

text \<open>\<^verbatim>\<open>error_handler\<close>: whether the operation is at its end.  A canceled request is run again where
  \<^verbatim>\<open>on_timeout\<close> asked for it, an error as long as there are attempts left.\<close>

definition fail :: "network \<Rightarrow> error_code \<Rightarrow> string \<Rightarrow> socket_pool \<times> http_request \<Rightarrow> socket_pool \<times> http_request" where
  "fail net e from = (\<lambda>(P, r).
     let r = r\<lparr>m_rerun := False, m_canceled := True, m_timer := None\<rparr>;
         (P, r) = close net True (P, r)
     in if m_attempt r < m_attempts_count r then execute net (m_callback r) (P, r)
        else
          (let r = r\<lparr>m_result := add_error_data ''host'' (JString (m_host r)) (add_error_data ''where'' (JString from)
                     (set_error (-32603) (''Json-rpc error '' @ to_string_int (ec_value e) @ '' : '' @ ec_message e) (m_result r)))\<rparr>
           in (P, stop_ctx (perform_callback r))))"

definition error_handler ::
  "network \<Rightarrow> error_code \<Rightarrow> string \<Rightarrow> socket_pool \<times> http_request \<Rightarrow> bool \<times> socket_pool \<times> http_request" where
  "error_handler net e from = (\<lambda>(P, r).
     if \<not> m_rerun r \<and> m_canceled r then (True, P, r)
     else if \<not> m_rerun r \<and> e = None then (False, P, r)
     else (True, fail net e from (P, r)))"

definition on_timeout :: "network \<Rightarrow> timeout \<Rightarrow> socket_pool \<times> http_request \<Rightarrow> socket_pool \<times> http_request" where
  "on_timeout net type = (\<lambda>(P, r).
     let r = r\<lparr>m_timer := None\<rparr>
     in if m_canceled r then (P, r)
        else
          (let (P, r) = close net True (P, r\<lparr>m_canceled := True\<rparr>)
           in if m_attempt r < m_attempts_count r then (P, r\<lparr>m_rerun := True\<rparr>)
              else
                (let txt = (case type of
                       timeout_request \<Rightarrow> ''Json-rpc timeout '' @ to_string (unat (m_timeout r)) @ '' ms''
                     | timeout_connection \<Rightarrow> ''Json-rpc connection timeout '' @ to_string (unat (m_conn_timeout r)) @ '' ms'');
                     r = r\<lparr>m_result := add_error_data ''host'' (JString (m_host r)) (set_error (-32603) txt (m_result r))\<rparr>
                 in (P, stop_ctx (perform_callback r)))))"

text \<open>The completion handlers.  \<open>h\<close> is the handle the connecting socket has.\<close>

definition set_handle :: "int \<Rightarrow> http_request \<Rightarrow> http_request" where
  "set_handle h r = (if m_use_ssl r then r\<lparr>m_ssl_socket := h\<rparr> else r\<lparr>m_socket := h\<rparr>)"

definition on_resolve :: "network \<Rightarrow> error_code \<Rightarrow> int \<Rightarrow> socket_pool \<times> http_request \<Rightarrow> socket_pool \<times> http_request" where
  "on_resolve net e h S =
     (case error_handler net e ''on_resolve'' S of
        (True, S) \<Rightarrow> S
      | (False, P, r) \<Rightarrow> (P, (set_handle h r)\<lparr>m_timer := Some timeout_connection, m_pending := Some Connect\<rparr>))"

definition on_connect :: "network \<Rightarrow> error_code \<Rightarrow> int \<Rightarrow> socket_pool \<times> http_request \<Rightarrow> socket_pool \<times> http_request" where
  "on_connect net e h = (\<lambda>(P, r).
     case error_handler net e ''on_connect'' (P, r\<lparr>m_timer := None\<rparr>) of
        (True, S) \<Rightarrow> S
      | (False, P, r) \<Rightarrow>
          (P, (set_handle h r)\<lparr>m_timer := Some timeout_request, m_pending := Some (if m_use_ssl r then Handshake else Write)\<rparr>))"

definition on_handshake :: "network \<Rightarrow> error_code \<Rightarrow> socket_pool \<times> http_request \<Rightarrow> socket_pool \<times> http_request" where
  "on_handshake net e S =
     (case error_handler net e ''on_handshake'' S of (True, S) \<Rightarrow> S | (False, P, r) \<Rightarrow> (P, r\<lparr>m_pending := Some Write\<rparr>))"

definition on_write :: "network \<Rightarrow> error_code \<Rightarrow> socket_pool \<times> http_request \<Rightarrow> socket_pool \<times> http_request" where
  "on_write net e S =
     (case error_handler net e ''on_write'' S of (True, S) \<Rightarrow> S | (False, P, r) \<Rightarrow> (P, r\<lparr>m_pending := Some Read\<rparr>))"

definition keep_alive_of :: "response \<Rightarrow> bool" where
  "keep_alive_of res =
     (if connection_field res = Some ''close'' then False
      else if http_version res = 11 then True else response_keep_alive res)"

definition read_result :: "(string \<Rightarrow> json option) \<Rightarrow> response \<Rightarrow> json" where
  "read_result Parse res =
     (case writer_parse Parse (response_body res) of
        (True, doc) \<Rightarrow> doc
      | (False, doc) \<Rightarrow>
          if status res \<noteq> 200 then set_error (-32603) (''Incorrect response http status: '' @ to_string (status res)) doc else doc)"

definition on_read ::
  "(string \<Rightarrow> json option) \<Rightarrow> network \<Rightarrow> error_code \<Rightarrow> response \<Rightarrow> socket_pool \<times> http_request \<Rightarrow> socket_pool \<times> http_request" where
  "on_read Parse net e res = (\<lambda>(P, r).
     case error_handler net e ''on_read'' (P, r\<lparr>m_timer := None\<rparr>) of
        (True, S) \<Rightarrow> S
      | (False, P, r) \<Rightarrow>
          (let (P, r) = close net (\<not> keep_alive_of res) (P, r)
           in (P, stop_ctx (perform_callback (r\<lparr>m_result := read_result Parse res\<rparr>)))))"

definition get_result_text :: "(json \<Rightarrow> string) \<Rightarrow> http_request \<Rightarrow> string" where
  "get_result_text Print r = Print (m_result r)"

section \<open>Runs of a request\<close>

text \<open>
  An event is the completion of the outstanding operation (with success or any error, also after the socket
  was closed under it) or the expiry of the armed timer.  Other requests may use the pool in between, so a
  step starts from any pool.
\<close>

datatype http_event =
    On_resolve error_code int
  | On_connect error_code int
  | On_handshake error_code
  | On_write error_code
  | On_read error_code response
  | On_timeout

definition enabled :: "http_event \<Rightarrow> http_request \<Rightarrow> bool" where
  "enabled ev r = (case ev of
     On_resolve _ _ \<Rightarrow> m_pending r = Some Resolve
   | On_connect _ _ \<Rightarrow> m_pending r = Some Connect
   | On_handshake _ \<Rightarrow> m_pending r = Some Handshake
   | On_write _ \<Rightarrow> m_pending r = Some Write
   | On_read _ _ \<Rightarrow> m_pending r = Some Read
   | On_timeout \<Rightarrow> m_timer r \<noteq> None)"

definition request_event ::
  "(string \<Rightarrow> json option) \<Rightarrow> network \<Rightarrow> http_event \<Rightarrow> socket_pool \<times> http_request \<Rightarrow> socket_pool \<times> http_request" where
  "request_event Parse net ev = (\<lambda>(P, r).
     let S = (P, r\<lparr>m_pending := None\<rparr>)
     in case ev of
       On_resolve e h \<Rightarrow> on_resolve net e h S
     | On_connect e h \<Rightarrow> on_connect net e h S
     | On_handshake e \<Rightarrow> on_handshake net e S
     | On_write e \<Rightarrow> on_write net e S
     | On_read e res \<Rightarrow> on_read Parse net e res S
     | On_timeout \<Rightarrow> on_timeout net (the (m_timer r)) (P, r))"

inductive request_step :: "(string \<Rightarrow> json option) \<Rightarrow> http_request \<Rightarrow> http_event \<Rightarrow> http_request \<Rightarrow> bool" for Parse where
  event: "enabled ev r \<Longrightarrow> request_event Parse net ev (P, r) = (P', r') \<Longrightarrow> request_step Parse r ev r'"

fun phase :: "operation option \<Rightarrow> nat" where
  "phase None = 0" | "phase (Some Read) = 1" | "phase (Some Write) = 2" | "phase (Some Handshake) = 3"
| "phase (Some Connect) = 4" | "phase (Some Resolve) = 5"

definition attempts_left :: "http_request \<Rightarrow> nat" where
  "attempts_left r = unat (m_attempts_count r) - unat (m_attempt r)"

text \<open>How many events may still come.\<close>

definition events_left :: "http_request \<Rightarrow> nat" where
  "events_left r = 16 * attempts_left r + 2 * phase (m_pending r) + (if m_timer r = None then 0 else 1)"

text \<open>
  The callback is outstanding exactly as long as it was not called; a canceled request has called it or
  waits for the end of an operation to run again.
\<close>

definition called_once :: "http_request \<Rightarrow> bool" where
  "called_once r \<longleftrightarrow> (if m_callback r then m_calls r = [] else length (m_calls r) = 1) \<and>
     (m_rerun r \<longrightarrow> m_canceled r \<and> m_callback r \<and> m_attempt r < m_attempts_count r) \<and>
     (m_canceled r \<and> \<not> m_rerun r \<longrightarrow> \<not> m_callback r) \<and> 1 \<le> m_attempt r \<and> m_attempt r \<le> max 1 (m_attempts_count r)"

definition request_inv :: "http_request \<Rightarrow> bool" where
  "request_inv r \<longleftrightarrow> called_once r \<and> (m_callback r \<longrightarrow> m_pending r \<noteq> None) \<and>
     (\<not> m_callback r \<and> \<not> m_canceled r \<longrightarrow> m_pending r = None \<and> m_timer r = None)"

lemma close_frame:
  obtains P' a b c where "close net force (P, r) = (P', r\<lparr>m_socket := a, m_ssl_socket := b, m_pool_obj := c\<rparr>)"
proof -
  have "\<exists>P' a b c. close net force (P, r) = (P', r\<lparr>m_socket := a, m_ssl_socket := b, m_pool_obj := c\<rparr>)"
    by (cases r) (auto simp: close_def Let_def)
  then show thesis using that by blast
qed

lemma next_attempt: "(a :: u32) < c \<Longrightarrow> unat (a + 1) = Suc (unat a)"
  using unsigned_less [of c, where 'a = nat] by (simp add: word_less_nat_alt unat_word_ariths)

lemma next_attempt_le: "(a :: u32) < c \<Longrightarrow> a + 1 \<le> c \<and> 1 \<le> a + 1"
  using next_attempt [of a c] by (simp add: word_less_nat_alt word_le_nat_alt)

lemma start_resolve_fields [simp]:
  "m_attempt (start_resolve r) = m_attempt r" "m_attempts_count (start_resolve r) = m_attempts_count r"
  "m_callback (start_resolve r) = m_callback r" "m_calls (start_resolve r) = m_calls r" "m_canceled (start_resolve r) = m_canceled r"
  "m_rerun (start_resolve r) = m_rerun r" "m_pending (start_resolve r) = Some Resolve" "m_timer (start_resolve r) = m_timer r"
  "m_pool_obj (start_resolve r) = m_pool_obj r"
  by (simp_all add: start_resolve_def)

lemma use_pooled_fields [simp]:
  "m_attempt (use_pooled net s r) = m_attempt r" "m_attempts_count (use_pooled net s r) = m_attempts_count r"
  "m_callback (use_pooled net s r) = m_callback r" "m_calls (use_pooled net s r) = m_calls r"
  "m_canceled (use_pooled net s r) = m_canceled r" "m_rerun (use_pooled net s r) = m_rerun r"
  "m_pending (use_pooled net s r) = Some (if assign_ec net s \<or> endpoint_ec net s then Resolve else Write)" "m_pool_obj (use_pooled net s r) = m_pool_obj r"
  by (auto simp: use_pooled_def)

lemma execute_fields:
  assumes "execute net cb (P, r) = (P', r')"
  shows "m_attempt r' = m_attempt r + 1" "m_attempts_count r' = m_attempts_count r" "m_callback r' = (cb \<or> m_callback r)"
    "m_calls r' = m_calls r" "\<not> m_canceled r'" "m_rerun r' = m_rerun r" "m_pending r' = Some Resolve \<or> m_pending r' = Some Write"
  using assms by (auto simp: execute_def Let_def split: if_splits option.splits prod.splits)

lemma fail_inv:
  assumes "fail net e from (P, r) = (P', r')" and "called_once r" and "m_callback r" and "m_pending r = None"
  shows "request_inv r' \<and> events_left r' \<le> 16 * attempts_left r"
proof -
  let ?r = "r\<lparr>m_rerun := False, m_canceled := True, m_timer := None\<rparr>"
  obtain Q a b c where cl: "close net True (P, ?r) = (Q, ?r\<lparr>m_socket := a, m_ssl_socket := b, m_pool_obj := c\<rparr>)"
    by (rule close_frame)
  show ?thesis
  proof (cases "m_attempt r < m_attempts_count r")
    case True
    then have ex: "execute net True (Q, ?r\<lparr>m_socket := a, m_ssl_socket := b, m_pool_obj := c\<rparr>) = (P', r')"
      using assms(1,3) cl by (simp add: fail_def Let_def)
    have "16 * (unat (m_attempts_count r) - Suc (unat (m_attempt r))) + 16 = 16 * (unat (m_attempts_count r) - unat (m_attempt r))"
      using True by (simp add: word_less_nat_alt)
    then show ?thesis using execute_fields [OF ex] assms(2,3) next_attempt [OF True] next_attempt_le [OF True]
      by (auto simp: request_inv_def called_once_def events_left_def attempts_left_def max_def)
  next
    case False
    then show ?thesis using assms cl
      by (auto simp: fail_def Let_def request_inv_def called_once_def events_left_def attempts_left_def stop_ctx_def perform_callback_def)
  qed
qed

text \<open>What \<^verbatim>\<open>error_handler\<close> leaves behind when the operation that called it is over.\<close>

lemma error_handler_inv:
  assumes "error_handler net e from (P, r) = (b, P', r')" and "called_once r" and "m_pending r = None"
    and "\<not> m_callback r \<Longrightarrow> m_canceled r"
  shows "if b then request_inv r' \<and> events_left r' \<le> 16 * attempts_left r + (if m_timer r = None then 0 else 1)
    else r' = r \<and> m_callback r \<and> \<not> m_canceled r \<and> \<not> m_rerun r"
proof (cases "m_canceled r \<and> \<not> m_rerun r")
  case True
  then have "b" "r' = r" using assms(1) by (simp_all add: error_handler_def)
  moreover have "\<not> m_callback r" using True assms(2) by (simp add: called_once_def)
  ultimately show ?thesis using True assms(2,3) by (simp add: request_inv_def events_left_def)
next
  case live: False
  have cb: "m_callback r" using live assms(2,4) unfolding called_once_def by blast
  show ?thesis
  proof (cases "m_rerun r \<or> e \<noteq> None")
    case True
    then have "b" and "fail net e from (P, r) = (P', r')" using live assms(1) by (auto simp: error_handler_def)
    with fail_inv [OF this(2) assms(2) cb assms(3)] show ?thesis by simp
  next
    case False
    then have "e = None" "\<not> m_rerun r" by blast+
    with live assms(1) cb show ?thesis by (simp add: error_handler_def)
  qed
qed

lemma called_once_fields [simp]:
  "called_once (r\<lparr>m_pending := p\<rparr>) = called_once r" "called_once (r\<lparr>m_timer := t\<rparr>) = called_once r"
  "called_once (r\<lparr>m_socket := a, m_ssl_socket := b, m_pool_obj := c\<rparr>) = called_once r"
  "called_once (set_handle h r) = called_once r"
  by (simp_all add: called_once_def set_handle_def)

lemma set_handle_fields [simp]:
  "m_callback (set_handle h r) = m_callback r" "m_canceled (set_handle h r) = m_canceled r"
  "m_attempts_count (set_handle h r) = m_attempts_count r" "m_attempt (set_handle h r) = m_attempt r"
  by (simp_all add: set_handle_def)

lemma finished_canceled:
  "request_inv r \<Longrightarrow> m_pending r \<noteq> None \<Longrightarrow> \<not> m_callback r \<Longrightarrow> m_canceled r"
  "request_inv r \<Longrightarrow> m_timer r \<noteq> None \<Longrightarrow> \<not> m_callback r \<Longrightarrow> m_canceled r"
  by (auto simp: request_inv_def)

text \<open>A completion handler runs \<^verbatim>\<open>error_handler\<close> and goes on to an operation of a later phase.\<close>

lemma next_operation:
  assumes eh: "error_handler net e from (P, r\<lparr>m_pending := None, m_timer := t\<rparr>) = (b, P1, r1)" and inv: "request_inv r"
    and op: "m_pending r = Some op"
  shows "b \<Longrightarrow> request_inv r1 \<and> (t = None \<or> t = m_timer r \<longrightarrow> events_left r1 < events_left r)"
    and "\<not> b \<Longrightarrow> m_callback r \<and> \<not> m_canceled r \<and> r1 = r\<lparr>m_pending := None, m_timer := t\<rparr>"
proof -
  have "0 < phase (m_pending r)" using op by (cases op) simp_all
  then have less: "16 * attempts_left r + (if t = None then 0 else 1) < events_left r" if "t = None \<or> t = m_timer r"
    using that by (auto simp: events_left_def)
  have "called_once (r\<lparr>m_pending := None, m_timer := t\<rparr>)" using inv by (simp add: request_inv_def)
  note post = error_handler_inv [OF eh this]
  have "\<not> m_callback r \<Longrightarrow> m_canceled r" using finished_canceled(1) [OF inv] op by simp
  with post show "b \<Longrightarrow> request_inv r1 \<and> (t = None \<or> t = m_timer r \<longrightarrow> events_left r1 < events_left r)"
    and "\<not> b \<Longrightarrow> m_callback r \<and> \<not> m_canceled r \<and> r1 = r\<lparr>m_pending := None, m_timer := t\<rparr>"
    using less by (auto simp: attempts_left_def)
qed

lemma later_phase:
  assumes "request_inv r" and "m_callback r" and "\<not> m_canceled r" and "phase (Some op) < phase (m_pending r)"
  shows "request_inv (r\<lparr>m_pending := Some op, m_timer := t\<rparr>)" and "events_left (r\<lparr>m_pending := Some op, m_timer := t\<rparr>) < events_left r"
  using assms by (auto simp: request_inv_def events_left_def attempts_left_def)

lemma timeout_inv:
  assumes "on_timeout net type (P, r) = (P', r')" and "request_inv r" and "m_timer r \<noteq> None"
  shows "request_inv r' \<and> events_left r' < events_left r"
proof (cases "m_canceled r")
  case True
  then show ?thesis using assms by (auto simp: on_timeout_def request_inv_def events_left_def attempts_left_def)
next
  case False
  then have cb: "m_callback r" "m_pending r \<noteq> None" using finished_canceled(2) [OF assms(2,3)] assms(2) by (auto simp: request_inv_def)
  have rerun: "\<not> m_rerun r" using False assms(2) by (auto simp: request_inv_def called_once_def)
  obtain Q a b c where "close net True (P, r\<lparr>m_timer := None, m_canceled := True\<rparr>) =
      (Q, r\<lparr>m_timer := None, m_canceled := True, m_socket := a, m_ssl_socket := b, m_pool_obj := c\<rparr>)"
    by (rule close_frame)
  then show ?thesis using False cb rerun assms
    by (auto simp: on_timeout_def Let_def request_inv_def called_once_def events_left_def attempts_left_def stop_ctx_def perform_callback_def split: if_splits)
qed

lemma timer_same [simp]: "r\<lparr>m_pending := None, m_timer := m_timer r\<rparr> = r\<lparr>m_pending := None\<rparr>"
  by (cases r) simp

lemma set_handle_update:
  "(set_handle h (r\<lparr>m_pending := None, m_timer := t\<rparr>))\<lparr>m_timer := u, m_pending := Some op\<rparr> =
    (set_handle h r)\<lparr>m_pending := Some op, m_timer := u\<rparr>"
  "(set_handle h (r\<lparr>m_pending := None\<rparr>))\<lparr>m_timer := u, m_pending := Some op\<rparr> =
    (set_handle h r)\<lparr>m_pending := Some op, m_timer := u\<rparr>"
  by (cases r, simp add: set_handle_def)+

lemma request_inv_handle [simp]:
  "request_inv (set_handle h r) = request_inv r" "events_left (set_handle h r) = events_left r"
  by (simp_all add: request_inv_def events_left_def attempts_left_def called_once_def set_handle_def)

lemma m_pending_handle [simp]: "m_pending (set_handle h r) = m_pending r"
  by (simp add: set_handle_def)

lemma resolve_inv:
  assumes "on_resolve net e h (P, r\<lparr>m_pending := None\<rparr>) = (P', r')" and "request_inv r" and "m_pending r = Some Resolve"
  shows "request_inv r' \<and> events_left r' < events_left r"
proof (cases "error_handler net e ''on_resolve'' (P, r\<lparr>m_pending := None, m_timer := m_timer r\<rparr>)")
  case (fields b P1 r1)
  then show ?thesis using next_operation [OF fields assms(2,3)] assms later_phase [of "set_handle h r" Connect "Some timeout_connection"]
    by (cases b) (auto simp: on_resolve_def set_handle_update)
qed

lemma connect_inv:
  assumes "on_connect net e h (P, r\<lparr>m_pending := None\<rparr>) = (P', r')" and "request_inv r" and "m_pending r = Some Connect"
  shows "request_inv r' \<and> events_left r' < events_left r"
proof (cases "error_handler net e ''on_connect'' (P, r\<lparr>m_pending := None, m_timer := None\<rparr>)")
  case (fields b P1 r1)
  then show ?thesis
    using next_operation [OF fields assms(2,3)] assms
      later_phase [of "set_handle h r" "if m_use_ssl r then Handshake else Write" "Some timeout_request"]
    by (cases b) (auto simp: on_connect_def set_handle_update split: if_splits)
qed

lemma handshake_inv:
  assumes "on_handshake net e (P, r\<lparr>m_pending := None\<rparr>) = (P', r')" and "request_inv r" and "m_pending r = Some Handshake"
  shows "request_inv r' \<and> events_left r' < events_left r"
proof (cases "error_handler net e ''on_handshake'' (P, r\<lparr>m_pending := None, m_timer := m_timer r\<rparr>)")
  case (fields b P1 r1)
  then show ?thesis using next_operation [OF fields assms(2,3)] assms later_phase [of r Write "m_timer r"]
    by (cases b) (auto simp: on_handshake_def)
qed

lemma write_inv:
  assumes "on_write net e (P, r\<lparr>m_pending := None\<rparr>) = (P', r')" and "request_inv r" and "m_pending r = Some Write"
  shows "request_inv r' \<and> events_left r' < events_left r"
proof (cases "error_handler net e ''on_write'' (P, r\<lparr>m_pending := None, m_timer := m_timer r\<rparr>)")
  case (fields b P1 r1)
  then show ?thesis using next_operation [OF fields assms(2,3)] assms later_phase [of r Read "m_timer r"]
    by (cases b) (auto simp: on_write_def)
qed

lemma read_inv:
  assumes "on_read Parse net e res (P, r\<lparr>m_pending := None\<rparr>) = (P', r')" and "request_inv r" and "m_pending r = Some Read"
  shows "request_inv r' \<and> events_left r' < events_left r"
proof (cases "error_handler net e ''on_read'' (P, r\<lparr>m_pending := None, m_timer := None\<rparr>)")
  case (fields b P1 r1)
  note post = next_operation [OF fields assms(2,3)]
  show ?thesis
  proof (cases b)
    case True
    then show ?thesis using post(1) fields assms(1) by (simp add: on_read_def)
  next
    case False
    then have r1: "m_callback r" "\<not> m_canceled r" "r1 = r\<lparr>m_pending := None, m_timer := None\<rparr>" using post(2) by simp_all
    obtain Q a b' c where "close net (\<not> keep_alive_of res) (P1, r1) = (Q, r1\<lparr>m_socket := a, m_ssl_socket := b', m_pool_obj := c\<rparr>)"
      by (rule close_frame)
    then show ?thesis using False fields assms r1
      by (auto simp: on_read_def request_inv_def called_once_def events_left_def attempts_left_def stop_ctx_def perform_callback_def)
  qed
qed

lemma request_step_inv: "request_step Parse r ev r' \<Longrightarrow> request_inv r \<Longrightarrow> request_inv r' \<and> events_left r' < events_left r"
proof (induction rule: request_step.induct)
  case (event ev r net P P' r')
  note ev = event [unfolded enabled_def request_event_def]
  show ?case
  proof (cases ev)
    case (On_resolve e h)
    then show ?thesis using ev resolve_inv [of net e h P r P' r'] by simp
  next
    case (On_connect e h)
    then show ?thesis using ev connect_inv [of net e h P r P' r'] by simp
  next
    case (On_handshake e)
    then show ?thesis using ev handshake_inv [of net e P r P' r'] by simp
  next
    case (On_write e)
    then show ?thesis using ev write_inv [of net e P r P' r'] by simp
  next
    case (On_read e res)
    then show ?thesis using ev read_inv [of Parse net e res P r P' r'] by simp
  next
    case On_timeout
    then show ?thesis using ev timeout_inv [of net "the (m_timer r)" P r P' r'] by simp
  qed
qed

interpretation request: stable "request_step Parse" request_inv for Parse
  by unfold_locales (blast dest: request_step_inv)

lemma run_events_left: "run (request_step Parse) r es r' \<Longrightarrow> request_inv r \<Longrightarrow> length es + events_left r' \<le> events_left r"
proof (induction rule: run.induct)
  case (run_snoc s es t e u)
  then show ?case using request_step_inv [OF run_snoc.hyps(2) request.run_keeps [OF run_snoc.hyps(1)]] by simp
qed simp

text \<open>A new request that is executed with a callback.\<close>

lemma started_inv:
  assumes "execute net True (P, r) = (P', r')" and "m_attempt r = 0" and "\<not> m_rerun r" and "m_calls r = []" and "m_timer r = None"
  shows "request_inv r'" and "events_left r' \<le> 16 * max 1 (unat (m_attempts_count r))"
    and "m_attempts_count r' = m_attempts_count r"
proof -
  have left: "attempts_left r' = unat (m_attempts_count r) - 1" using execute_fields(1,2) [OF assms(1)] assms(2) by (simp add: attempts_left_def)
  have "phase (m_pending r') \<le> 5" using execute_fields(7) [OF assms(1)] by auto
  with left show "events_left r' \<le> 16 * max 1 (unat (m_attempts_count r))" by (auto simp: events_left_def max_def)
  show "request_inv r'" using execute_fields [OF assms(1)] assms(2-)
    by (auto simp: request_inv_def called_once_def max_def)
  show "m_attempts_count r' = m_attempts_count r" by (rule execute_fields(2) [OF assms(1)])
qed

section \<open>What the callback is given\<close>

definition reported :: "(string \<Rightarrow> json option) \<Rightarrow> json \<Rightarrow> bool" where
  "reported Parse j \<longleftrightarrow> is_error j \<or> (\<exists>res. j = read_result Parse res)"

definition all_reported :: "(string \<Rightarrow> json option) \<Rightarrow> http_request \<Rightarrow> bool" where
  "all_reported Parse r \<longleftrightarrow> (\<forall>j\<in>set (m_calls r). reported Parse j)"

lemma reported_read: "reported Parse (read_result Parse res)"
  unfolding reported_def by blast

lemma is_error_set [simp]: "is_error (set_error c m doc)" "is_error doc \<Longrightarrow> is_error (add_error_data n v doc)"
  by (simp_all add: is_error_def HasMember_def set_error_def add_error_data_def)

lemma all_reported_fields [simp]:
  "all_reported Parse (r\<lparr>m_pending := p\<rparr>) = all_reported Parse r" "all_reported Parse (r\<lparr>m_timer := t\<rparr>) = all_reported Parse r"
  "all_reported Parse (r\<lparr>m_rerun := b\<rparr>) = all_reported Parse r" "all_reported Parse (r\<lparr>m_canceled := b\<rparr>) = all_reported Parse r"
  "all_reported Parse (r\<lparr>m_socket := s\<rparr>) = all_reported Parse r" "all_reported Parse (r\<lparr>m_ssl_socket := s\<rparr>) = all_reported Parse r"
  "all_reported Parse (r\<lparr>m_pool_obj := c\<rparr>) = all_reported Parse r" "all_reported Parse (r\<lparr>m_result := j\<rparr>) = all_reported Parse r"
  "all_reported Parse (set_handle h r) = all_reported Parse r" "all_reported Parse (stop_ctx r) = all_reported Parse r"
  by (simp_all add: all_reported_def set_handle_def stop_ctx_def)

lemma callback_reported: "all_reported Parse r \<Longrightarrow> reported Parse (m_result r) \<Longrightarrow> all_reported Parse (perform_callback r)"
  by (auto simp: all_reported_def perform_callback_def)

lemma close_reported: "all_reported Parse r \<Longrightarrow> close net force (P, r) = (P', r') \<Longrightarrow> all_reported Parse r'"
  by (rule close_frame [of net force P r]) auto

lemma execute_reported: "all_reported Parse r \<Longrightarrow> execute net cb (P, r) = (P', r') \<Longrightarrow> all_reported Parse r'"
  using execute_fields(4) by (simp add: all_reported_def)

lemma fail_reported: "all_reported Parse r \<Longrightarrow> fail net e from (P, r) = (P', r') \<Longrightarrow> all_reported Parse r'"
  by (rule close_frame [of net True P "r\<lparr>m_rerun := False, m_canceled := True, m_timer := None\<rparr>"])
    (auto simp: fail_def Let_def reported_def intro!: callback_reported split: if_splits elim!: execute_reported [rotated])

lemma error_handler_reported:
  "all_reported Parse r \<Longrightarrow> error_handler net e from (P, r) = (b, P', r') \<Longrightarrow> all_reported Parse r'"
  by (auto simp: error_handler_def fail_reported split: if_splits)

lemma on_timeout_reported: "all_reported Parse r \<Longrightarrow> on_timeout net type (P, r) = (P', r') \<Longrightarrow> all_reported Parse r'"
  by (rule close_frame [of net True P "r\<lparr>m_timer := None, m_canceled := True\<rparr>"])
    (auto simp: on_timeout_def Let_def reported_def intro!: callback_reported split: if_splits timeout.splits)

lemma on_read_reported: "all_reported Parse r \<Longrightarrow> on_read Parse net e res (P, r) = (P', r') \<Longrightarrow> all_reported Parse r'"
proof (cases "error_handler net e ''on_read'' (P, r\<lparr>m_timer := None\<rparr>)")
  case (fields b P1 r1)
  assume "all_reported Parse r" and rd: "on_read Parse net e res (P, r) = (P', r')"
  then have r1: "all_reported Parse r1" using error_handler_reported [OF _ fields] by simp
  obtain Q r2 where cl: "close net (\<not> keep_alive_of res) (P1, r1) = (Q, r2)" by (cases "close net (\<not> keep_alive_of res) (P1, r1)")
  from close_reported [OF r1 cl] have "all_reported Parse (stop_ctx (perform_callback (r2\<lparr>m_result := read_result Parse res\<rparr>)))"
    using callback_reported [of Parse "r2\<lparr>m_result := read_result Parse res\<rparr>"] reported_read by simp
  with r1 rd fields cl show ?thesis by (cases b) (simp_all add: on_read_def)
qed

lemma step_reported: "request_step Parse r ev r' \<Longrightarrow> all_reported Parse r \<Longrightarrow> all_reported Parse r'"
proof (induction rule: request_step.induct)
  case (event ev r net P P' r')
  then show ?case
    by (cases ev)
      (auto simp: request_event_def on_resolve_def on_connect_def on_handshake_def on_write_def on_timeout_reported
        dest!: error_handler_reported [rotated] on_read_reported [rotated] split: prod.splits bool.splits)
qed

interpretation reporting: stable "request_step Parse" "all_reported Parse" for Parse
  by unfold_locales (rule step_reported)

lemma prepared_fields:
  fixes r :: http_request
  assumes "r = set_body Parse body (set_path p (http_json_rpc_request h own t ct ac jt jct jac))"
  shows "m_attempt r = 0" "\<not> m_rerun r" "m_calls r = []" "m_timer r = None" "m_pool_obj r = None"
    "m_attempts_count r = (if ac > 0 then of_int ac else jac)"
  by (auto simp: assms set_body_def set_path_def http_json_rpc_request_def set_host_def Let_def split: option.splits sum.splits)

section \<open>Properties\<close>

text \<open>C11: a request calls its callback exactly once, whatever the network does: after the host was resolved or
  not, connections that fail, operations that end after their timer expired.  At most sixteen events per
  attempt come to an end, the attempts are bounded by the setting, the callback was called at most once, an
  operation is outstanding as long as it was not, and it was given an error or what the node answered.\<close>

theorem callback_called_once:
  assumes "execute net True (P, set_body Parse body (set_path p (http_json_rpc_request h own t ct ac jt jct jac))) = (P', r0)"
    and "run (request_step Parse) r0 es r"
  shows "length es \<le> 16 * max 1 (unat (m_attempts_count r0)) \<and> m_attempt r \<le> max 1 (m_attempts_count r) \<and>
    length (m_calls r) \<le> 1 \<and> (m_calls r = [] \<longleftrightarrow> m_callback r) \<and> (m_callback r \<longrightarrow> m_pending r \<noteq> None) \<and>
    (\<forall>j\<in>set (m_calls r). is_error j \<or> (\<exists>res. j = read_result Parse res))"
proof -
  note start = started_inv [OF assms(1) prepared_fields(1-4) [OF refl]]
  from request.run_keeps [OF assms(2) start(1)] have inv: "request_inv r" .
  have "all_reported Parse r0" using execute_fields(4) [OF assms(1)] prepared_fields(3) [OF refl] by (simp add: all_reported_def)
  from reporting.run_keeps [OF assms(2) this] have "\<forall>j\<in>set (m_calls r). is_error j \<or> (\<exists>res. j = read_result Parse res)"
    by (simp add: all_reported_def reported_def)
  moreover have "length es \<le> 16 * max 1 (unat (m_attempts_count r0))"
    using run_events_left [OF assms(2) start(1)] start(2,3) by simp
  ultimately show ?thesis using inv by (auto simp: request_inv_def called_once_def split: if_splits)
qed

definition sample_net :: network where
  "sample_net = \<lparr>assign_ec = (\<lambda>_. False), endpoint_ec = (\<lambda>_. False), clock = 5, pool_ttl = 60\<rparr>"

definition sample_response :: response where
  "sample_response = \<lparr>status = 200, http_version = 11, connection_field = None, response_keep_alive = False, response_body = ''b''\<rparr>"

definition sample_parse :: "string \<Rightarrow> json option" where
  "sample_parse = [''b'' \<mapsto> JObject [(''result'', JInt 3)]]"

definition sample_http_request :: http_request where
  "sample_http_request = set_body sample_parse [] (set_path None (http_json_rpc_request ''h'' False 0 0 2 9 9 1))"

lemma sample_http_request_eq:
  "sample_http_request = \<lparr>m_host = ''h'', m_host_field = ''h'', m_target = ''/'', m_body = [], m_close_field = False,
     m_result = json_rpc_writer, m_callback = False, m_socket = -1, m_ssl_socket = -1, m_pool_obj = None, m_attempt = 0,
     m_timeout = 9, m_conn_timeout = 9, m_attempts_count = 2, m_use_ssl = False, m_canceled = False, m_rerun = False,
     m_io_ctx = None, m_timer = None, m_pending = None, m_calls = []\<rparr>"
  by (simp add: sample_http_request_def set_body_def set_path_def http_json_rpc_request_def set_host_def parse_address_def
      sample_parse_def starts_with_def)

lemmas event_defs = request_event_def on_resolve_def on_connect_def on_handshake_def on_write_def on_read_def on_timeout_def
  error_handler_def fail_def close_def execute_def start_resolve_def set_handle_def stop_ctx_def perform_callback_def

text \<open>The first attempt times out while it connects, the second one is answered.\<close>

definition sample_http_events :: "http_event list" where
  "sample_http_events = [On_resolve None 7, On_timeout, On_connect (Some (125, ''canceled'')) 7, On_resolve None 8, On_connect None 8,
     On_write None, On_read None sample_response]"

fun play :: "(string \<Rightarrow> json option) \<Rightarrow> network \<Rightarrow> http_event list \<Rightarrow> socket_pool \<times> http_request \<Rightarrow> (socket_pool \<times> http_request) option" where
  "play Parse net [] S = Some S"
| "play Parse net (ev # evs) (P, r) = (if enabled ev r then play Parse net evs (request_event Parse net ev (P, r)) else None)"

lemma play_run: "play Parse net evs (P, r) = Some (P', r') \<Longrightarrow> run (request_step Parse) r evs r'"
proof (induction evs arbitrary: P r)
  case (Cons ev evs)
  obtain Q r1 where "request_event Parse net ev (P, r) = (Q, r1)" by (rule prod.exhaust)
  with Cons show ?case by (auto intro: run_Cons request_step.event split: if_splits)
qed (auto intro: run_Nil)

lemmas sample_play_simps = sample_http_request_eq sample_http_events_def event_defs enabled_def new_pool_def parse_address_def
  starts_with_def sample_response_def keep_alive_of_def read_result_def writer_parse_def sample_parse_def

lemma sample_play:
  "\<exists>P' r0 Q r. execute sample_net True (new_pool 1, sample_http_request) = (P', r0) \<and> m_attempts_count r0 = 2 \<and>
     play sample_parse sample_net sample_http_events (P', r0) = Some (Q, r) \<and> m_calls r = [JObject [(''result'', JInt 3)]]"
  by (simp add: sample_play_simps)

theorem callback_called_once_witness:
  "\<exists>P' r0 r. execute sample_net True (new_pool 1, sample_http_request) = (P', r0) \<and>
     run (request_step sample_parse) r0 sample_http_events r \<and> length sample_http_events \<le> 32 \<and>
     m_calls r = [JObject [(''result'', JInt 3)]] \<and> \<not> m_callback r"
proof -
  obtain P' r0 Q r where ex: "execute sample_net True (new_pool 1, sample_http_request) = (P', r0)" "m_attempts_count r0 = 2"
    and "play sample_parse sample_net sample_http_events (P', r0) = Some (Q, r)" and calls: "m_calls r = [JObject [(''result'', JInt 3)]]"
    using sample_play by blast
  then have rn: "run (request_step sample_parse) r0 sample_http_events r" by (blast intro: play_run)
  from callback_called_once [OF ex(1) [unfolded sample_http_request_def] rn] ex rn calls show ?thesis by (intro exI conjI) auto
qed

end
