(* ===== verification/Request_Pool.thy ===== *)
theory Request_Pool
  imports Http_Request
begin

text \<open>
  Requests and the connection pool together: a request takes its connection when it is executed and gives
  it back when it is closed, while other requests use the pool.
\<close>

section \<open>The connection of a request\<close>

text \<open>The pool objects that are out: those of other requests and the one this request has.\<close>

definition held_with :: "http_request \<Rightarrow> nat list \<Rightarrow> nat list" where
  "held_with r others = (case m_pool_obj r of None \<Rightarrow> others | Some n \<Rightarrow> n # others)"

definition sharing :: "nat \<Rightarrow> nat list \<Rightarrow> socket_pool \<times> http_request \<Rightarrow> bool" where
  "sharing c others = (\<lambda>(P, r). m_enable P \<and> system_inv c (P, held_with r others))"

definition returned :: "http_request \<Rightarrow> bool" where
  "returned r \<longleftrightarrow> (m_callback r \<and> \<not> m_canceled r \<or> m_pool_obj r = None)"

lemma m_enable_ops [simp]: "m_enable (set_socket n s P) = m_enable P" "m_enable (checkin now t v P) = m_enable P"
  by (simp add: set_socket_def) (cases rule: checkin_cases [of now t v P]; simp)

lemma checkout_enable: "checkout h P = (P', v) \<Longrightarrow> m_enable P' = m_enable P"
  by (elim checkout_cases) simp_all

lemma close_sharing:
  assumes "close net force (P, r) = (P', r')" and "sharing c others (P, r)"
  shows "sharing c others (P', r') \<and> m_pool_obj r' = None"
proof (cases "m_pool_obj r")
  case None
  then show ?thesis using assms by (auto simp: close_def sharing_def held_with_def Socket_Pool.valid_def)
next
  case (Some n)
  have inv: "system_inv c (set_socket n s P, n # others)" for s
    using assms(2) Some step_inv [OF pool_step.update [of n "n # others" P s]] by (simp add: sharing_def held_with_def)
  have "system_inv c (checkin t d (Some n) (set_socket n s P), others)" for t d s
    using step_inv [OF pool_step.give [of n "n # others"] inv] by simp
  then show ?thesis using assms Some by (auto simp: close_def sharing_def held_with_def Socket_Pool.valid_def Let_def split: if_splits)
qed

lemma execute_sharing:
  assumes "execute net cb (P, r) = (P', r')" and "sharing c others (P, r)" and "m_pool_obj r = None"
  shows "sharing c others (P', r')"
proof -
  obtain Q v where co: "checkout (m_host r) P = (Q, v)" by (cases "checkout (m_host r) P")
  have "system_inv c (Q, case v of None \<Rightarrow> others | Some n \<Rightarrow> n # others)"
    using assms(2,3) co step_inv [OF pool_step.take [of "m_host r" P Q]] step_inv [OF pool_step.refuse [of "m_host r" P Q]]
    by (auto simp: sharing_def held_with_def split: option.splits)
  moreover have "P' = Q \<and> m_pool_obj r' = v" using assms(1,2) co
    by (auto simp: execute_def Let_def sharing_def split: if_splits option.splits prod.splits)
  ultimately show ?thesis using assms(2) checkout_enable [OF co] by (simp add: sharing_def held_with_def)
qed

lemma sharing_fields [simp]:
  "sharing c others (P, r\<lparr>m_pending := p\<rparr>) = sharing c others (P, r)" "sharing c others (P, r\<lparr>m_timer := t\<rparr>) = sharing c others (P, r)"
  "sharing c others (P, r\<lparr>m_rerun := b\<rparr>) = sharing c others (P, r)" "sharing c others (P, r\<lparr>m_canceled := b\<rparr>) = sharing c others (P, r)"
  "sharing c others (P, r\<lparr>m_result := j\<rparr>) = sharing c others (P, r)" "sharing c others (P, stop_ctx r) = sharing c others (P, r)"
  "sharing c others (P, set_handle h r) = sharing c others (P, r)" "sharing c others (P, perform_callback r) = sharing c others (P, r)"
  by (simp_all add: sharing_def held_with_def stop_ctx_def set_handle_def perform_callback_def)

lemma m_pool_obj_simps [simp]:
  "m_pool_obj (stop_ctx r) = m_pool_obj r" "m_pool_obj (set_handle h r) = m_pool_obj r" "m_pool_obj (perform_callback r) = m_pool_obj r"
  by (simp_all add: stop_ctx_def set_handle_def perform_callback_def)

lemma fail_sharing:
  assumes "fail net e from (P, r) = (P', r')" and "sharing c others (P, r)" and "m_callback r"
  shows "sharing c others (P', r') \<and> returned r'"
proof -
  let ?r = "r\<lparr>m_rerun := False, m_canceled := True, m_timer := None\<rparr>"
  obtain Q a b v where cl: "close net True (P, ?r) = (Q, ?r\<lparr>m_socket := a, m_ssl_socket := b, m_pool_obj := v\<rparr>)" by (rule close_frame)
  have pre: "sharing c others (P, ?r)" using assms(2) by simp
  have sh: "sharing c others (Q, ?r\<lparr>m_socket := a, m_ssl_socket := b, m_pool_obj := v\<rparr>)"
    by (rule conjunct1 [OF close_sharing [OF cl pre]])
  have v: "v = None" using conjunct2 [OF close_sharing [OF cl pre]] by simp
  show ?thesis
  proof (cases "m_attempt r < m_attempts_count r")
    case True
    then have "execute net (m_callback r) (Q, ?r\<lparr>m_socket := a, m_ssl_socket := b, m_pool_obj := v\<rparr>) = (P', r')"
      using assms(1) cl by (simp add: fail_def)
    from execute_sharing [OF this sh] execute_fields(3,5) [OF this] v assms(3) show ?thesis
      by (simp add: returned_def)
  next
    case False
    then show ?thesis using assms(1) cl sh v by (auto simp: fail_def Let_def returned_def)
  qed
qed

lemma error_handler_sharing:
  assumes "error_handler net e from (P, r) = (b, P', r')" and "sharing c others (P, r)" and "called_once r" and "returned r"
    and "m_callback r \<or> m_canceled r"
  shows "sharing c others (P', r') \<and> (if b then returned r' else (P', r') = (P, r) \<and> m_callback r \<and> \<not> m_canceled r)"
proof (cases "m_canceled r \<and> \<not> m_rerun r")
  case True
  then show ?thesis using assms by (simp add: error_handler_def)
next
  case False
  then have cb: "m_callback r" using assms(3,5) unfolding called_once_def by blast
  show ?thesis
  proof (cases "m_rerun r \<or> e \<noteq> None")
    case True
    then have "b" and "fail net e from (P, r) = (P', r')" using False assms(1) by (auto simp: error_handler_def)
    with fail_sharing [OF this(2) assms(2) cb] show ?thesis by simp
  next
    case fine: False
    then have "e = None" "\<not> m_rerun r" by blast+
    with False assms cb show ?thesis by (simp add: error_handler_def)
  qed
qed

lemma returned_fields [simp]:
  "returned (r\<lparr>m_pending := p\<rparr>) = returned r" "returned (r\<lparr>m_timer := t\<rparr>) = returned r" "returned (set_handle h r) = returned r"
  by (simp_all add: returned_def)

lemma step_sharing:
  assumes "enabled ev r" and "request_event Parse net ev (P, r) = (P', r')" and "request_inv r"
    and "sharing c others (P, r)" and "returned r"
  shows "sharing c others (P', r') \<and> returned r'"
proof -
  let ?r = "\<lambda>t. r\<lparr>m_pending := None, m_timer := t\<rparr>"
  have once: "called_once (?r t)" for t using assms(3) by (simp add: request_inv_def)
  have live: "m_callback r \<or> m_canceled r" if "m_pending r \<noteq> None" using that assms(3) by (auto simp: request_inv_def)
  have eh: "sharing c others (Q, r1) \<and> (if b then returned r1 else (Q, r1) = (P, ?r t) \<and> m_callback r \<and> \<not> m_canceled r)"
    if "error_handler net e from (P, ?r t) = (b, Q, r1)" and "m_pending r \<noteq> None" for e "from" b Q r1 t
    using error_handler_sharing [OF that(1), of c others] once live [OF that(2)] assms(4,5) by (cases b) simp_all
  note eh0 = eh [where t = "m_timer r", unfolded timer_same]
  show ?thesis
  proof (cases ev)
    case (On_resolve e h)
    obtain b Q r1 where er: "error_handler net e ''on_resolve'' (P, r\<lparr>m_pending := None\<rparr>) = (b, Q, r1)" by (rule prod_cases3)
    with eh0 [OF er] On_resolve assms(1,2,5) show ?thesis
      by (cases b; clarsimp simp: enabled_def request_event_def on_resolve_def)
  next
    case (On_connect e h)
    obtain b Q r1 where er: "error_handler net e ''on_connect'' (P, ?r None) = (b, Q, r1)" by (rule prod_cases3)
    with eh [OF er] On_connect assms(1,2,5) show ?thesis
      by (cases b; clarsimp simp: enabled_def request_event_def on_connect_def)
  next
    case (On_handshake e)
    obtain b Q r1 where er: "error_handler net e ''on_handshake'' (P, r\<lparr>m_pending := None\<rparr>) = (b, Q, r1)" by (rule prod_cases3)
    with eh0 [OF er] On_handshake assms(1,2,5) show ?thesis
      by (cases b; clarsimp simp: enabled_def request_event_def on_handshake_def)
  next
    case (On_write e)
    obtain b Q r1 where er: "error_handler net e ''on_write'' (P, r\<lparr>m_pending := None\<rparr>) = (b, Q, r1)" by (rule prod_cases3)
    with eh0 [OF er] On_write assms(1,2,5) show ?thesis
      by (cases b; clarsimp simp: enabled_def request_event_def on_write_def)
  next
    case (On_read e res)
    obtain b Q r1 where er: "error_handler net e ''on_read'' (P, ?r None) = (b, Q, r1)" by (rule prod_cases3)
    obtain Q2 r2 where cl: "close net (\<not> keep_alive_of res) (Q, r1) = (Q2, r2)" by (rule prod.exhaust)
    from eh [OF er] close_sharing [OF cl, of c others] er cl On_read assms(1,2,5) show ?thesis
      by (cases b; clarsimp simp: enabled_def request_event_def on_read_def returned_def)
  next
    case On_timeout
    obtain Q r1 where cl: "close net True (P, r\<lparr>m_timer := None, m_canceled := True\<rparr>) = (Q, r1)" by (rule prod.exhaust)
    with close_sharing [OF cl, of c others] assms(4) have "sharing c others (Q, r1)" "m_pool_obj r1 = None" by simp_all
    with cl On_timeout assms(2,4,5) show ?thesis
      by (cases "m_canceled r"; cases "m_attempt r1 < m_attempts_count r1")
        (clarsimp simp: request_event_def on_timeout_def returned_def Let_def)+
  qed
qed

section \<open>One request among others\<close>

datatype shared_event = Own http_event | Other pool_event

inductive shared_step ::
  "(string \<Rightarrow> json option) \<Rightarrow> socket_pool \<times> nat list \<times> http_request \<Rightarrow> shared_event \<Rightarrow> socket_pool \<times> nat list \<times> http_request \<Rightarrow> bool"
  for Parse where
  own: "enabled ev r \<Longrightarrow> request_event Parse net ev (P, r) = (P', r') \<Longrightarrow> shared_step Parse (P, others, r) (Own ev) (P', others, r')"
| other: "pool_step (P, others) ev (P', others') \<Longrightarrow> (\<forall>b. ev \<noteq> Enable b) \<Longrightarrow>
    shared_step Parse (P, others, r) (Other ev) (P', others', r)"

definition shared_inv :: "nat \<Rightarrow> socket_pool \<times> nat list \<times> http_request \<Rightarrow> bool" where
  "shared_inv c = (\<lambda>(P, others, r). request_inv r \<and> sharing c others (P, r) \<and> returned r)"

lemma system_inv_perm: "system_inv c (P, xs) \<Longrightarrow> distinct ys \<Longrightarrow> set ys = set xs \<Longrightarrow> system_inv c (P, ys)"
  by (simp add: system_inv_def)

text \<open>A step of the other requests does not touch the connection this one holds.\<close>

lemma other_step:
  assumes "pool_step (P, others) ev (P', others')" and "system_inv c (P, n # others)"
  shows "system_inv c (P', n # others')"
  using assms(1)
proof (cases rule: pool_step.cases)
  case (take host m)
  from step_inv [OF pool_step.take [OF take(3)] assms(2)] take show ?thesis
    by (auto intro: system_inv_perm simp: system_inv_def)
next
  case (give m now t)
  have "m \<noteq> n" using give(4) assms(2) by (auto simp: system_inv_def)
  then show ?thesis using step_inv [OF pool_step.give [of m "n # others"] assms(2)] give by simp
next
  case (refuse host)
  from step_inv [OF pool_step.refuse [OF refuse(3)] assms(2)] refuse show ?thesis by simp
next
  case (update m s)
  from step_inv [OF pool_step.update [of m "n # others"] assms(2)] update show ?thesis by simp
next
  case (monitor ec now)
  from step_inv [OF pool_step.monitor assms(2)] monitor show ?thesis by simp
next
  case (enabling b)
  from step_inv [OF pool_step.enabling assms(2)] enabling show ?thesis by simp
qed

lemma pool_step_enable: "pool_step (P, others) ev (P', others') \<Longrightarrow> \<forall>b. ev \<noteq> Enable b \<Longrightarrow> m_enable P' = m_enable P"
  by (erule pool_step.cases) (auto simp: expire_def dest: checkout_enable)

lemma shared_step_inv:
  assumes "shared_step Parse S ev S'" and "shared_inv c S"
  shows "shared_inv c S'"
  using assms
proof (induction rule: shared_step.induct)
  case (own ev r net P P' r' others)
  then show ?case
    using request_step_inv [OF request_step.event [OF own.hyps]] step_sharing [OF own.hyps, of c others] by (simp add: shared_inv_def)
next
  case (other P others ev P' others' r)
  then show ?case using other_step [OF other.hyps(1)] step_inv [OF other.hyps(1)] pool_step_enable [OF other.hyps]
    by (cases "m_pool_obj r") (auto simp: shared_inv_def sharing_def held_with_def)
qed

interpretation shared: stable "shared_step Parse" "shared_inv c" for Parse c
  by unfold_locales (rule shared_step_inv)

text \<open>A request that is executed on a pool other requests use.\<close>

lemma executed_inv:
  assumes "execute net True (P, r) = (P', r')" and "m_attempt r = 0" and "\<not> m_rerun r" and "m_calls r = []" and "m_timer r = None"
    and "m_pool_obj r = None" and "m_enable P" and "system_inv c (P, others)"
  shows "shared_inv c (P', others, r')"
proof -
  have "sharing c others (P, r)" using assms(6-8) by (simp add: sharing_def held_with_def)
  with execute_sharing [OF assms(1) _ assms(6)] started_inv(1) [OF assms(1-5)] execute_fields(3,5) [OF assms(1)]
  show ?thesis by (simp add: shared_inv_def returned_def)
qed

text \<open>A forced close of a plain connection takes it out of the pool; a forced close of a TLS connection puts the
  connection that failed back among the idle ones, since only \<^verbatim>\<open>m_socket\<close> is closed.\<close>

lemma failed_tls_connection_reused:
  assumes "m_enable P" and "m_pool_obj r = Some n" and "system_inv c (P, n # others)" and "m_ssl_socket r = s" and "s \<noteq> -1"
  shows "m_use_ssl r \<Longrightarrow> \<exists>d\<in>set (m_ready (fst (close net True (P, r)))). node d = n \<and> socket d = s"
    and "\<not> m_use_ssl r \<Longrightarrow> n \<notin> nodes (m_ready (fst (close net True (P, r)))) \<union> nodes (m_busy (fst (close net True (P, r))))"
proof -
  have "n \<in> node ` set (m_busy P)" using assms(3) by (simp add: system_inv_def flip: nodes_def) (metis insertI1)
  then obtain d where d: "d \<in> set (m_busy P)" "node d = n" by auto
  have dist: "distinct (map node (m_busy P @ m_ready P))" using assms(3) by (simp add: system_inv_def pool_inv_def)
  have found: "find (\<lambda>x. Some (node x) = Some n) (m_busy (set_socket n v P)) = Some (d\<lparr>socket := v\<rparr>)" for v
  proof -
    have "d\<lparr>socket := v\<rparr> \<in> set (m_busy (set_socket n v P))" using d by (auto simp: set_socket_def)
    moreover have "distinct (map node (m_busy (set_socket n v P)))" unfolding map_node_set_socket using dist by simp
    ultimately show ?thesis using find_node [of "m_busy (set_socket n v P)" "d\<lparr>socket := v\<rparr>"] d(2) by simp
  qed
  have "n \<notin> nodes (m_ready P)" using dist d by (auto simp: nodes_def)
  then show "m_use_ssl r \<Longrightarrow> \<exists>d\<in>set (m_ready (fst (close net True (P, r)))). node d = n \<and> socket d = s"
    and "\<not> m_use_ssl r \<Longrightarrow> n \<notin> nodes (m_ready (fst (close net True (P, r)))) \<union> nodes (m_busy (fst (close net True (P, r))))"
    using assms d found by (auto simp: close_def checkin_def Socket_Pool.valid_def Let_def set_socket_def)
qed

section \<open>Properties\<close>

text \<open>C12: a request that takes its connection from a pool other requests use at the same time has given it back
  when its callback is called: the connections that are out are exactly those of the others.\<close>

theorem connection_returned:
  assumes "run pool_step (new_pool c, []) es0 (P0, others0)" and "m_enable P0"
    and "execute net True (P0, set_body Parse body (set_path p (http_json_rpc_request h own t ct ac jt jct jac))) = (P1, r1)"
    and "run (shared_step Parse) (P1, others0, r1) es (P, others, r)" and "m_calls r \<noteq> []"
  shows "m_pool_obj r = None \<and> set others = nodes (m_busy P) \<and> get_ready_size P + get_busy_size P \<le> c"
proof -
  have "system_inv c (P0, others0)" using pool.run_keeps [OF assms(1) new_system_inv] .
  from executed_inv [OF assms(3) prepared_fields(1-5) [OF refl] assms(2) this]
  have "shared_inv c (P, others, r)" by (rule shared.run_keeps [OF assms(4)])
  then have inv: "request_inv r" "system_inv c (P, held_with r others)" "returned r" by (simp_all add: shared_inv_def sharing_def)
  from inv(1) assms(5) have "\<not> m_callback r" by (auto simp: request_inv_def called_once_def)
  with inv(3) have "m_pool_obj r = None" by (simp add: returned_def)
  with inv(2) show ?thesis
    by (simp add: held_with_def system_inv_def pool_inv_def get_ready_size_def get_busy_size_def add.commute)
qed

lemma play_shared: "play Parse net evs (P, r) = Some (P', r') \<Longrightarrow> run (shared_step Parse) (P, others, r) (map Own evs) (P', others, r')"
proof (induction evs arbitrary: P r)
  case (Cons ev evs)
  obtain Q r1 where "request_event Parse net ev (P, r) = (Q, r1)" by (rule prod.exhaust)
  with Cons show ?case by (auto intro: run_Cons shared_step.own split: if_splits)
qed (auto intro: run_Nil)

lemma sample_pooled:
  "\<exists>P1 r1 P r. execute sample_net True (set_enable True (new_pool 1), sample_http_request) = (P1, r1) \<and> m_pool_obj r1 = Some 0 \<and>
     play sample_parse sample_net sample_http_events (P1, r1) = Some (P, r) \<and> m_calls r \<noteq> [] \<and> get_ready_size P = 1"
  by (simp add: sample_play_simps set_enable_def checkout_def held_socket_def new_ep_def Socket_Pool.valid_def c_str_def set_socket_def
      checkin_def unlink_def get_ready_size_def Let_def)

theorem connection_returned_witness:
  "\<exists>P1 r1 P r. execute sample_net True (set_enable True (new_pool 1), sample_http_request) = (P1, r1) \<and> m_pool_obj r1 = Some 0 \<and>
     run (shared_step sample_parse) (P1, [], r1) (map Own sample_http_events) (P, [], r) \<and> m_pool_obj r = None \<and> get_ready_size P = 1"
proof -
  have start: "run pool_step (new_pool 1, []) [Enable True] (set_enable True (new_pool 1), [])"
    by (rule run_singleton) (rule pool_step.enabling)
  obtain P1 r1 P r where ex: "execute sample_net True (set_enable True (new_pool 1), sample_http_request) = (P1, r1)" "m_pool_obj r1 = Some 0"
    and "play sample_parse sample_net sample_http_events (P1, r1) = Some (P, r)" and calls: "m_calls r \<noteq> []" "get_ready_size P = 1"
    using sample_pooled by blast
  then have rn: "run (shared_step sample_parse) (P1, [], r1) (map Own sample_http_events) (P, [], r)" by (blast intro: play_shared)
  have "m_enable (set_enable True (new_pool 1))" by (simp add: set_enable_def)
  from connection_returned [OF start this ex(1) [unfolded sample_http_request_def] rn calls(1)] ex rn calls show ?thesis
    by (intro exI conjI) auto
qed

end
