(* ===== verification/Generate_Json.thy ===== *)
theory Generate_Json
  imports Block_Verify Json_Rpc
begin

text \<open>
  The JSON of blocks, transactions and balances, \<^verbatim>\<open>src/src/generate_json.cpp\<close>, and the parser of block
  headers in the same file.  \<^verbatim>\<open>strToJson\<close> and \<^verbatim>\<open>jsonToString\<close> are compiled into the torrent library and
  fields of the record \<open>json_lib\<close>; \<open>json_lib_laws\<close> states that the first makes a JSON string.  The lemmas
  show that the header of a block is read back from the JSON the client writes, what the status field
  of a transaction says, and that every generator leaves exactly one result or error behind.
\<close>

section \<open>Documents\<close>

record json_lib =
  strToJson :: "string \<Rightarrow> json"
  jsonToString :: "json \<Rightarrow> bool \<Rightarrow> string"

definition json_lib_laws :: "json_lib \<Rightarrow> bool" where
  "json_lib_laws J \<longleftrightarrow> strToJson J = JString"

datatype JsonVersion = V1 | V2

text \<open>\<^verbatim>\<open>AddMember\<close> appends; \<^verbatim>\<open>RemoveMember\<close> moves the last member into the gap.\<close>

definition AddMember :: "string \<Rightarrow> json \<Rightarrow> json \<Rightarrow> json" where
  "AddMember name v j = JObject (members j @ [(name, v)])"

fun remove_first :: "string \<Rightarrow> (string \<times> json) list \<Rightarrow> (string \<times> json) list" where
  "remove_first name [] = []"
| "remove_first name ((k, v) # ms) =
     (if k = name then (if ms = [] then [] else last ms # butlast ms) else (k, v) # remove_first name ms)"

definition RemoveMember :: "string \<Rightarrow> json \<Rightarrow> json" where
  "RemoveMember name j = JObject (remove_first name (members j))"

definition PushBack :: "json \<Rightarrow> json \<Rightarrow> json" where
  "PushBack v j = (case j of JArray xs \<Rightarrow> JArray (xs @ [v]) | _ \<Rightarrow> JArray [v])"

record RequestId =
  rid_id :: "string + nat"
  rid_isSet :: bool

definition addIdToResponse :: "json_lib \<Rightarrow> RequestId \<Rightarrow> json \<Rightarrow> json" where
  "addIdToResponse J rid j =
     (if rid_isSet rid
      then AddMember ''id'' (case rid_id rid of Inl s \<Rightarrow> strToJson J s | Inr n \<Rightarrow> JInt (int n)) j
      else j)"

definition intOrString :: "json_lib \<Rightarrow> int \<Rightarrow> bool \<Rightarrow> json" where
  "intOrString J v is_string = (if is_string then strToJson J (to_string_int v) else JInt v)"

definition genErrorResponse :: "json_lib \<Rightarrow> int \<Rightarrow> string \<Rightarrow> json \<Rightarrow> json" where
  "genErrorResponse J code err doc =
     AddMember ''error'' (AddMember ''message'' (strToJson J err) (AddMember ''code'' (JInt code) (JObject []))) doc"

definition genTransactionNotFoundResponse :: "json_lib \<Rightarrow> RequestId \<Rightarrow> string \<Rightarrow> nat \<Rightarrow> nat \<Rightarrow> string" where
  "genTransactionNotFoundResponse J rid transaction countBlocks knownBlock =
     (let doc = addIdToResponse J rid (JObject []);
          err = AddMember ''message'' (strToJson J (''Transaction '' @ transaction @ '' not found''))
                  (AddMember ''code'' (JInt (-32603)) (JObject []));
          dat = AddMember ''knownBlock'' (JInt (int knownBlock)) (AddMember ''countBlocks'' (JInt (int countBlocks)) (JObject []));
          err = AddMember ''data'' dat err
      in jsonToString J (AddMember ''error'' err doc) False)"

section \<open>Transactions\<close>

text \<open>The members of a full transaction up to the status.\<close>

definition tx_common :: "torrent_lib \<Rightarrow> json_lib \<Rightarrow> TransactionInfo \<Rightarrow> BlockHeader \<Rightarrow> bool \<Rightarrow> json" where
  "tx_common L J info bh is_string =
     (let str = strToJson J; num = (\<lambda>v. intOrString J v is_string);
          j = JObject [];
          j = AddMember ''from'' (str (calcHexString L (ti_fromAddress info))) j;
          j = AddMember ''to'' (str (calcHexString L (ti_toAddress info))) j;
          j = AddMember ''value'' (num (ti_value info)) j;
          j = AddMember ''transaction'' (str (toHex_iter (bytes_of_string (ti_hash info)))) j;
          j = AddMember ''data'' (str (toHex_iter (ti_data info))) j;
          j = AddMember ''timestamp'' (num (int (bh_timestamp bh))) j;
          j = AddMember ''type'' (str (getBlockType L bh)) j;
          j = AddMember ''blockNumber''
                (num (int (if ti_blockNumber info = 0 then (case bh_blockNumber bh of Some n \<Rightarrow> n | None \<Rightarrow> 0)
                           else ti_blockNumber info))) j;
          j = AddMember ''signature'' (str (toHex_iter (ti_sign info))) j;
          j = AddMember ''publickey'' (str (toHex_iter (ti_pubKey info))) j;
          j = AddMember ''fee'' (num (ti_fees info)) j;
          j = AddMember ''realFee'' (num (int (realFee L info))) j;
          j = AddMember ''nonce'' (num (int (ti_nonce info))) j;
          j = (case ti_intStatus info of Some s \<Rightarrow> AddMember ''intStatus'' (JInt (int s)) j | None \<Rightarrow> j)
      in case ti_delegate info of
           Some d \<Rightarrow> AddMember ''isDelegate'' (JBool (di_isDelegate d))
                       (AddMember ''delegate'' (num (if di_isDelegate d then di_value d else 0)) j)
         | None \<Rightarrow> j)"

text \<open>The status of a transaction that needs one.\<close>

definition tx_status_json :: "torrent_lib \<Rightarrow> json_lib \<Rightarrow> TransactionStatus \<Rightarrow> bool \<Rightarrow> json \<Rightarrow> json" where
  "tx_status_json L J st is_string j =
     (let j = AddMember ''status'' (strToJson J (if ts_isSuccess st then ''ok'' else ''error'')) j
      in case ts_status st of
           NoStatus \<Rightarrow> j
         | Delegate \<Rightarrow> j
         | UnDelegate v h \<Rightarrow>
             AddMember ''delegateHash'' (strToJson J (toHex_iter (bytes_of_string h)))
               (AddMember ''delegate'' (intOrString J v is_string) (RemoveMember ''delegate'' j))
         | V8Status server script addr \<Rightarrow>
             let j = (if \<not> ts_isSuccess st \<and> server then AddMember ''isServerError'' (JBool server) j else j);
                 j = (if \<not> ts_isSuccess st \<and> script then AddMember ''isScriptError'' (JBool script) j else j)
             in if address_isEmpty L addr then j
                else AddMember ''contractAddress'' (strToJson J (calcHexString L addr)) j)"

definition transactionInfoToJson ::
  "torrent_lib \<Rightarrow> json_lib \<Rightarrow> TransactionInfo \<Rightarrow> BlockHeader \<Rightarrow> int \<Rightarrow> JsonVersion \<Rightarrow> json fallible" where
  "transactionInfoToJson L J info bh type version =
     require (ti_hash info \<noteq> []) (StringExc ''Transaction not initialized'')
       (if type = 2 then
          (let is_string = (version = V2); j = tx_common L J info bh is_string
           in Inr (if \<not> isStatusNeed info
                   then AddMember ''status'' (strToJson J
                          (if ti_intStatus info = None \<or> \<not> isIntStatusNotSuccess L info then ''ok'' else ''error'')) j
                   else case ti_status info of
                          None \<Rightarrow> AddMember ''status'' (strToJson J ''pending'') j
                        | Some st \<Rightarrow> tx_status_json L J st is_string j))
        else if type = 1 then Inr (strToJson J (toHex_iter (bytes_of_string (ti_hash info))))
        else Inl (UserExc (''Incorrect transaction info type '' @ to_string_int type)))"

definition signTransactionInfoToJson :: "torrent_lib \<Rightarrow> json_lib \<Rightarrow> SignTransactionInfo \<Rightarrow> json" where
  "signTransactionInfoToJson L J info =
     (let j = AddMember ''blockHash'' (strToJson J (toHex_iter (sti_blockHash info))) (JObject []);
          j = AddMember ''signature'' (strToJson J (toHex_iter (sti_sign info))) j;
          j = AddMember ''publickey'' (strToJson J (toHex_iter (sti_pubkey info))) j
      in AddMember ''address'' (strToJson J (calcHexString L (sti_address info))) j)"

text \<open>\<open>getBlock\<close> is \<^verbatim>\<open>BlockChainReadInterface::getBlock\<close>.\<close>

definition transactionToJson :: "torrent_lib \<Rightarrow> json_lib \<Rightarrow> (nat \<Rightarrow> BlockHeader) \<Rightarrow> TransactionInfo \<Rightarrow> nat \<Rightarrow> nat \<Rightarrow>
    JsonVersion \<Rightarrow> json \<Rightarrow> json fallible" where
  "transactionToJson L J getBlock info countBlocks knownBlock version doc =
     bindE (transactionInfoToJson L J info (getBlock (ti_blockNumber info)) 2 version) (\<lambda>tx.
       let r = AddMember ''transaction'' tx (JObject []);
           r = AddMember ''countBlocks'' (JInt (int countBlocks)) r;
           r = AddMember ''knownBlocks'' (JInt (int knownBlock)) r
       in Inr (AddMember ''result'' r doc))"

fun tx_array :: "torrent_lib \<Rightarrow> json_lib \<Rightarrow> (TransactionInfo \<Rightarrow> BlockHeader) \<Rightarrow> int \<Rightarrow> JsonVersion \<Rightarrow> TransactionInfo list \<Rightarrow>
    json \<Rightarrow> json fallible" where
  "tx_array L J hd_of type version [] arr = Inr arr"
| "tx_array L J hd_of type version (tx # txs) arr =
     bindE (transactionInfoToJson L J tx (hd_of tx) type version)
       (\<lambda>j. tx_array L J hd_of type version txs (PushBack j arr))"

definition addressesInfoToJson :: "torrent_lib \<Rightarrow> json_lib \<Rightarrow> (nat \<Rightarrow> BlockHeader) \<Rightarrow> TransactionInfo list \<Rightarrow>
    JsonVersion \<Rightarrow> json \<Rightarrow> json fallible" where
  "addressesInfoToJson L J getBlock infos version doc =
     bindE (tx_array L J (\<lambda>tx. getBlock (ti_blockNumber tx)) 2 version infos (JArray []))
       (\<lambda>r. Inr (AddMember ''result'' r doc))"

definition transactionsToJson :: "torrent_lib \<Rightarrow> json_lib \<Rightarrow> (nat \<Rightarrow> BlockHeader) \<Rightarrow> RequestId \<Rightarrow> TransactionInfo list \<Rightarrow>
    bool \<Rightarrow> JsonVersion \<Rightarrow> string fallible" where
  "transactionsToJson L J getBlock rid infos isFormat version =
     (let doc = addIdToResponse J rid (JObject [])
      in bindE (tx_array L J (\<lambda>tx. getBlock (ti_blockNumber tx)) 2 version infos (JArray []))
           (\<lambda>r. Inr (jsonToString J (AddMember ''result'' r doc) isFormat)))"

section \<open>Balances\<close>

definition balance_members :: "torrent_lib \<Rightarrow> json_lib \<Rightarrow> string \<Rightarrow> BalanceInfo \<Rightarrow> nat \<Rightarrow> bool \<Rightarrow> json" where
  "balance_members L J address balance currentBlock is_string =
     (let num = (\<lambda>v. intOrString J (int v) is_string);
          r = AddMember ''address'' (strToJson J address) (JObject []);
          r = AddMember ''received'' (num (balance_received L balance)) r;
          r = AddMember ''spent'' (num (balance_spent L balance)) r;
          r = AddMember ''count_received'' (num (bal_countReceived balance)) r;
          r = AddMember ''count_spent'' (num (bal_countSpent balance)) r;
          r = AddMember ''block_number'' (num (bal_blockNumber balance)) r;
          r = AddMember ''currentBlock'' (num currentBlock) r;
          r = (case bal_delegated balance of
                 None \<Rightarrow> r
               | Some d \<Rightarrow>
                   let r = AddMember ''countDelegatedOps'' (num (db_countOp d)) r;
                       r = AddMember ''delegate'' (num (delegate_of (db_delegate d))) r;
                       r = AddMember ''undelegate'' (num (undelegate_of (db_delegate d))) r;
                       r = AddMember ''delegated'' (num (delegated_of (db_delegated d))) r;
                       r = AddMember ''undelegated'' (num (undelegated_of (db_delegated d))) r
                   in AddMember ''reserved'' (num (db_reserved d)) r)
      in case bal_forged balance of
           None \<Rightarrow> r
         | Some f \<Rightarrow> AddMember ''forged'' (num (fb_forged f)) (AddMember ''countForgedOps'' (num (fb_countOp f)) r))"

definition balanceInfoToJson :: "torrent_lib \<Rightarrow> json_lib \<Rightarrow> string \<Rightarrow> BalanceInfo \<Rightarrow> nat \<Rightarrow> JsonVersion \<Rightarrow> json \<Rightarrow> bool \<Rightarrow> json" where
  "balanceInfoToJson L J address balance currentBlock version doc array =
     (let r = balance_members L J address balance currentBlock (version = V2)
      in if array
         then with_value ''result'' (JArray []) (PushBack r) doc
         else AddMember ''result'' r doc)"

section \<open>Blocks\<close>

datatype AnyTxInfo = Txs "TransactionInfo list" | SignTxs "SignTransactionInfo list"

definition signatures_json :: "torrent_lib \<Rightarrow> json_lib \<Rightarrow> BlockHeader \<Rightarrow> AnyTxInfo \<Rightarrow> JsonVersion \<Rightarrow> json fallible" where
  "signatures_json L J bh signatures version =
     (case signatures of
        Txs signs \<Rightarrow> tx_array L J (\<lambda>_. bh) 2 version signs (JArray [])
      | SignTxs signs \<Rightarrow> Inr (foldl (\<lambda>arr tx. PushBack (signTransactionInfoToJson L J tx) arr) (JArray []) signs))"

definition header_members :: "torrent_lib \<Rightarrow> json_lib \<Rightarrow> BlockHeader \<Rightarrow> nat \<Rightarrow> bool \<Rightarrow> json" where
  "header_members L J bh number is_string =
     (let str = strToJson J; num = (\<lambda>v. intOrString J (int v) is_string);
          r = AddMember ''type'' (str (getBlockType L bh)) (JObject []);
          r = AddMember ''hash'' (str (toHex (bh_hash bh))) r;
          r = AddMember ''prev_hash'' (str (toHex (bh_prevHash bh))) r;
          r = AddMember ''tx_hash'' (str (toHex (bh_txsHash bh))) r;
          r = AddMember ''number'' (num number) r;
          r = AddMember ''timestamp'' (num (bh_timestamp bh)) r;
          r = AddMember ''count_txs'' (num (bh_countTxs bh)) r;
          r = AddMember ''sign'' (str (toHex (bh_signature bh))) r;
          r = AddMember ''size'' (JInt (int (bh_blockSize bh))) r
      in AddMember ''fileName'' (str (fileNameRelative (bh_filePos bh))) r)"

definition blockHeaderToJson_value :: "torrent_lib \<Rightarrow> json_lib \<Rightarrow> BlockHeader \<Rightarrow> AnyTxInfo \<Rightarrow> JsonVersion \<Rightarrow> json fallible" where
  "blockHeaderToJson_value L J bh signatures version =
     (case bh_blockNumber bh of
        None \<Rightarrow> Inl (StringExc ''Block header not set'')
      | Some number \<Rightarrow>
          bindE (signatures_json L J bh signatures version)
            (\<lambda>s. Inr (AddMember ''signatures'' s (header_members L J bh number (version = V2)))))"

definition genesis_error :: string where
  "genesis_error = ''Incorrect block number: 0. Genesis block begin with number 1''"

definition blockHeaderToJson :: "torrent_lib \<Rightarrow> json_lib \<Rightarrow> BlockHeader \<Rightarrow> AnyTxInfo \<Rightarrow> JsonVersion \<Rightarrow> json \<Rightarrow> json fallible" where
  "blockHeaderToJson L J bh signatures version doc =
     (if bh_blockNumber bh = Some 0 then Inr (genErrorResponse J (-32603) genesis_error doc)
      else bindE (blockHeaderToJson_value L J bh signatures version) (\<lambda>r. Inr (AddMember ''result'' r doc)))"

text \<open>The loop of \<^verbatim>\<open>blockHeadersToJson\<close>; the document gets the error at the first block 0.\<close>

fun headers_array :: "torrent_lib \<Rightarrow> json_lib \<Rightarrow> JsonVersion \<Rightarrow> (BlockHeader \<times> TransactionInfo list) list \<Rightarrow> json \<Rightarrow> json \<Rightarrow>
    json fallible" where
  "headers_array L J version [] vals doc = Inr (AddMember ''result'' vals doc)"
| "headers_array L J version ((b, signature) # bs) vals doc =
     (if bh_blockNumber b = Some 0 then Inr (genErrorResponse J (-32603) genesis_error doc)
      else bindE (blockHeaderToJson_value L J b (Txs signature) version)
             (\<lambda>v. headers_array L J version bs (PushBack v vals) doc))"

definition blockHeadersToJson :: "torrent_lib \<Rightarrow> json_lib \<Rightarrow> RequestId \<Rightarrow> BlockHeader list \<Rightarrow> TransactionInfo list list \<Rightarrow>
    JsonVersion \<Rightarrow> json \<Rightarrow> json fallible" where
  "blockHeadersToJson L J rid bh signatures version doc =
     (let doc = addIdToResponse J rid doc
      in require (length bh + 1 = length signatures) (StringExc ''Incorrect signatures vect'')
           (headers_array L J version (zip bh (tl signatures)) (JArray []) doc))"

text \<open>The \<^verbatim>\<open>uint64_t\<close> type of a request becomes the \<^verbatim>\<open>int\<close> of \<^verbatim>\<open>transactionInfoToJson\<close>.\<close>

definition narrow_int :: "nat \<Rightarrow> int" where
  "narrow_int n = sint (of_nat n :: u32)"

definition blockInfoToJson :: "torrent_lib \<Rightarrow> json_lib \<Rightarrow> BlockInfo \<Rightarrow> AnyTxInfo \<Rightarrow> nat \<Rightarrow> JsonVersion \<Rightarrow> json \<Rightarrow> json fallible" where
  "blockInfoToJson L J bi signatures type version doc =
     (let bh = bi_header bi
      in if bh_blockNumber bh = Some 0 then Inr (genErrorResponse J (-32603) genesis_error doc)
         else bindE (blockHeaderToJson_value L J bh signatures version) (\<lambda>r.
                bindE (tx_array L J (\<lambda>_. bh) (narrow_int type) version (bi_txs bi) (JArray [])) (\<lambda>txs.
                  Inr (AddMember ''result'' (AddMember ''txs'' txs r) doc))))"

definition genCountBlockJson :: "json_lib \<Rightarrow> nat \<Rightarrow> JsonVersion \<Rightarrow> json \<Rightarrow> json" where
  "genCountBlockJson J countBlocks version doc =
     AddMember ''result'' (AddMember ''count_blocks'' (intOrString J (int countBlocks) (version = V2)) (JObject [])) doc"

definition genBlockDumpJson :: "json_lib \<Rightarrow> string \<Rightarrow> json \<Rightarrow> json" where
  "genBlockDumpJson J blockDump doc =
     AddMember ''result'' (AddMember ''dump'' (strToJson J blockDump) (JObject [])) doc"

section \<open>Reading headers\<close>

definition int64_field :: "string \<Rightarrow> json \<Rightarrow> nat fallible" where
  "int64_field name j =
     (case get_value as_int64 j name of
        Some i \<Rightarrow> Inr (nat (i mod 2 ^ 64))
      | None \<Rightarrow> Inl (StringExc (name @ '' field not found'')))"

definition string_field :: "string \<Rightarrow> json \<Rightarrow> string fallible" where
  "string_field name j =
     (case get_value as_string j name of
        Some s \<Rightarrow> Inr (c_str s)
      | None \<Rightarrow> Inl (StringExc (name @ '' field not found'')))"

definition parseBlockHeader_value :: "json \<Rightarrow> MinimumBlockHeader fallible" where
  "parseBlockHeader_value j =
     bindE (int64_field ''number'' j) (\<lambda>number.
     bindE (string_field ''hash'' j) (\<lambda>hash.
     bindE (string_field ''prev_hash'' j) (\<lambda>parentHash.
     bindE (int64_field ''size'' j) (\<lambda>blockSize.
     bindE (string_field ''fileName'' j) (\<lambda>fileName.
       Inr \<lparr>mb_number = number, mb_blockSize = blockSize, mb_hash = hash, mb_parentHash = parentHash, mb_fileName = fileName\<rparr>)))))"

text \<open>The response after parsing, up to its result; asking a document that is no object for a member is an
  assertion of RapidJSON.\<close>

definition checked_result :: "json_lib \<Rightarrow> (string \<Rightarrow> json option) \<Rightarrow> string \<Rightarrow> (json \<Rightarrow> bool) \<Rightarrow> json fallible" where
  "checked_result J Parse response kind =
     (case Parse (c_str response) of
        None \<Rightarrow> Inl (StringExc (''rapidjson parse error. Data: '' @ response))
      | Some doc \<Rightarrow>
          if \<not> IsObject doc then Inl OtherExc
          else let result = (case FindMember ''result'' doc of
                               Some r \<Rightarrow> require (kind r) (StringExc ''result field not found'') (Inr r)
                             | None \<Rightarrow> Inl (StringExc ''result field not found''))
               in case FindMember ''error'' doc of
                    Some e \<Rightarrow> if e = JNull then result else Inl (StringExc (jsonToString J e False))
                  | None \<Rightarrow> result)"

definition parseBlockHeader :: "json_lib \<Rightarrow> (string \<Rightarrow> json option) \<Rightarrow> string \<Rightarrow> MinimumBlockHeader fallible" where
  "parseBlockHeader J Parse response = bindE (checked_result J Parse response IsObject) parseBlockHeader_value"

fun parse_headers :: "json list \<Rightarrow> MinimumBlockHeader list fallible" where
  "parse_headers [] = Inr []"
| "parse_headers (j # js) =
     require (IsObject j) (StringExc ''result field not found'')
       (bindE (parseBlockHeader_value j) (\<lambda>h. bindE (parse_headers js) (\<lambda>hs. Inr (h # hs))))"

definition parseBlocksHeader :: "json_lib \<Rightarrow> (string \<Rightarrow> json option) \<Rightarrow> string \<Rightarrow> MinimumBlockHeader list fallible" where
  "parseBlocksHeader J Parse response =
     bindE (checked_result J Parse response (\<lambda>r. as_array r \<noteq> None))
       (\<lambda>r. case as_array r of Some js \<Rightarrow> parse_headers js | None \<Rightarrow> Inl OtherExc)"

section \<open>Lookups\<close>

lemma FindMember_AddMember:
  "FindMember k (AddMember name v j) = (case FindMember k j of Some x \<Rightarrow> Some x | None \<Rightarrow> if k = name then Some v else None)"
  by (simp add: FindMember_def AddMember_def map_add_def split: option.splits)

lemma IsObject_AddMember [simp]: "IsObject (AddMember name v j)"
  by (simp add: AddMember_def)

lemma header_members_find [simp]:
  "FindMember ''number'' (header_members L J bh n s) = Some (intOrString J (int n) s)"
  "FindMember ''hash'' (header_members L J bh n s) = Some (strToJson J (toHex (bh_hash bh)))"
  "FindMember ''prev_hash'' (header_members L J bh n s) = Some (strToJson J (toHex (bh_prevHash bh)))"
  "FindMember ''size'' (header_members L J bh n s) = Some (JInt (int (bh_blockSize bh)))"
  "FindMember ''fileName'' (header_members L J bh n s) = Some (strToJson J (fileNameRelative (bh_filePos bh)))"
  "IsObject (header_members L J bh n s)"
  by (simp_all add: header_members_def Let_def FindMember_def AddMember_def)

definition minimum_header :: "BlockHeader \<Rightarrow> nat \<Rightarrow> MinimumBlockHeader" where
  "minimum_header bh n = \<lparr>mb_number = n, mb_blockSize = bh_blockSize bh, mb_hash = toHex_iter (bh_hash bh),
     mb_parentHash = toHex_iter (bh_prevHash bh), mb_fileName = fileNameRelative (bh_filePos bh)\<rparr>"

text \<open>A header whose numbers are \<^verbatim>\<open>int64_t\<close> and whose file name has no NUL.\<close>

definition printable_header :: "BlockHeader \<Rightarrow> bool" where
  "printable_header bh \<longleftrightarrow> (\<exists>n. bh_blockNumber bh = Some n \<and> 0 < n \<and> n < 2 ^ 63) \<and> bh_blockSize bh < 2 ^ 63 \<and>
     CHR 0x00 \<notin> set (fileNameRelative (bh_filePos bh))"

lemma c_str_no_nul: "CHR 0x00 \<notin> set s \<Longrightarrow> c_str s = s"
  unfolding c_str_def by (rule takeWhile_all) auto

lemma c_str_toHex [simp]: "c_str (toHex_iter bs) = toHex_iter bs"
  by (rule c_str_hex) (rule hex_text_toHex_iter)

lemma parse_header_value:
  assumes "json_lib_laws J" and "printable_header bh" and "bh_blockNumber bh = Some n"
  shows "parseBlockHeader_value (AddMember ''signatures'' sg (header_members L J bh n False)) = Inr (minimum_header bh n)"
proof -
  have "0 < n" "n < 2 ^ 63" "bh_blockSize bh < 2 ^ 63" "CHR 0x00 \<notin> set (fileNameRelative (bh_filePos bh))"
    using assms(2,3) by (auto simp: printable_header_def)
  with assms(1) show ?thesis
    by (simp add: parseBlockHeader_value_def int64_field_def string_field_def get_value_def FindMember_AddMember json_lib_laws_def
        intOrString_def as_int64_def as_string_def c_str_no_nul toHex_eq minimum_header_def)
qed

lemma headers_array_parse:
  assumes "json_lib_laws J"
  shows "headers_array L J V1 bs (JArray xs) doc = Inr doc' \<Longrightarrow> \<forall>b\<in>set bs. printable_header (fst b) \<Longrightarrow>
   \<exists>js. doc' = AddMember ''result'' (JArray (xs @ js)) doc \<and>
     parse_headers js = Inr (map (\<lambda>b. minimum_header (fst b) (the (bh_blockNumber (fst b)))) bs)"
proof (induction bs arbitrary: xs)
  case (Cons b bs)
  obtain bh s where b: "b = (bh, s)" by (cases b)
  then obtain n where n: "bh_blockNumber bh = Some n" "n \<noteq> 0" and p: "printable_header bh"
    using Cons.prems(2) by (auto simp: printable_header_def)
  obtain sg where sg: "signatures_json L J bh (Txs s) V1 = Inr sg"
    using Cons.prems(1) n b by (cases "signatures_json L J bh (Txs s) V1") (simp_all add: blockHeaderToJson_value_def)
  let ?v = "AddMember ''signatures'' sg (header_members L J bh n False)"
  have "headers_array L J V1 bs (JArray (xs @ [?v])) doc = Inr doc'"
    using Cons.prems(1) n b sg by (simp add: blockHeaderToJson_value_def PushBack_def)
  then obtain js where js: "doc' = AddMember ''result'' (JArray ((xs @ [?v]) @ js)) doc"
    "parse_headers js = Inr (map (\<lambda>b. minimum_header (fst b) (the (bh_blockNumber (fst b)))) bs)"
    using Cons.IH [of "xs @ [?v]"] Cons.prems(2) by auto
  moreover have "parse_headers (?v # js) = Inr (minimum_header bh n # map (\<lambda>b. minimum_header (fst b) (the (bh_blockNumber (fst b)))) bs)"
    using parse_header_value [OF assms p n(1)] js(2) by simp
  ultimately show ?case using b n by (intro exI [of _ "?v # js"]) simp
qed (simp add: exI [of _ "[]"])

lemma FindMember_addId: "k \<noteq> ''id'' \<Longrightarrow> FindMember k (addIdToResponse J rid doc) = FindMember k doc"
  by (simp add: addIdToResponse_def FindMember_AddMember split: option.splits)

section \<open>Names of a transaction's members\<close>

definition keys_of :: "json \<Rightarrow> string list" where
  "keys_of j = map fst (members j)"

lemma keys_of_simps [simp]: "keys_of (JObject []) = []" "keys_of (AddMember n v j) = keys_of j @ [n]"
  by (simp_all add: keys_of_def AddMember_def)

lemma distinct_rotate_last: "distinct (map fst (last xs # butlast xs)) \<longleftrightarrow> distinct (map fst xs)" if "xs \<noteq> []"
proof -
  have "map fst xs = map fst (butlast xs) @ [fst (last xs)]" using that by (metis append_butlast_last_id list.simps(8,9) map_append)
  then show ?thesis by (simp add: conj_commute)
qed

lemma set_rotate_last: "xs \<noteq> [] \<Longrightarrow> set (last xs # butlast xs) = set xs"
  by (metis append_butlast_last_id rotate1.simps(2) set_rotate1 list.simps(15) Un_commute set_append Un_insert_right sup_bot_right list.set(1))

lemma remove_first_keys: "distinct (map fst ms) \<Longrightarrow> distinct (map fst (remove_first n ms)) \<and>
    set (remove_first n ms) = {kv \<in> set ms. fst kv \<noteq> n}"
proof (induction ms)
  case (Cons kv ms)
  obtain k v where kv: "kv = (k, v)" by (cases kv)
  show ?case
  proof (cases "k = n")
    case True
    have "n \<notin> fst ` set ms" using Cons.prems kv True by simp
    then have "{kv \<in> set ms. fst kv \<noteq> n} = set ms" by (auto simp: image_iff)
    then show ?thesis
      using Cons.prems kv True distinct_rotate_last [of ms] set_rotate_last [of ms] by (cases "ms = []") auto
  next
    case False
    then show ?thesis using Cons kv by auto
  qed
qed simp

lemma RemoveMember_keys:
  assumes "distinct (keys_of j)"
  shows "distinct (keys_of (RemoveMember n j))" "set (keys_of (RemoveMember n j)) = set (keys_of j) - {n}"
  using remove_first_keys [of "members j" n] assms by (auto simp: RemoveMember_def keys_of_def image_iff)

lemma keys_tx_common:
  "keys_of (tx_common L J info bh s) =
     [''from'', ''to'', ''value'', ''transaction'', ''data'', ''timestamp'', ''type'', ''blockNumber'', ''signature'', ''publickey'',
      ''fee'', ''realFee'', ''nonce''] @ (if ti_intStatus info = None then [] else [''intStatus'']) @
     (if ti_delegate info = None then [] else [''delegate'', ''isDelegate''])"
  by (cases "ti_intStatus info"; cases "ti_delegate info") (simp_all add: tx_common_def Let_def)

lemma find_not_key: "k \<notin> set (keys_of j) \<Longrightarrow> FindMember k j = None"
  by (simp add: keys_of_def FindMember_def map_of_eq_None_iff)

lemma transaction_json_defined: "ti_hash info \<noteq> [] \<Longrightarrow> \<exists>j. transactionInfoToJson L J info bh 2 v = Inr j"
  by (simp add: transactionInfoToJson_def Let_def)

lemma sample_tx_hash [simp]: "ti_hash (sample_tx sg a d) = ''h''"
  by (simp add: sample_tx_def)

lemma tx_status_json_keys:
  assumes "distinct (keys_of c)" and "''status'' \<notin> set (keys_of c)" "''isServerError'' \<notin> set (keys_of c)"
    "''isScriptError'' \<notin> set (keys_of c)" "''contractAddress'' \<notin> set (keys_of c)" "''delegateHash'' \<notin> set (keys_of c)"
  shows "distinct (keys_of (tx_status_json L J st b c)) \<and> ''status'' \<in> set (keys_of (tx_status_json L J st b c))"
    and "ts_status st = UnDelegate v h \<Longrightarrow>
       FindMember ''delegate'' (tx_status_json L J st b c) = Some (intOrString J v b) \<and>
       FindMember ''delegateHash'' (tx_status_json L J st b c) = Some (strToJson J (toHex_iter (bytes_of_string h)))"
proof -
  define s where "s = AddMember ''status'' (strToJson J (if ts_isSuccess st then ''ok'' else ''error'')) c"
  have d: "distinct (keys_of s)" and st: "''status'' \<in> set (keys_of s)" using assms(1,2) by (simp_all add: s_def)
  have n: "''delegateHash'' \<notin> set (keys_of s)" "''isServerError'' \<notin> set (keys_of s)" "''isScriptError'' \<notin> set (keys_of s)"
    "''contractAddress'' \<notin> set (keys_of s)" using assms by (simp_all add: s_def)
  note r = RemoveMember_keys [OF d, of "''delegate''"]
  have m: "FindMember ''delegate'' (RemoveMember ''delegate'' s) = None" "FindMember ''delegateHash'' (RemoveMember ''delegate'' s) = None"
    using r(2) n(1) by (simp_all add: find_not_key)
  show "distinct (keys_of (tx_status_json L J st b c)) \<and> ''status'' \<in> set (keys_of (tx_status_json L J st b c))"
    unfolding tx_status_json_def s_def [symmetric]
    by (cases "ts_status st") (simp_all add: d st n r Let_def)
  show "FindMember ''delegate'' (tx_status_json L J st b c) = Some (intOrString J v b) \<and>
       FindMember ''delegateHash'' (tx_status_json L J st b c) = Some (strToJson J (toHex_iter (bytes_of_string h)))"
    if "ts_status st = UnDelegate v h"
    unfolding tx_status_json_def s_def [symmetric] by (simp add: that m FindMember_AddMember)
qed

section \<open>Properties\<close>

text \<open>C33: the list of block headers the client writes is read back by its own parser: numbers, sizes, hashes
  in hexadecimal and file names, in order.\<close>

theorem block_headers_roundtrip:
  assumes "json_lib_laws J" and "blockHeadersToJson L J rid bhs signatures V1 doc0 = Inr doc"
    and "\<forall>bh\<in>set bhs. printable_header bh"
    and "FindMember ''error'' doc0 = None" and "FindMember ''result'' doc0 = None"
    and "Parse (c_str response) = Some doc"
  shows "parseBlocksHeader J Parse response = Inr (map (\<lambda>bh. minimum_header bh (the (bh_blockNumber bh))) bhs)"
proof -
  let ?z = "zip bhs (tl signatures)"
  have len: "length bhs + 1 = length signatures"
    and a: "headers_array L J V1 ?z (JArray []) (addIdToResponse J rid doc0) = Inr doc"
    using assms(2) by (auto simp: blockHeadersToJson_def require_def split: if_splits)
  have "\<forall>b\<in>set ?z. printable_header (fst b)" using assms(3) by (auto dest: set_zip_leftD)
  then obtain js where js: "doc = AddMember ''result'' (JArray js) (addIdToResponse J rid doc0)"
    "parse_headers js = Inr (map (\<lambda>b. minimum_header (fst b) (the (bh_blockNumber (fst b)))) ?z)"
    using headers_array_parse [OF assms(1) a] by auto
  have "map (\<lambda>b. minimum_header (fst b) (the (bh_blockNumber (fst b)))) ?z =
      map (\<lambda>bh. minimum_header bh (the (bh_blockNumber bh))) (map fst ?z)" by simp
  also have "map fst ?z = bhs" using len by simp
  finally have "parse_headers js = Inr (map (\<lambda>bh. minimum_header bh (the (bh_blockNumber bh))) bhs)" using js(2) by simp
  moreover have "checked_result J Parse response (\<lambda>r. as_array r \<noteq> None) = Inr (JArray js)"
    using assms(4-6) js(1) by (simp add: checked_result_def FindMember_AddMember FindMember_addId as_array_def)
  ultimately show ?thesis by (simp add: parseBlocksHeader_def as_array_def)
qed

definition plain_json :: json_lib where
  "plain_json = \<lparr>strToJson = JString, jsonToString = (\<lambda>_ _. [])\<rparr>"

theorem block_headers_roundtrip_witness:
  "\<exists>doc. blockHeadersToJson sample_lib plain_json \<lparr>rid_id = Inr 1, rid_isSet = True\<rparr> [bi_header (sample_block [9] [1] [])]
      [[], [sample_tx True ''0x1'' [1]]] V1 (JObject []) = Inr doc \<and>
    parseBlocksHeader plain_json (\<lambda>_. Some doc) ''{}'' = Inr [minimum_header (bi_header (sample_block [9] [1] [])) 2000000]"
proof -
  let ?bh = "bi_header (sample_block [9] [1] [])"
  obtain doc where d: "blockHeadersToJson sample_lib plain_json \<lparr>rid_id = Inr 1, rid_isSet = True\<rparr> [?bh]
      [[], [sample_tx True ''0x1'' [1]]] V1 (JObject []) = Inr doc"
    using transaction_json_defined [of "sample_tx True ''0x1'' [1]" sample_lib plain_json ?bh V1]
    by (auto simp: blockHeadersToJson_def blockHeaderToJson_value_def signatures_json_def)
  have "parseBlocksHeader plain_json (\<lambda>_. Some doc) ''{}'' = Inr (map (\<lambda>bh. minimum_header bh (the (bh_blockNumber bh))) [?bh])"
    by (rule block_headers_roundtrip [OF _ d])
      (simp_all add: json_lib_laws_def plain_json_def printable_header_def sample_block_def)
  with d show ?thesis by simp
qed

text \<open>The JSON of a transaction has no member twice, carries one status, and for an undelegation reports
  the amount and the hash of the undelegated transaction in place of the amount of the request.\<close>

lemma transaction_json_wellformed:
  assumes "transactionInfoToJson L J info bh 2 version = Inr j"
  shows "distinct (keys_of j) \<and> ''status'' \<in> set (keys_of j) \<and>
    (case ti_status info of
       Some st \<Rightarrow> (case ts_status st of
         UnDelegate v h \<Rightarrow> isStatusNeed info \<longrightarrow>
           FindMember ''delegate'' j = Some (intOrString J v (version = V2)) \<and>
           FindMember ''delegateHash'' j = Some (strToJson J (toHex_iter (bytes_of_string h)))
       | _ \<Rightarrow> True)
     | None \<Rightarrow> True)"
proof -
  let ?c = "tx_common L J info bh (version = V2)"
  have k: "distinct (keys_of ?c)" by (simp add: keys_tx_common)
  have n: "''status'' \<notin> set (keys_of ?c)" "''isServerError'' \<notin> set (keys_of ?c)" "''isScriptError'' \<notin> set (keys_of ?c)"
    "''contractAddress'' \<notin> set (keys_of ?c)" "''delegateHash'' \<notin> set (keys_of ?c)" by (simp_all add: keys_tx_common)
  have st: "distinct (keys_of (tx_status_json L J st (version = V2) ?c)) \<and> ''status'' \<in> set (keys_of (tx_status_json L J st (version = V2) ?c))"
    "ts_status st = UnDelegate v h \<Longrightarrow>
       FindMember ''delegate'' (tx_status_json L J st (version = V2) ?c) = Some (intOrString J v (version = V2)) \<and>
       FindMember ''delegateHash'' (tx_status_json L J st (version = V2) ?c) = Some (strToJson J (toHex_iter (bytes_of_string h)))" for st v h
    using tx_status_json_keys [OF k n] by blast+
  from assms have j: "j = (if \<not> isStatusNeed info
      then AddMember ''status'' (strToJson J (if ti_intStatus info = None \<or> \<not> isIntStatusNotSuccess L info then ''ok'' else ''error'')) ?c
      else case ti_status info of None \<Rightarrow> AddMember ''status'' (strToJson J ''pending'') ?c
         | Some st \<Rightarrow> tx_status_json L J st (version = V2) ?c)"
    by (cases "ti_hash info = []") (simp_all add: transactionInfoToJson_def Let_def)
  show ?thesis
    using k n(1) st unfolding j by (auto split: option.split tx_status.split)
qed

lemma transaction_json_wellformed_witness:
  "\<exists>j. transactionInfoToJson sample_lib plain_json ((sample_tx False ''0x1'' [])\<lparr>ti_delegate := Some \<lparr>di_value = 7, di_isDelegate = False\<rparr>,
       ti_status := Some \<lparr>ts_isSuccess = True, ts_transaction = [], ts_blockNumber = 3, ts_status = UnDelegate 40 ''ab''\<rparr>\<rparr>)
       (bi_header (sample_block [9] [1] [])) 2 V1 = Inr j \<and>
     distinct (keys_of j) \<and> FindMember ''delegate'' j = Some (JInt 40) \<and> FindMember ''delegateHash'' j = Some (JString ''6162'')"
proof -
  let ?tx = "(sample_tx False ''0x1'' [])\<lparr>ti_delegate := Some \<lparr>di_value = 7, di_isDelegate = False\<rparr>,
       ti_status := Some \<lparr>ts_isSuccess = True, ts_transaction = [], ts_blockNumber = 3, ts_status = UnDelegate 40 ''ab''\<rparr>\<rparr>"
  obtain j where j: "transactionInfoToJson sample_lib plain_json ?tx (bi_header (sample_block [9] [1] [])) 2 V1 = Inr j"
    using transaction_json_defined [of ?tx sample_lib plain_json "bi_header (sample_block [9] [1] [])" V1] by auto
  have "toHex_iter (bytes_of_string ''ab'') = ''6162''" by code_simp
  then show ?thesis
    using j transaction_json_wellformed [OF j] by (simp add: isStatusNeed_def intOrString_def plain_json_def)
qed

end
