(* ===== verification/Handler_Base.thy ===== *)
theory Handler_Base
  imports Generate_Json Tx_Utils Blocks_Cache
begin

text \<open>
  What all request handlers of \<^verbatim>\<open>src/src/task_handlers\<close> share: the exceptions of
  \<^verbatim>\<open>exception/except.h\<close> and the way \<^verbatim>\<open>END_TRY\<close> turns one into an error reply, \<^verbatim>\<open>base_handler\<close>
  (parsing and validating a request, \<^verbatim>\<open>perform\<close>), and \<^verbatim>\<open>base_network_handler\<close> (forwarding a request to
  a node and turning its answer into the reply).  The contract every handler fulfils is the locale
  \<open>json_handler\<close>; the theories of the single handlers interpret it.

  A handler is its state: the identifier, the flag that the reply comes later, the document that was
  parsed, the document that is built, and the request handed to the network, if any.  RapidJSON's
  parser and schema validator and the database of the torrent library are fields of the environment.
  Where the code calls \<^verbatim>\<open>HasMember\<close> or iterates over the members of a value that is no object, which
  RapidJSON leaves undefined, the model finds no member.
\<close>

section \<open>Checks\<close>

definition CHK_PARSE :: "bool \<Rightarrow> string \<Rightarrow> 'a fallible \<Rightarrow> 'a fallible" where
  "CHK_PARSE c message rest = require c (InvalidParam (-32700) message None) rest"

definition CHK_PRM :: "bool \<Rightarrow> string \<Rightarrow> 'a fallible \<Rightarrow> 'a fallible" where
  "CHK_PRM c message rest = require c (InvalidParam (-32602) message None) rest"

definition CHK_REQ :: "bool \<Rightarrow> string \<Rightarrow> 'a fallible \<Rightarrow> 'a fallible" where
  "CHK_REQ c message rest = require c (InvalidParam (-32600) message None) rest"

lemma CHK_Inr:
  "CHK_PARSE c m x = Inr y \<longleftrightarrow> c \<and> x = Inr y"
  "CHK_PRM c m x = Inr y \<longleftrightarrow> c \<and> x = Inr y"
  "CHK_REQ c m x = Inr y \<longleftrightarrow> c \<and> x = Inr y"
  by (simp_all add: CHK_PARSE_def CHK_PRM_def CHK_REQ_def require_Inr_conv)

text \<open>A value that is looked up, with the message for its absence.\<close>

definition fetch :: "'a option \<Rightarrow> int \<Rightarrow> string \<Rightarrow> 'a fallible" where
  "fetch v code message = (case v of Some x \<Rightarrow> Inr x | None \<Rightarrow> Inl (InvalidParam code message None))"

lemma fetch_Inr [simp]: "fetch v code m = Inr x \<longleftrightarrow> v = Some x"
  by (cases v) (simp_all add: fetch_def)

lemma bindE_assoc: "bindE (bindE m f) g = bindE m (\<lambda>x. bindE (f x) g)"
  by (cases m) simp_all

section \<open>Environment\<close>

text \<open>The calls the handlers make on \<^verbatim>\<open>torrent_node_lib::Sync\<close> and its block chain.\<close>

record sync_api =
  countBlocks :: nat
  getKnownBlock :: nat
  getBlock_number :: "nat \<Rightarrow> BlockHeader"
  getBlock_hash :: "string \<Rightarrow> BlockHeader"
  getFullBlock :: "BlockHeader \<Rightarrow> nat \<Rightarrow> nat \<Rightarrow> BlockInfo fallible"
  getBlockSignatures :: "BlockInfo \<Rightarrow> TransactionInfo list"
  getBlockDump :: "byte list \<Rightarrow> FilePosition \<Rightarrow> nat \<Rightarrow> nat \<Rightarrow> bool \<Rightarrow> string fallible"
  getTransaction :: "string \<Rightarrow> TransactionInfo option fallible"
  getBalance :: "string \<Rightarrow> BalanceInfo fallible"
  getTxsForAddress :: "string \<Rightarrow> nat \<Rightarrow> nat \<Rightarrow> nat \<Rightarrow> TransactionInfo list fallible"

record 'k handler_env =
  e_Parse :: "string \<Rightarrow> json option"
  e_parse_code :: "string \<Rightarrow> nat"
  e_parse_text :: "string \<Rightarrow> string"
  e_methods_schema :: "(json \<Rightarrow> json option) option"
  e_ssl :: "'k openssl"
  e_sha256 :: "byte list \<Rightarrow> byte list"
  e_torrent :: torrent_lib
  e_json :: json_lib
  e_cache :: blocks_cache
  e_sync :: "sync_api option"
  useLocalDatabase :: bool
  allowStateBlocks :: bool
  blocks_cache_block_verification :: bool
  validate_methods :: bool
  history_cache_enable :: bool

section \<open>Handlers\<close>

record handler =
  m_context :: bool
  m_id :: u32
  m_async :: bool
  m_reader :: json
  m_writer :: json
  m_sent :: "(string \<times> json) option"

definition base_handler :: "bool \<Rightarrow> handler" where
  "base_handler ctx = \<lparr>m_context = ctx, m_id = 0, m_async = False, m_reader = JNull,
     m_writer = json_rpc_writer, m_sent = None\<rparr>"

text \<open>The catch clauses of \<^verbatim>\<open>END_TRY\<close>.\<close>

definition catch_error :: "exc \<Rightarrow> 'a handler_scheme \<Rightarrow> 'a handler_scheme" where
  "catch_error e h =
     (let w = writer_reset (m_writer h)
      in h\<lparr>m_writer :=
        (case e of
           InvalidParam code what additional \<Rightarrow>
             let w = set_error code (c_str what) w
             in (case additional of
                   None \<Rightarrow> w
                 | Some a \<Rightarrow> if a = [] then w else add_error_data ''description'' (JString (c_str a)) w)
         | StringExc ex \<Rightarrow> set_error (-32602) (c_str ex) w
         | StdExc what \<Rightarrow> set_error (-32603) (c_str what) w
         | _ \<Rightarrow> set_error (-32603) ''Unknown exception'' w)\<rparr>)"

text \<open>\<^verbatim>\<open>END_TRY(return false)\<close> around \<^verbatim>\<open>prepare_params\<close> and \<^verbatim>\<open>END_TRY()\<close> around \<^verbatim>\<open>execute\<close>; what the body wrote
  before it threw is reset.\<close>

definition try_bool :: "'a handler_scheme \<Rightarrow> (bool \<times> 'a handler_scheme) fallible \<Rightarrow> bool \<times> 'a handler_scheme" where
  "try_bool h body = (case body of Inl e \<Rightarrow> (False, catch_error e h) | Inr r \<Rightarrow> r)"

definition try_exec :: "'a handler_scheme \<Rightarrow> 'a handler_scheme fallible \<Rightarrow> 'a handler_scheme" where
  "try_exec h body = (case body of Inl e \<Rightarrow> catch_error e h | Inr h' \<Rightarrow> h')"

definition require_params :: "'a handler_scheme \<Rightarrow> (json \<Rightarrow> 'b fallible) \<Rightarrow> 'b fallible" where
  "require_params h rest =
     CHK_REQ (m_id h \<noteq> 0) ''id field not found''
       (bindE (fetch (get_params (m_reader h)) (-32600) ''params field not found'') rest)"

definition upd_writer :: "(json \<Rightarrow> json) \<Rightarrow> 'a handler_scheme \<Rightarrow> 'a handler_scheme" where
  "upd_writer f h = h\<lparr>m_writer := f (m_writer h)\<rparr>"

text \<open>A parameter that is passed on to the node, which happens only without the local database.\<close>

definition pass_param :: "'k handler_env \<Rightarrow> string \<Rightarrow> json \<Rightarrow> 'a handler_scheme \<Rightarrow> 'a handler_scheme" where
  "pass_param E name v h = (if useLocalDatabase E then h else upd_writer (add_param name v) h)"

subsection \<open>Preparing and performing\<close>

definition finish_prepare :: "('a handler_scheme \<Rightarrow> bool \<times> 'a handler_scheme) \<Rightarrow> 'a handler_scheme \<Rightarrow>
    bool \<times> 'a handler_scheme" where
  "finish_prepare prepare_params h =
     (let (complete, h) = prepare_params h
      in (complete,
          if \<not> complete \<and> \<not> m_async h \<and> \<not> is_error (m_writer h)
          then upd_writer (\<lambda>w. set_error (-32602) ''Invalid params'' (writer_reset w)) h
          else h))"

definition parse_message :: "'k handler_env \<Rightarrow> string \<Rightarrow> string \<Rightarrow> string \<Rightarrow> string" where
  "parse_message E intro sep txt = intro @ to_string (e_parse_code E txt) @ sep @ e_parse_text E txt"

definition prepare :: "'k handler_env \<Rightarrow> ('a handler_scheme \<Rightarrow> bool \<times> 'a handler_scheme) \<Rightarrow> string \<Rightarrow>
    'a handler_scheme \<Rightarrow> bool \<times> 'a handler_scheme" where
  "prepare E prepare_params params h =
     (case e_Parse E params of
        None \<Rightarrow> (False, catch_error (InvalidParam (-32700) (parse_message E ''Parse json error '' '': '' params) None) h)
      | Some doc \<Rightarrow>
          let h = h\<lparr>m_reader := doc\<rparr>
          in case get_id doc of
               Inl e \<Rightarrow> (False, catch_error e h)
             | Inr i \<Rightarrow>
                 let h = upd_writer (set_id i) (h\<lparr>m_id := i\<rparr>)
                 in if validate_methods E
                    then case e_methods_schema E of
                           None \<Rightarrow> (False, catch_error (InvalidParam (-32600) ''Could not load validation schema'' None) h)
                         | Some validate \<Rightarrow>
                             (case validate doc of
                                None \<Rightarrow> finish_prepare prepare_params h
                              | Some err \<Rightarrow>
                                  (False, upd_writer (\<lambda>w. set_error_data err
                                     (set_error (-32600) (c_str (''Json validation error for method '' @ get_method doc)) w)) h))
                    else finish_prepare prepare_params h)"

definition perform :: "'k handler_env \<Rightarrow> 'a handler_scheme \<Rightarrow> ('a handler_scheme \<Rightarrow> bool \<times> 'a handler_scheme) \<Rightarrow>
    ('a handler_scheme \<Rightarrow> 'a handler_scheme) \<Rightarrow> string \<Rightarrow> 'a handler_scheme" where
  "perform E obj prepare_params execute params =
     (let (ok, h) = prepare E prepare_params params obj in if ok then execute h else h)"

text \<open>\<^verbatim>\<open>result()\<close>: whether the reply comes later, and the reply.\<close>

definition result :: "'a handler_scheme \<Rightarrow> bool \<times> json" where
  "result h = (m_async h, m_writer h)"

subsection \<open>Forwarding to a node\<close>

definition network_execute :: "'a handler_scheme \<Rightarrow> 'a handler_scheme" where
  "network_execute h = h\<lparr>m_sent := Some (c_str (get_method (m_reader h)), m_writer h), m_async := m_context h\<rparr>"

definition json_rpc_service :: "string list" where
  "json_rpc_service = [''id'', ''version'', ''result'', ''error'']"

fun copy_members :: "(string \<times> json) list \<Rightarrow> json \<Rightarrow> json" where
  "copy_members [] w = w"
| "copy_members ((name, v) # ms) w =
     copy_members ms (if name \<in> set json_rpc_service then w else add_value (c_str name) v w)"

text \<open>\<^verbatim>\<open>process_response\<close> may throw after it wrote, so it gives the state and the exception.\<close>

type_synonym 'a response_step = "json \<Rightarrow> 'a \<Rightarrow> 'a \<times> exc option"

definition network_process_response :: "'a handler_scheme response_step" where
  "network_process_response doc h =
     (case get_error doc of
        Some err \<Rightarrow> (upd_writer (\<lambda>w. copy_members (members doc) (set_error_value err w)) h, None)
      | None \<Rightarrow>
          (case get_result doc of
             Some res \<Rightarrow> (upd_writer (\<lambda>w. copy_members (members doc) (set_result res w)) h, None)
           | None \<Rightarrow> (h, Some (InvalidParam (-32602) ''No occur result or error'' None))))"

text \<open>The document \<^verbatim>\<open>send_response\<close> sends is the writer of the result.\<close>

definition on_complete :: "'k handler_env \<Rightarrow> 'a handler_scheme response_step \<Rightarrow> string \<Rightarrow> 'a handler_scheme \<Rightarrow> 'a handler_scheme" where
  "on_complete E process_response res h =
     (let h = upd_writer writer_reset h
      in case e_Parse E res of
           None \<Rightarrow> catch_error (InvalidParam (-32602) (parse_message E ''Invalid response json, parse error ('' ''): '' res) None) h
         | Some doc \<Rightarrow>
             if get_error doc = None \<and> get_result doc = None
             then catch_error (InvalidParam (-32602) ''No occur result or error'' None) h
             else case process_response doc h of
                    (h, None) \<Rightarrow> h
                  | (h, Some e) \<Rightarrow> catch_error e h)"

section \<open>Shared steps\<close>

definition with_sync :: "'k handler_env \<Rightarrow> (sync_api \<Rightarrow> 'a fallible) \<Rightarrow> 'a fallible" where
  "with_sync E rest = bindE (fetch (e_sync E) (-32602) ''Sync not set'') rest"

definition require_id :: "'a handler_scheme \<Rightarrow> bool \<times> 'a handler_scheme" where
  "require_id h = try_bool h (CHK_REQ (m_id h \<noteq> 0) ''id field not found'' (Inr (True, h)))"

text \<open>A reply computed from the document of the writer.\<close>

definition fill :: "(json \<Rightarrow> json fallible) \<Rightarrow> 'a handler_scheme \<Rightarrow> 'a handler_scheme fallible" where
  "fill f h = bindE (f (m_writer h)) (\<lambda>w. Inr (h\<lparr>m_writer := w\<rparr>))"

text \<open>\<^verbatim>\<open>HasMember(name) && [name].IsInt64()\<close> with its \<^verbatim>\<open>GetInt64\<close> stored in an unsigned integer of a width.\<close>

definition int64_member :: "nat \<Rightarrow> string \<Rightarrow> json \<Rightarrow> nat option" where
  "int64_member width name params =
     (case FindMember name params of
        None \<Rightarrow> None
      | Some v \<Rightarrow> map_option (\<lambda>i. nat (i mod 2 ^ width)) (as_int64 v))"

definition opt_member :: "nat \<Rightarrow> string \<Rightarrow> json \<Rightarrow> nat \<Rightarrow> nat" where
  "opt_member width name params def = (case int64_member width name params of Some v \<Rightarrow> v | None \<Rightarrow> def)"

definition quoted :: "string \<Rightarrow> string" where
  "quoted s = [CHR 0x27] @ s @ [CHR 0x27]"

section \<open>Replies\<close>

text \<open>
  \<open>envelope\<close> is what every document the writer holds has: the protocol version, the identifier of the
  request and no member twice.  An open writer has neither a result nor an error yet, a reply has one of
  the two.
\<close>

definition id_json :: "u32 \<Rightarrow> json" where
  "id_json i = (if i = 0 then JNull else JInt (uint i))"

definition envelope :: "u32 \<Rightarrow> json \<Rightarrow> bool" where
  "envelope i w \<longleftrightarrow> IsObject w \<and> FindMember ''jsonrpc'' w = Some (JString ''2.0'') \<and>
     FindMember ''id'' w = Some (id_json i) \<and> distinct (map fst (members w))"

definition open_writer :: "u32 \<Rightarrow> json \<Rightarrow> bool" where
  "open_writer i w \<longleftrightarrow> envelope i w \<and> FindMember ''result'' w = None \<and> FindMember ''error'' w = None"

definition error_reply :: "u32 \<Rightarrow> json \<Rightarrow> bool" where
  "error_reply i w \<longleftrightarrow> envelope i w \<and> FindMember ''result'' w = None \<and> FindMember ''error'' w \<noteq> None"

definition reply_ok :: "u32 \<Rightarrow> json \<Rightarrow> bool" where
  "reply_ok i w \<longleftrightarrow> envelope i w \<and> (FindMember ''result'' w = None) \<noteq> (FindMember ''error'' w = None)"

named_theorems reply_intros

lemma error_reply_ok [reply_intros]: "error_reply i w \<Longrightarrow> reply_ok i w"
  by (simp add: error_reply_def reply_ok_def)

lemma envelope_of:
  "open_writer i w \<Longrightarrow> envelope i w" "error_reply i w \<Longrightarrow> envelope i w" "reply_ok i w \<Longrightarrow> envelope i w"
  by (simp_all add: open_writer_def error_reply_def reply_ok_def)

lemma envelope_with_value:
  "envelope i w \<Longrightarrow> name \<noteq> ''jsonrpc'' \<Longrightarrow> name \<noteq> ''id'' \<Longrightarrow> envelope i (with_value name d f w)"
  by (simp add: envelope_def members_with_value distinct_upd_member)

lemma open_reset [reply_intros]:
  assumes "envelope i w"
  shows "open_writer i (writer_reset w)"
proof -
  have "distinct (map fst (members (writer_reset w)))"
    by (simp add: writer_reset_def Let_def members_with_value keys_upd_member)
  then show ?thesis
    using assms by (simp add: open_writer_def envelope_def FindMember_reset)
qed

lemma open_set_error [reply_intros]: "open_writer i w \<Longrightarrow> error_reply i (set_error code message w)"
  unfolding open_writer_def error_reply_def set_error_def by (simp add: envelope_with_value)

lemma error_set_error_data [reply_intros]: "error_reply i w \<Longrightarrow> error_reply i (set_error_data v w)"
  unfolding error_reply_def set_error_data_def by (simp add: envelope_with_value)

lemma error_add_error_data [reply_intros]: "error_reply i w \<Longrightarrow> error_reply i (add_error_data name v w)"
  unfolding error_reply_def add_error_data_def by (simp add: envelope_with_value)

lemma open_add_param [reply_intros]: "open_writer i w \<Longrightarrow> open_writer i (add_param name v w)"
  unfolding open_writer_def add_param_def by (simp add: envelope_with_value)

lemma open_set_result [reply_intros]: "open_writer i w \<Longrightarrow> reply_ok i (set_result v w)"
  unfolding open_writer_def reply_ok_def set_result_def by (simp add: envelope_with_value)

lemma open_set_error_value [reply_intros]: "open_writer i w \<Longrightarrow> reply_ok i (set_error_value v w)"
  unfolding open_writer_def reply_ok_def set_error_value_def by (simp add: envelope_with_value)

lemma open_add_result [reply_intros]: "open_writer i w \<Longrightarrow> reply_ok i (add_result name v w)"
  unfolding open_writer_def reply_ok_def add_result_def by (simp add: envelope_with_value)

lemma envelope_AddMember:
  "envelope i w \<Longrightarrow> FindMember name w = None \<Longrightarrow> envelope i (AddMember name v w)"
  by (auto simp: envelope_def FindMember_AddMember AddMember_def FindMember_def map_of_eq_None_iff)

lemma open_AddMember_result [reply_intros]: "open_writer i w \<Longrightarrow> reply_ok i (AddMember ''result'' v w)"
  by (simp add: open_writer_def reply_ok_def envelope_AddMember FindMember_AddMember)

lemma open_genErrorResponse [reply_intros]: "open_writer i w \<Longrightarrow> error_reply i (genErrorResponse J code err w)"
  by (simp add: open_writer_def error_reply_def genErrorResponse_def envelope_AddMember FindMember_AddMember)

lemma open_new_writer [reply_intros]: "open_writer i (set_id i json_rpc_writer)" "open_writer 0 json_rpc_writer"
proof -
  have "open_writer 0 (writer_reset (set_id 0 (JObject [])))"
    by (simp add: open_writer_def envelope_def id_json_def set_id_def writer_reset_def Let_def members_with_value keys_upd_member)
  then show o: "open_writer 0 json_rpc_writer"
    by (simp add: json_rpc_writer_def writer_reset_def set_id_def)
  then show "open_writer i (set_id i json_rpc_writer)"
    by (simp add: open_writer_def envelope_def id_json_def set_id_def members_with_value distinct_upd_member)
qed

lemma catch_error_reply:
  assumes "envelope i (m_writer h)"
  shows "error_reply i (m_writer (catch_error e h))"
  using open_set_error [OF open_reset [OF assms]]
  by (auto simp: catch_error_def Let_def split: exc.splits option.splits intro: error_add_error_data)

lemma catch_error_frame [simp]:
  "m_async (catch_error e h) = m_async h" "m_context (catch_error e h) = m_context h"
  by (simp_all add: catch_error_def Let_def)

lemma upd_writer_simps [simp]:
  "m_writer (upd_writer f h) = f (m_writer h)" "m_async (upd_writer f h) = m_async h"
  "m_context (upd_writer f h) = m_context h" "m_id (upd_writer f h) = m_id h" "m_reader (upd_writer f h) = m_reader h"
  by (simp_all add: upd_writer_def)

section \<open>The contract of a handler\<close>

definition ready :: "u32 \<Rightarrow> 'a handler_scheme \<Rightarrow> bool" where
  "ready i h \<longleftrightarrow> open_writer i (m_writer h) \<and> \<not> m_async h \<and> m_context h"

definition answered :: "u32 \<Rightarrow> 'a handler_scheme \<Rightarrow> bool" where
  "answered i h \<longleftrightarrow> m_async h \<or> reply_ok i (m_writer h)"

definition refused :: "u32 \<Rightarrow> 'a handler_scheme \<Rightarrow> bool" where
  "refused i h \<longleftrightarrow> m_async h \<or> error_reply i (m_writer h)"

text \<open>
  A handler that gets an open writer refuses the request with an error (or has started a request of its
  own), or prepares it such that executing it ends in a reply or in a request to a node.
\<close>

locale answering_handler =
  fixes prepare_params :: "'a handler_scheme \<Rightarrow> bool \<times> 'a handler_scheme"
    and execute :: "'a handler_scheme \<Rightarrow> 'a handler_scheme"
  assumes refuses: "ready i h \<Longrightarrow> prepare_params h = (False, h') \<Longrightarrow> refused i h'"
    and executes_prepared: "ready i h \<Longrightarrow> prepare_params h = (True, h') \<Longrightarrow> answered i (execute h')"
begin

lemma finish_answers:
  "ready i h \<Longrightarrow> finish_prepare prepare_params h = (True, h') \<Longrightarrow> answered i (execute h')"
  using executes_prepared by (cases "prepare_params h") (auto simp: finish_prepare_def)

lemma finish_refuses:
  assumes "ready i h" and "finish_prepare prepare_params h = (False, h')"
  shows "refused i h'"
proof -
  obtain h1 where h1: "prepare_params h = (False, h1)"
    using assms(2) by (cases "prepare_params h") (auto simp: finish_prepare_def)
  have "refused i h1" by (rule refuses [OF assms(1) h1])
  moreover have "error_reply i w \<Longrightarrow> is_error w" for w
    by (auto simp: error_reply_def envelope_def is_error_def HasMember_def)
  ultimately show ?thesis
    using assms(2) h1 by (auto simp: finish_prepare_def refused_def split: if_splits)
qed

text \<open>The identifier of a request is 0 where it cannot be read.\<close>

lemma prepare_outcome:
  assumes obj: "m_writer obj = json_rpc_writer" "\<not> m_async obj" "m_context obj"
    and i: "i = (case e_Parse E params of Some doc \<Rightarrow> (case get_id doc of Inr i \<Rightarrow> i | Inl _ \<Rightarrow> 0) | None \<Rightarrow> 0)"
  shows "case prepare E prepare_params params obj of (ok, h) \<Rightarrow> if ok then answered i (execute h) else refused i h"
proof -
  let ?R = "\<lambda>(ok, h). if ok then answered i (execute h) else refused i h"
  have w0: "error_reply 0 (m_writer (catch_error e (obj\<lparr>m_reader := doc\<rparr>)))"
    "error_reply 0 (m_writer (catch_error e obj))" for e doc
    using envelope_of(1) [OF open_new_writer(2)] by (auto intro!: catch_error_reply simp: obj)
  show ?thesis
  proof (cases "e_Parse E params")
    case None
    then show ?thesis using i w0(2) by (simp add: prepare_def refused_def)
  next
    case (Some doc)
    show ?thesis
    proof (cases "get_id doc")
      case (Inl e)
      then show ?thesis using Some i w0(1) by (simp add: prepare_def refused_def)
    next
      case (Inr j)
      then have j: "j = i" using Some i by simp
      let ?h = "upd_writer (set_id i) (obj\<lparr>m_reader := doc, m_id := i\<rparr>)"
      have r: "ready i ?h" using open_new_writer(1) obj by (simp add: ready_def)
      have f: "?R (finish_prepare prepare_params ?h)"
        using finish_answers [OF r] finish_refuses [OF r]
        by (cases "finish_prepare prepare_params ?h"; cases "fst (finish_prepare prepare_params ?h)") auto
      have o: "open_writer i (m_writer ?h)" using r by (simp add: ready_def)
      have "error_reply i (m_writer (catch_error e ?h))" for e
        using o by (intro catch_error_reply envelope_of)
      moreover have "error_reply i (set_error_data err (set_error c m (m_writer ?h)))" for err c m
        using o by (intro reply_intros)
      ultimately show ?thesis
        using f Some Inr j by (auto simp: prepare_def refused_def Let_def split: option.split)
    qed
  qed
qed

lemma perform_answers:
  assumes obj: "m_writer obj = json_rpc_writer" "\<not> m_async obj" "m_context obj"
    and i: "i = (case e_Parse E params of Some doc \<Rightarrow> (case get_id doc of Inr i \<Rightarrow> i | Inl _ \<Rightarrow> 0) | None \<Rightarrow> 0)"
  shows "answered i (perform E obj prepare_params execute params)"
  using prepare_outcome [OF obj i]
  by (auto simp: perform_def refused_def answered_def split: prod.splits if_splits intro: reply_intros)

text \<open>A result is there only after the preparation succeeded.\<close>

lemma perform_result:
  assumes obj: "m_writer obj = json_rpc_writer" "\<not> m_async obj" "m_context obj"
    and h: "h = perform E obj prepare_params execute params" "\<not> m_async h" "FindMember ''result'' (m_writer h) \<noteq> None"
  shows "\<exists>doc i h1. e_Parse E params = Some doc \<and> get_id doc = Inr i \<and>
     prepare_params (upd_writer (set_id i) (obj\<lparr>m_reader := doc, m_id := i\<rparr>)) = (True, h1) \<and> h = execute h1"
proof -
  obtain ok h1 where p: "prepare E prepare_params params obj = (ok, h1)" by (cases "prepare E prepare_params params obj")
  have "ok"
  proof (rule ccontr)
    assume "\<not> ok"
    then have "h = h1" using p h(1) by (simp add: perform_def)
    moreover have "\<not> refused i h" for i using h(2,3) by (auto simp: refused_def error_reply_def)
    ultimately show False
      using p \<open>\<not> ok\<close> prepare_outcome [OF obj refl, of E params] by simp
  qed
  then obtain doc i where d: "e_Parse E params = Some doc" "get_id doc = Inr i"
    and f: "finish_prepare prepare_params (upd_writer (set_id i) (obj\<lparr>m_reader := doc, m_id := i\<rparr>)) = (True, h1)"
    using p by (auto simp: prepare_def Let_def split: option.splits sum.splits if_splits)
  then have "prepare_params (upd_writer (set_id i) (obj\<lparr>m_reader := doc, m_id := i\<rparr>)) = (True, h1)"
    by (auto simp: finish_prepare_def split: prod.splits if_splits)
  then show ?thesis using d h(1) p \<open>ok\<close> by (auto simp: perform_def)
qed

end

text \<open>Most handlers leave the writer open when they prepare, and can execute whatever is ready.\<close>

locale json_handler =
  fixes prepare_params :: "'a handler_scheme \<Rightarrow> bool \<times> 'a handler_scheme"
    and execute :: "'a handler_scheme \<Rightarrow> 'a handler_scheme"
  assumes prepares: "ready i h \<Longrightarrow> prepare_params h = (True, h') \<Longrightarrow> ready i h'"
    and prepare_refuses: "ready i h \<Longrightarrow> prepare_params h = (False, h') \<Longrightarrow> refused i h'"
    and executes: "ready i h \<Longrightarrow> answered i (execute h)"

sublocale json_handler \<subseteq> answering_handler
  by unfold_locales (use prepares prepare_refuses executes in blast)+

subsection \<open>Bodies under a try\<close>

text \<open>A body that throws leaves an error; so it is enough to look at the bodies that return.\<close>

lemma ready_envelope: "ready i h \<Longrightarrow> envelope i (m_writer h)"
  by (simp add: ready_def envelope_of)

lemma try_bool_refuses:
  assumes "ready i h" and "try_bool h body = (False, h')" and "\<And>h1. body = Inr (False, h1) \<Longrightarrow> refused i h1"
  shows "refused i h'"
  using assms catch_error_reply [OF ready_envelope [OF assms(1)]]
  by (auto simp: try_bool_def refused_def split: sum.splits)

lemma try_bool_True: "try_bool h body = (True, h') \<longleftrightarrow> body = Inr (True, h')"
  by (auto simp: try_bool_def split: sum.splits)

lemma try_exec_answers:
  assumes "ready i h" and "\<And>h1. body = Inr h1 \<Longrightarrow> answered i h1"
  shows "answered i (try_exec h body)"
  using assms catch_error_reply [OF ready_envelope [OF assms(1)]]
  by (auto simp: try_exec_def answered_def intro: reply_intros split: sum.splits)

lemma require_params_Inr:
  "require_params h rest = Inr y \<longleftrightarrow> m_id h \<noteq> 0 \<and> (\<exists>params. get_params (m_reader h) = Some params \<and> rest params = Inr y)"
  by (auto simp: require_params_def CHK_Inr bindE_Inr_conv)

lemma ready_upd_writer: "ready i h \<Longrightarrow> open_writer i (f (m_writer h)) \<Longrightarrow> ready i (upd_writer f h)"
  by (simp add: ready_def)

lemma ready_add_param [reply_intros]: "ready i h \<Longrightarrow> ready i (upd_writer (add_param name v) h)"
  by (auto simp: ready_def intro: reply_intros)

lemma ready_pass_param [reply_intros]: "ready i h \<Longrightarrow> ready i (pass_param E name v h)"
  by (auto simp: pass_param_def ready_def intro: reply_intros)

lemma answered_upd_writer: "ready i h \<Longrightarrow> reply_ok i (f (m_writer h)) \<Longrightarrow> answered i (upd_writer f h)"
  by (simp add: answered_def)

lemma answered_fill:
  assumes "fill f h = Inr h'" and "\<And>w. f (m_writer h) = Inr w \<Longrightarrow> reply_ok i w"
  shows "answered i h'"
  using assms by (auto simp: fill_def bindE_Inr_conv answered_def)

lemma ready_reset: "ready i h \<Longrightarrow> ready i (upd_writer writer_reset h)"
  by (auto simp: ready_def intro: reply_intros envelope_of)

lemma ready_open: "ready i h \<Longrightarrow> open_writer i (m_writer h)"
  by (simp add: ready_def)

lemmas body_conv = try_bool_True require_params_Inr bindE_Inr_conv CHK_Inr with_sync_def require_Inr_conv

lemma require_id_contract:
  "ready i h \<Longrightarrow> require_id h = (True, h') \<Longrightarrow> ready i h'"
  "ready i h \<Longrightarrow> require_id h = (False, h') \<Longrightarrow> refused i h'"
  by (auto simp: require_id_def body_conv elim!: try_bool_refuses)

subsection \<open>Handlers that forward\<close>

lemma network_executes: "ready i h \<Longrightarrow> answered i (network_execute h)"
  by (simp add: ready_def answered_def network_execute_def)

lemma local_or_network:
  assumes "ready i h" and "\<And>h'. local = Inr h' \<Longrightarrow> answered i h'"
  shows "answered i (try_exec h (if b then local else Inr (network_execute h)))"
  using assms network_executes [OF assms(1)] by (intro try_exec_answers) (auto split: if_splits)

text \<open>An answer of a node: no member name contains a NUL, and the protocol version is the one of the
  client.\<close>

definition node_document :: "json \<Rightarrow> bool" where
  "node_document doc \<longleftrightarrow> (\<forall>(k, v)\<in>set (members doc). CHR 0x00 \<notin> set k \<and> (k = ''jsonrpc'' \<longrightarrow> v = JString ''2.0''))"

lemma copy_members_frame:
  assumes "\<forall>(k, v)\<in>set ms. CHR 0x00 \<notin> set k \<and> (k = ''jsonrpc'' \<longrightarrow> v = JString ''2.0'')" and "envelope i w"
  shows "envelope i (copy_members ms w) \<and> FindMember ''result'' (copy_members ms w) = FindMember ''result'' w \<and>
    FindMember ''error'' (copy_members ms w) = FindMember ''error'' w"
  using assms
proof (induction ms arbitrary: w)
  case (Cons m ms)
  obtain k v where m: "m = (k, v)" by (cases m)
  have c: "c_str k = k" using Cons.prems(1) m by (simp add: c_str_no_nul)
  let ?w = "if k \<in> set json_rpc_service then w else add_value (c_str k) v w"
  have "envelope i ?w \<and> FindMember ''result'' ?w = FindMember ''result'' w \<and> FindMember ''error'' ?w = FindMember ''error'' w"
    using Cons.prems m c
    by (auto simp: json_rpc_service_def add_value_def envelope_def members_with_value distinct_upd_member)
  then show ?case using Cons.IH [of ?w] Cons.prems m by simp
qed simp

locale response_handler =
  fixes process_response :: "'a handler_scheme response_step"
  assumes processes: "open_writer i (m_writer h) \<Longrightarrow> node_document doc \<Longrightarrow> IsObject doc \<Longrightarrow>
      process_response doc h = (h', None) \<Longrightarrow> reply_ok i (m_writer h')"
    and throws: "open_writer i (m_writer h) \<Longrightarrow> node_document doc \<Longrightarrow> IsObject doc \<Longrightarrow>
      process_response doc h = (h', Some e) \<Longrightarrow> envelope i (m_writer h')"
begin

lemma on_complete_replies:
  assumes "envelope i (m_writer h)" and "\<And>doc. e_Parse E res = Some doc \<Longrightarrow> node_document doc"
  shows "reply_ok i (m_writer (on_complete E process_response res h))"
proof -
  let ?h = "upd_writer writer_reset h"
  have o: "open_writer i (m_writer ?h)" using assms(1) by (simp add: open_reset)
  have c: "reply_ok i (m_writer (catch_error e ?h))" for e
    using o by (intro reply_intros catch_error_reply envelope_of)
  show ?thesis
  proof (cases "e_Parse E res")
    case None
    then show ?thesis using c by (simp add: on_complete_def)
  next
    case (Some doc)
    have obj: "IsObject doc" if "\<not> (get_error doc = None \<and> get_result doc = None)"
      using that by (auto simp: get_error_def get_result_def reader_get_def split: if_splits)
    obtain h' e where p: "process_response doc ?h = (h', e)" by (cases "process_response doc ?h")
    have "reply_ok i (m_writer (case e of None \<Rightarrow> h' | Some e \<Rightarrow> catch_error e h'))" if "IsObject doc"
      using processes [OF o assms(2) [OF Some] that, of h'] throws [OF o assms(2) [OF Some] that, of h'] p
      by (cases e) (auto intro: reply_intros catch_error_reply)
    then show ?thesis
      using Some obj c p by (auto simp: on_complete_def Let_def split: option.splits)
  qed
qed

end

locale network_handler = json_handler prepare_params execute + response_handler process_response
  for prepare_params :: "'a handler_scheme \<Rightarrow> bool \<times> 'a handler_scheme" and execute process_response

lemma network_processes:
  assumes "open_writer i (m_writer h)" and "node_document doc" and "IsObject doc"
  shows "case network_process_response doc h of
      (h', None) \<Rightarrow> reply_ok i (m_writer h') | (h', Some _) \<Rightarrow> envelope i (m_writer h')"
proof -
  have "reply_ok i (copy_members (members doc) w)" if "reply_ok i w" for w
    using copy_members_frame [of "members doc" i w] that assms(2) by (simp add: node_document_def reply_ok_def)
  then show ?thesis
    using assms(1) by (auto simp: network_process_response_def intro: reply_intros envelope_of split: option.splits)
qed

lemma default_response: "response_handler network_process_response"
  by unfold_locales (use network_processes in fastforce)+

lemma default_network_handler:
  assumes "json_handler prepare_params execute"
  shows "network_handler prepare_params execute network_process_response"
  by (intro network_handler.intro assms default_response)

end
