(* ===== verification/Block_Handlers.thy ===== *)
theory Block_Handlers
  imports Handler_Base
begin

text \<open>
  The handlers that answer with blocks and transactions, from the block cache, from the local database
  or by asking a node: \<^verbatim>\<open>get_count_blocks_handler\<close>, \<^verbatim>\<open>get_blocks_handler\<close>, \<^verbatim>\<open>get_block_base\<close> and
  \<^verbatim>\<open>get_dump_block_base\<close> with their variants by hash and by number, \<^verbatim>\<open>get_tx_handler\<close>,
  \<^verbatim>\<open>get_last_txs_handler\<close>, and the \<^verbatim>\<open>_sync\<close> handlers that are used with the local database.  Every
  pair of \<^verbatim>\<open>prepare_params\<close> and \<^verbatim>\<open>execute\<close> interprets the contract of a handler.
\<close>

section \<open>get-count-blocks, get-last-txs, get-blocks\<close>

definition get_count_blocks_execute :: "'k handler_env \<Rightarrow> handler \<Rightarrow> handler" where
  "get_count_blocks_execute E h = try_exec h
     (if useLocalDatabase E
      then with_sync E (\<lambda>sync. Inr (upd_writer (genCountBlockJson (e_json E) (countBlocks sync) V1) h))
      else if runing (e_cache E)
      then Inr (upd_writer (genCountBlockJson (e_json E) (last_signed_block (e_cache E)) V1) h)
      else Inr (network_execute h))"

definition get_count_blocks_sync :: "'k handler_env \<Rightarrow> handler \<Rightarrow> handler" where
  "get_count_blocks_sync E h = try_exec h
     (with_sync E (\<lambda>sync. Inr (upd_writer (genCountBlockJson (e_json E) (countBlocks sync) V1) h)))"

definition opt_string_param :: "json \<Rightarrow> string \<Rightarrow> 'a handler_scheme \<Rightarrow> 'a handler_scheme" where
  "opt_string_param params name h =
     (case get_value as_string params name of
        Some s \<Rightarrow> upd_writer (add_param name (JString s)) h | None \<Rightarrow> h)"

definition get_blocks_prepare :: "handler \<Rightarrow> bool \<times> handler" where
  "get_blocks_prepare h = try_bool h (require_params h (\<lambda>params.
     bindE (fetch (get_value as_uint64 params ''countBlocks'') (-32602) (quoted ''countBlocks'' @ '' field not found'')) (\<lambda>cnt.
       let h = upd_writer (add_param ''countBlocks'' (JInt (int cnt))) h
       in bindE (fetch (get_value as_uint64 params ''beginBlock'') (-32602) (quoted ''beginBlock'' @ '' field not found'')) (\<lambda>from.
            let h = upd_writer (add_param ''beginBlock'' (JInt (int from))) h
            in Inr (True, opt_string_param params ''direction'' (opt_string_param params ''type'' h))))))"

section \<open>get-block-by-hash, get-block-by-number\<close>

datatype block_id = BlockNumber nat | BlockHash string

record get_block_base = handler +
  m_block_id :: block_id
  m_type :: nat
  m_countTxs :: nat
  m_beginTx :: nat

definition new_get_block :: "bool \<Rightarrow> get_block_base" where
  "new_get_block ctx = handler.extend (base_handler ctx)
     \<lparr>m_block_id = BlockNumber 0, m_type = 0, m_countTxs = 0, m_beginTx = 0\<rparr>"

definition get_block_id :: "block_id \<Rightarrow> string" where
  "get_block_id b = (case b of BlockNumber n \<Rightarrow> to_string n | BlockHash s \<Rightarrow> s)"

definition block_hash_param :: "'k handler_env \<Rightarrow> json \<Rightarrow> get_block_base \<Rightarrow> get_block_base fallible" where
  "block_hash_param E params h =
     bindE (fetch (get_value as_string params ''hash'') (-32602) ''hash field not found'') (\<lambda>hash.
       CHK_PRM (hash \<noteq> []) ''hash is empty''
         (Inr ((pass_param E ''hash'' (JString hash) h)\<lparr>m_block_id := BlockHash hash\<rparr>)))"

definition block_number_param :: "'k handler_env \<Rightarrow> json \<Rightarrow> get_block_base \<Rightarrow> get_block_base fallible" where
  "block_number_param E params h =
     bindE (fetch (get_value as_uint64 params ''number'') (-32602) ''number field not found'') (\<lambda>number.
       Inr ((pass_param E ''number'' (JInt (int number)) h)\<lparr>m_block_id := BlockNumber number\<rparr>))"

definition block_type_param :: "'k handler_env \<Rightarrow> json \<Rightarrow> get_block_base \<Rightarrow> get_block_base" where
  "block_type_param E params h =
     (case reader_get ''type'' params of
        None \<Rightarrow> h
      | Some t \<Rightarrow>
          (case as_string t of
             Some s \<Rightarrow> pass_param E ''type'' (JString (c_str s)) h
           | None \<Rightarrow>
               (case as_uint t of
                  Some n \<Rightarrow> pass_param E ''type'' (JInt (int n)) (h\<lparr>m_type := n\<rparr>)
                | None \<Rightarrow> h)))"

definition get_block_prepare :: "'k handler_env \<Rightarrow> (json \<Rightarrow> get_block_base \<Rightarrow> get_block_base fallible) \<Rightarrow>
    get_block_base \<Rightarrow> bool \<times> get_block_base" where
  "get_block_prepare E set_block_id h = try_bool h (require_params h (\<lambda>params.
     bindE (set_block_id params h) (\<lambda>h.
       let h = (case get_value as_uint64 params ''countTxs'' of
                  Some n \<Rightarrow> pass_param E ''countTxs'' (JInt (int n)) (h\<lparr>m_countTxs := n\<rparr>) | None \<Rightarrow> h);
           h = (case get_value as_uint64 params ''beginTx'' of
                  Some n \<Rightarrow> pass_param E ''beginTx'' (JInt (int n)) (h\<lparr>m_beginTx := n\<rparr>) | None \<Rightarrow> h)
       in Inr (True, block_type_param E params h))))"

definition cached_dump :: "'k handler_env \<Rightarrow> block_id \<Rightarrow> string option" where
  "cached_dump E b =
     (case b of
        BlockNumber n \<Rightarrow> get_block_by_num (e_cache E) n (blocks_cache_block_verification E)
      | BlockHash s \<Rightarrow> snd (get_block_by_hash (e_cache E) s (blocks_cache_block_verification E)))"

text \<open>For a request by hash the number of the block is \<^verbatim>\<open>std::atoi\<close> of the hash.\<close>

definition served_number :: "block_id \<Rightarrow> nat" where
  "served_number b = (case b of BlockNumber n \<Rightarrow> n | BlockHash s \<Rightarrow> atoi_number s)"

definition extra_signatures :: "'k handler_env \<Rightarrow> nat \<Rightarrow> AnyTxInfo fallible" where
  "extra_signatures E number =
     (case get_extra_block_for (e_cache E) number of
        None \<Rightarrow> Inr (Txs [])
      | Some dump \<Rightarrow>
          bindE (parseBlockDump (e_torrent E) dump)
            (\<lambda>b. Inr (case b of SomeSignBlock sbi \<Rightarrow> SignTxs (sb_txs sbi) | _ \<Rightarrow> Txs [])))"

definition block_json :: "'k handler_env \<Rightarrow> nat \<Rightarrow> BlockInfo \<Rightarrow> AnyTxInfo \<Rightarrow> json \<Rightarrow> json fallible" where
  "block_json E type bi txs doc =
     (if type = 0 \<or> type = 4 then blockHeaderToJson (e_torrent E) (e_json E) (bi_header bi) txs V1 doc
      else blockInfoToJson (e_torrent E) (e_json E) bi txs type V1 doc)"

definition serve_dump :: "'k handler_env \<Rightarrow> string \<Rightarrow> get_block_base \<Rightarrow> get_block_base fallible" where
  "serve_dump E dump h =
     (let h = upd_writer writer_reset h
      in bindE (parseBlockDump (e_torrent E) dump) (\<lambda>b.
           case b of
             SomeBlock bi \<Rightarrow>
               (let n = served_number (m_block_id h);
                    bi = bi\<lparr>bi_header := (bi_header bi)\<lparr>bh_blockNumber := Some n, bh_countTxs := length (bi_txs bi)\<rparr>\<rparr>
                in if \<not> allowStateBlocks E \<and> isStateBlock (e_torrent E) (bi_header bi)
                   then Inr (upd_writer (genErrorResponse (e_json E) (-32603)
                          (''The block '' @ get_block_id (m_block_id h) @ '' is a state block and has been ignored'')) h)
                   else bindE (extra_signatures E n) (\<lambda>txs. fill (block_json E (m_type h) bi txs) h))
           | _ \<Rightarrow> Inl (InvalidParam (-32602) ''Incorrect block type'' None)))"
text \<open>With the local database: the signatures are those in the next block.\<close>

definition next_signatures :: "sync_api \<Rightarrow> nat \<Rightarrow> AnyTxInfo fallible" where
  "next_signatures sync number =
     (let nextBh = getBlock_number sync ((number + 1) mod 2 ^ 64)
      in if bh_blockNumber nextBh = None then Inr (Txs [])
         else bindE (getFullBlock sync nextBh 0 10) (\<lambda>bi. Inr (Txs (getBlockSignatures sync bi))))"

definition local_block_json :: "'k handler_env \<Rightarrow> sync_api \<Rightarrow> BlockHeader \<Rightarrow> nat \<Rightarrow> nat \<Rightarrow> nat \<Rightarrow> AnyTxInfo \<Rightarrow> json \<Rightarrow> json fallible" where
  "local_block_json E sync bh type beginTx countTxs signs doc =
     (if type = 0 \<or> type = 4 then blockHeaderToJson (e_torrent E) (e_json E) bh signs V1 doc
      else bindE (getFullBlock sync bh beginTx countTxs) (\<lambda>bi.
             blockInfoToJson (e_torrent E) (e_json E) bi signs type V1 doc))"

definition get_block_local :: "'k handler_env \<Rightarrow> get_block_base \<Rightarrow> get_block_base fallible" where
  "get_block_local E h = with_sync E (\<lambda>sync.
     let bh = (case m_block_id h of BlockNumber n \<Rightarrow> getBlock_number sync n | BlockHash s \<Rightarrow> getBlock_hash sync s);
         fail = (\<lambda>why. Inr (upd_writer (genErrorResponse (e_json E) (-32603)
                   (''block '' @ get_block_id (m_block_id h) @ why)) h))
     in if \<not> allowStateBlocks E \<and> isStateBlock (e_torrent E) bh then fail '' is a state block and was ignored''
        else case bh_blockNumber bh of
               None \<Rightarrow> fail '' has not found''
             | Some n \<Rightarrow> bindE (next_signatures sync n) (\<lambda>signs.
                 fill (local_block_json E sync bh (m_type h) (m_beginTx h) (m_countTxs h) signs) h))"

definition get_block_execute :: "'k handler_env \<Rightarrow> get_block_base \<Rightarrow> get_block_base" where
  "get_block_execute E h = try_exec h
     (if runing (e_cache E)
      then case cached_dump E (m_block_id h) of
             Some dump \<Rightarrow> serve_dump E dump h
           | None \<Rightarrow> Inl (InvalidParam (-32602) ''The block does not exists or has not signed yet'' None)
      else if useLocalDatabase E then get_block_local E h
      else Inr (network_execute h))"

definition get_block_process_response :: "'k handler_env \<Rightarrow> get_block_base response_step" where
  "get_block_process_response E doc h =
     (case network_process_response doc h of
        (h, Some e) \<Rightarrow> (h, Some e)
      | (h, None) \<Rightarrow>
          (h, if \<not> allowStateBlocks E \<and>
                 (case get_result doc of Some res \<Rightarrow> get_value_view res ''type'' = Some ''state'' | None \<Rightarrow> False)
              then Some (InvalidParam (-32602) ''block is state-block and has been ignored'' None) else None))"

subsection \<open>The handlers for the local database\<close>

definition block_sync_params :: "json \<Rightarrow> get_block_base \<Rightarrow> get_block_base" where
  "block_sync_params params h = h\<lparr>m_type := opt_member 32 ''type'' params 0,
     m_countTxs := opt_member 64 ''countTxs'' params 0, m_beginTx := opt_member 64 ''beginTx'' params 0\<rparr>"

definition get_block_by_hash_sync_prepare :: "get_block_base \<Rightarrow> bool \<times> get_block_base" where
  "get_block_by_hash_sync_prepare h = try_bool h (require_params h (\<lambda>params.
     bindE (fetch (get_value as_string params ''hash'') (-32602) ''hash field not found'') (\<lambda>hash.
       CHK_PRM (hash \<noteq> []) ''hash is empty''
         (Inr (True, block_sync_params params (h\<lparr>m_block_id := BlockHash hash\<rparr>))))))"

definition get_block_by_number_sync_prepare :: "get_block_base \<Rightarrow> bool \<times> get_block_base" where
  "get_block_by_number_sync_prepare h = try_bool h (require_params h (\<lambda>params.
     bindE (fetch (int64_member 64 ''number'' params) (-32602) ''number field not found'') (\<lambda>number.
       Inr (True, block_sync_params params (h\<lparr>m_block_id := BlockNumber number\<rparr>)))))"

definition get_block_sync_execute :: "'k handler_env \<Rightarrow> get_block_base \<Rightarrow> get_block_base" where
  "get_block_sync_execute E h = try_exec h (with_sync E (\<lambda>sync.
     let bh = (case m_block_id h of BlockNumber n \<Rightarrow> getBlock_number sync n | BlockHash s \<Rightarrow> getBlock_hash sync s);
         fail = (\<lambda>why. Inr (upd_writer (genErrorResponse (e_json E) (-32603)
                   (''block '' @ get_block_id (m_block_id h) @ why)) h))
     in case bh_blockNumber bh of
          None \<Rightarrow> fail '' has not found''
        | Some n \<Rightarrow>
            if \<not> allowStateBlocks E \<and> isStateBlock (e_torrent E) bh then fail '' is state block and has been ignored''
            else bindE (next_signatures sync n) (\<lambda>signs.
                   fill (local_block_json E sync bh (m_type h) (m_beginTx h) (m_countTxs h) signs) h)))"

section \<open>get-dump-block-by-hash, get-dump-block-by-number\<close>

record get_dump_block_base = handler +
  d_block_id :: block_id
  m_fromByte :: nat
  m_toByte :: nat

text \<open>\<^verbatim>\<open>m_isHex\<close> is set by the constructor (by \<^verbatim>\<open>prepare_params\<close> of the \<^verbatim>\<open>_sync\<close> handlers) and never changed.\<close>

definition m_isHex :: bool where
  "m_isHex = True"

definition new_get_dump :: "bool \<Rightarrow> get_dump_block_base" where
  "new_get_dump ctx = handler.extend (base_handler ctx)
     \<lparr>d_block_id = BlockNumber 0, m_fromByte = 0, m_toByte = 2 ^ 64 - 1\<rparr>"

definition dump_hash_param :: "'k handler_env \<Rightarrow> json \<Rightarrow> get_dump_block_base \<Rightarrow> get_dump_block_base fallible" where
  "dump_hash_param E params h =
     bindE (fetch (get_value as_string params ''hash'') (-32602) ''hash field not found'') (\<lambda>hash.
       Inr ((pass_param E ''hash'' (JString hash) h)\<lparr>d_block_id := BlockHash hash\<rparr>))"

definition dump_number_param :: "'k handler_env \<Rightarrow> json \<Rightarrow> get_dump_block_base \<Rightarrow> get_dump_block_base fallible" where
  "dump_number_param E params h =
     bindE (fetch (get_value as_uint64 params ''number'') (-32602) ''number field not found'') (\<lambda>number.
       Inr ((pass_param E ''number'' (JInt (int number)) h)\<lparr>d_block_id := BlockNumber number\<rparr>))"

definition get_dump_prepare :: "'k handler_env \<Rightarrow> (json \<Rightarrow> get_dump_block_base \<Rightarrow> get_dump_block_base fallible) \<Rightarrow>
    get_dump_block_base \<Rightarrow> bool \<times> get_dump_block_base" where
  "get_dump_prepare E set_block_id h = try_bool h (require_params h (\<lambda>params.
     bindE (set_block_id params h) (\<lambda>h.
       let h = pass_param E ''isHex'' (JBool m_isHex) h;
           h = (case get_value as_uint64 params ''fromByte'' of Some n \<Rightarrow> h\<lparr>m_fromByte := n\<rparr> | None \<Rightarrow> h);
           h = (case get_value as_uint64 params ''toByte'' of Some n \<Rightarrow> h\<lparr>m_toByte := n\<rparr> | None \<Rightarrow> h)
       in Inr (True, h))))"

text \<open>The inner \<^verbatim>\<open>try\<close>: its clauses answer with the text of a \<^verbatim>\<open>CHECK\<close> and of a standard exception.\<close>

definition dump_error :: "'k handler_env \<Rightarrow> exc \<Rightarrow> json \<Rightarrow> json" where
  "dump_error E e = genErrorResponse (e_json E) (-32603)
     (case e of StringExc s \<Rightarrow> s | StdExc s \<Rightarrow> c_str s | _ \<Rightarrow> ''Unknown error'')"

definition local_dump :: "sync_api \<Rightarrow> block_id \<Rightarrow> string \<Rightarrow> nat \<Rightarrow> nat \<Rightarrow> bool \<Rightarrow> string fallible" where
  "local_dump sync b missing from to hex =
     (let bh = (case b of BlockNumber n \<Rightarrow> getBlock_number sync n | BlockHash s \<Rightarrow> getBlock_hash sync s)
      in require (bh_blockNumber bh \<noteq> None) (StringExc (''block '' @ get_block_id b @ missing))
           (bindE (getBlockDump sync (bh_hash bh) (bh_filePos bh) from to hex) (\<lambda>res.
              require (res \<noteq> []) (StringExc (''block '' @ get_block_id b @ '' not found'')) (Inr res))))"

definition get_dump_local :: "'k handler_env \<Rightarrow> string \<Rightarrow> get_dump_block_base \<Rightarrow> get_dump_block_base fallible" where
  "get_dump_local E missing h = with_sync E (\<lambda>sync. Inr
     (case local_dump sync (d_block_id h) missing (m_fromByte h) (m_toByte h) m_isHex of
        Inr res \<Rightarrow> if m_isHex then upd_writer (genBlockDumpJson (e_json E) res) h else h
      | Inl e \<Rightarrow> upd_writer (dump_error E e) h))"

definition get_dump_execute :: "'k handler_env \<Rightarrow> get_dump_block_base \<Rightarrow> get_dump_block_base" where
  "get_dump_execute E h = try_exec h
     (if runing (e_cache E)
      then case cached_dump E (d_block_id h) of
             Some dump \<Rightarrow>
               Inr (upd_writer (\<lambda>w. genBlockDumpJson (e_json E) (string_utils_bin2hex_append dump []) (writer_reset w)) h)
           | None \<Rightarrow> Inl (InvalidParam (-32602) ''The block does not exists or has not signed yet'' None)
      else if useLocalDatabase E then get_dump_local E '' has not found'' h
      else Inr (network_execute h))"

definition dump_sync_params :: "json \<Rightarrow> get_dump_block_base \<Rightarrow> get_dump_block_base" where
  "dump_sync_params params h = h\<lparr>m_fromByte := opt_member 64 ''fromByte'' params 0,
     m_toByte := opt_member 64 ''toByte'' params (2 ^ 64 - 1)\<rparr>"

definition get_dump_by_hash_sync_prepare :: "get_dump_block_base \<Rightarrow> bool \<times> get_dump_block_base" where
  "get_dump_by_hash_sync_prepare h = try_bool h (require_params h (\<lambda>params.
     bindE (fetch (get_value as_string params ''hash'') (-32602) ''hash field not found'') (\<lambda>hash.
       CHK_PRM (hash \<noteq> []) ''hash is empty''
         (Inr (True, dump_sync_params params (h\<lparr>d_block_id := BlockHash hash\<rparr>))))))"

definition get_dump_by_number_sync_prepare :: "get_dump_block_base \<Rightarrow> bool \<times> get_dump_block_base" where
  "get_dump_by_number_sync_prepare h = try_bool h (require_params h (\<lambda>params.
     bindE (fetch (int64_member 64 ''number'' params) (-32602) ''number field not found'') (\<lambda>number.
       Inr (True, dump_sync_params params (h\<lparr>d_block_id := BlockNumber number\<rparr>)))))"

definition get_dump_sync_execute :: "'k handler_env \<Rightarrow> get_dump_block_base \<Rightarrow> get_dump_block_base" where
  "get_dump_sync_execute E h = try_exec h (get_dump_local E '' not found'' h)"

section \<open>get-tx\<close>

record get_tx_handler = handler +
  m_hash :: string

definition new_get_tx :: "bool \<Rightarrow> get_tx_handler" where
  "new_get_tx ctx = handler.extend (base_handler ctx) \<lparr>m_hash = []\<rparr>"

text \<open>\<^verbatim>\<open>TransactionInfo()\<close>.\<close>

definition default_tx :: TransactionInfo where
  "default_tx =
     (let a = \<lparr>addr_bytes = [], addr_isInitialW = False, addr_isSet = False\<rparr>
      in \<lparr>ti_hash = [], ti_fromAddress = a, ti_toAddress = a, ti_value = 0, ti_fees = 0, ti_nonce = 0,
          ti_blockNumber = 0, ti_blockIndex = 0, ti_sizeRawTx = 0, ti_isSignBlockTx = False, ti_isModuleNotSet = False,
          ti_intStatus = None, ti_sign = [], ti_pubKey = [], ti_data = [], ti_allRawTx = [],
          ti_filePos = \<lparr>fp_pos = 0, fileNameRelative = []\<rparr>, ti_delegate = None, ti_scriptInfo = None, ti_status = None\<rparr>)"

definition get_tx_prepare :: "'k handler_env \<Rightarrow> get_tx_handler \<Rightarrow> bool \<times> get_tx_handler" where
  "get_tx_prepare E h = try_bool h (require_params h (\<lambda>params.
     bindE (fetch (get_value as_string params ''hash'') (-32602) ''hash field not found'') (\<lambda>hash.
       CHK_PRM (hash \<noteq> []) ''hash is empty''
         (Inr (True, pass_param E ''hash'' (JString (c_str hash)) (h\<lparr>m_hash := hash\<rparr>))))))"

definition local_tx :: "'k handler_env \<Rightarrow> get_tx_handler \<Rightarrow> get_tx_handler fallible" where
  "local_tx E h = with_sync E (\<lambda>sync.
     bindE (getTransaction sync (string_of_bytes (fromHex (m_hash h)))) (\<lambda>tx.
       fill (transactionToJson (e_torrent E) (e_json E) (getBlock_number sync)
               (case tx of Some t \<Rightarrow> t | None \<Rightarrow> default_tx) (countBlocks sync) (getKnownBlock sync) V1) h))"

definition get_tx_execute :: "'k handler_env \<Rightarrow> get_tx_handler \<Rightarrow> get_tx_handler" where
  "get_tx_execute E h = try_exec h (if useLocalDatabase E then local_tx E h else Inr (network_execute h))"

definition get_tx_sync_prepare :: "get_tx_handler \<Rightarrow> bool \<times> get_tx_handler" where
  "get_tx_sync_prepare h = try_bool h (require_params h (\<lambda>params.
     bindE (fetch (get_value as_string params ''hash'') (-32602) ''hash field not found'') (\<lambda>hash.
       CHK_PRM (hash \<noteq> []) ''hash is empty'' (Inr (True, h\<lparr>m_hash := hash\<rparr>)))))"

definition get_tx_sync_execute :: "'k handler_env \<Rightarrow> get_tx_handler \<Rightarrow> get_tx_handler" where
  "get_tx_sync_execute E h = try_exec h (local_tx E h)"

section \<open>The contract\<close>

lemma ready_block_update [reply_intros]:
  "ready i (h :: get_block_base) \<Longrightarrow> ready i (h\<lparr>m_block_id := b\<rparr>)" "ready i h \<Longrightarrow> ready i (h\<lparr>m_type := n\<rparr>)"
  "ready i h \<Longrightarrow> ready i (h\<lparr>m_countTxs := n\<rparr>)" "ready i h \<Longrightarrow> ready i (h\<lparr>m_beginTx := n\<rparr>)"
  by (simp_all add: ready_def)

lemma ready_dump_update [reply_intros]:
  "ready i (d :: get_dump_block_base) \<Longrightarrow> ready i (d\<lparr>d_block_id := b\<rparr>)" "ready i d \<Longrightarrow> ready i (d\<lparr>m_fromByte := n\<rparr>)"
  "ready i d \<Longrightarrow> ready i (d\<lparr>m_toByte := n\<rparr>)"
  by (simp_all add: ready_def)

lemma ready_tx_update [reply_intros]: "ready i (t :: get_tx_handler) \<Longrightarrow> ready i (t\<lparr>m_hash := s\<rparr>)"
  by (simp add: ready_def)

lemma json_replies [reply_intros]:
  "open_writer i w \<Longrightarrow> blockHeaderToJson L J bh s v w = Inr w' \<Longrightarrow> reply_ok i w'"
  "open_writer i w \<Longrightarrow> blockInfoToJson L J bi s n v w = Inr w' \<Longrightarrow> reply_ok i w'"
  "open_writer i w \<Longrightarrow> transactionToJson L J g tx c k v w = Inr w' \<Longrightarrow> reply_ok i w'"
  "open_writer i w \<Longrightarrow> reply_ok i (genCountBlockJson J c v w)"
  "open_writer i w \<Longrightarrow> reply_ok i (genBlockDumpJson J d w)"
  by (auto simp: blockHeaderToJson_def blockInfoToJson_def transactionToJson_def genCountBlockJson_def genBlockDumpJson_def
      Let_def bindE_Inr_conv split: if_splits intro: reply_intros)

lemma with_sync_answers:
  assumes "with_sync E f = Inr h" and "\<And>sync. e_sync E = Some sync \<Longrightarrow> f sync = Inr h \<Longrightarrow> answered i h"
  shows "answered i h"
  using assms by (auto simp: with_sync_def bindE_Inr_conv)

lemma count_contract: "json_handler require_id (get_count_blocks_execute E)"
proof (unfold_locales, goal_cases)
  case (3 i h)
  have "answered i (upd_writer (genCountBlockJson J n V1) h)" for J n
    using 3 by (intro answered_upd_writer reply_intros) (simp_all add: ready_def)
  then show ?case
    using network_executes [OF 3] unfolding get_count_blocks_execute_def
    by (intro try_exec_answers [OF 3]) (auto split: if_splits elim: with_sync_answers)
qed (use require_id_contract in blast)+

interpretation count_h: network_handler require_id "get_count_blocks_execute E" network_process_response for E
  by (rule default_network_handler [OF count_contract])

interpretation count_sync_h: json_handler require_id "get_count_blocks_sync E" for E
proof (unfold_locales, goal_cases)
  case (3 i h)
  have "answered i (upd_writer (genCountBlockJson J n V1) h)" for J n
    using 3 by (intro answered_upd_writer reply_intros) (simp_all add: ready_def)
  then show ?case
    unfolding get_count_blocks_sync_def by (intro try_exec_answers [OF 3]) (auto elim: with_sync_answers)
qed (use require_id_contract in blast)+

interpretation last_txs_h: network_handler require_id network_execute network_process_response
  by (intro default_network_handler, unfold_locales) (use require_id_contract network_executes in blast)+

lemma ready_opt_string_param: "ready i h \<Longrightarrow> ready i (opt_string_param params name h)"
  by (auto simp: opt_string_param_def ready_def intro: reply_intros split: option.split)

interpretation blocks_h: network_handler get_blocks_prepare network_execute network_process_response
proof (intro default_network_handler, unfold_locales, goal_cases)
  case (1 i h h')
  then show ?case
    by (auto simp: get_blocks_prepare_def body_conv intro!: ready_opt_string_param ready_add_param)
next
  case (2 i h h')
  then show ?case unfolding get_blocks_prepare_def by (rule try_bool_refuses) (auto simp: body_conv)
next
  case (3 i h)
  then show ?case by (rule network_executes)
qed

subsection \<open>Blocks\<close>

definition keeps_ready :: "(json \<Rightarrow> 'a handler_scheme \<Rightarrow> 'a handler_scheme fallible) \<Rightarrow> bool" where
  "keeps_ready set_block_id \<longleftrightarrow>
     (\<forall>i params h h'. ready i h \<longrightarrow> set_block_id params h = Inr h' \<longrightarrow> ready i h')"

lemma block_id_ready: "keeps_ready (block_hash_param E)" "keeps_ready (block_number_param E)"
  by (auto simp: keeps_ready_def block_hash_param_def block_number_param_def body_conv intro: reply_intros)

lemma block_type_ready: "ready i h \<Longrightarrow> ready i (block_type_param E params h)"
  by (auto simp: block_type_param_def intro: reply_intros split: option.split)

lemma get_block_prepare_contract:
  assumes "keeps_ready set_block_id" and "ready i h"
  shows "get_block_prepare E set_block_id h = (True, h') \<Longrightarrow> ready i h'"
    and "get_block_prepare E set_block_id h = (False, h') \<Longrightarrow> refused i h'"
proof -
  assume "get_block_prepare E set_block_id h = (True, h')"
  then obtain params h1 where h1: "set_block_id params h = Inr h1"
    and h': "h' = block_type_param E params
      (case get_value as_uint64 params ''beginTx'' of None \<Rightarrow> (case get_value as_uint64 params ''countTxs'' of None \<Rightarrow> h1
          | Some n \<Rightarrow> pass_param E ''countTxs'' (JInt (int n)) (h1\<lparr>m_countTxs := n\<rparr>))
       | Some m \<Rightarrow> pass_param E ''beginTx'' (JInt (int m)) ((case get_value as_uint64 params ''countTxs'' of None \<Rightarrow> h1
          | Some n \<Rightarrow> pass_param E ''countTxs'' (JInt (int n)) (h1\<lparr>m_countTxs := n\<rparr>))\<lparr>m_beginTx := m\<rparr>))"
    by (auto simp: get_block_prepare_def body_conv Let_def)
  have "ready i h1" using assms h1 by (auto simp: keeps_ready_def)
  then show "ready i h'"
    unfolding h' by (intro block_type_ready) (auto intro: reply_intros split: option.split)
next
  assume "get_block_prepare E set_block_id h = (False, h')"
  then show "refused i h'"
    unfolding get_block_prepare_def by (rule try_bool_refuses [OF assms(2)]) (auto simp: body_conv Let_def)
qed

lemma serve_dump_answers:
  assumes "ready i h" and "serve_dump E dump h = Inr h'"
  shows "answered i h'"
proof -
  let ?h = "upd_writer writer_reset h"
  have o: "open_writer i (m_writer ?h)" using ready_open [OF ready_reset [OF assms(1)]] .
  have "answered i h1" if "fill (block_json E n bi txs) ?h = Inr h1" for n bi txs h1
    using that by (rule answered_fill) (auto simp: block_json_def intro: reply_intros o split: if_splits)
  moreover have "answered i (upd_writer (genErrorResponse J c m) ?h)" for J c m
    using ready_reset [OF assms(1)] by (rule answered_upd_writer) (intro reply_intros o)
  moreover obtain bi where "parseBlockDump (e_torrent E) dump = Inr (SomeBlock bi)"
    using assms(2) by (cases "parseBlockDump (e_torrent E) dump") (auto simp: serve_dump_def Let_def split: some_block.splits)
  ultimately show ?thesis
    using assms(2) by (auto simp: serve_dump_def Let_def bindE_Inr_conv split: if_splits)
qed

lemma local_block_answers:
  assumes "ready i h" and "fill (local_block_json E sync bh n b c s) h = Inr h'"
  shows "answered i h'"
  using assms(2) by (rule answered_fill)
    (auto simp: local_block_json_def bindE_Inr_conv intro: reply_intros ready_open [OF assms(1)] split: if_splits)

lemma gen_error_answers: "ready i h \<Longrightarrow> answered i (upd_writer (genErrorResponse J c m) h)"
  by (intro answered_upd_writer reply_intros ready_open)

lemma get_block_local_answers:
  assumes "ready i h" and "get_block_local E h = Inr h'"
  shows "answered i h'"
proof -
  obtain sync where "e_sync E = Some sync" using assms(2) by (auto simp: get_block_local_def with_sync_def bindE_Inr_conv)
  then show ?thesis
    using assms(2) local_block_answers [OF assms(1)] gen_error_answers [OF assms(1)]
    by (auto simp: get_block_local_def with_sync_def Let_def fetch_def bindE_Inr_conv split: if_splits option.splits)
qed

lemma get_block_execute_answers:
  assumes "ready i h"
  shows "answered i (get_block_execute E h)"
proof -
  consider "runing (e_cache E)" "cached_dump E (m_block_id h) = None" | dump where "runing (e_cache E)" "cached_dump E (m_block_id h) = Some dump"
    | "\<not> runing (e_cache E)" by blast
  then show ?thesis
    unfolding get_block_execute_def
    by cases (auto intro!: try_exec_answers [OF assms] intro: serve_dump_answers [OF assms] get_block_local_answers [OF assms]
        network_executes [OF assms] split: if_splits)
qed

lemma get_block_sync_execute_answers:
  assumes "ready i h"
  shows "answered i (get_block_sync_execute E h)"
proof (cases "e_sync E")
  case None
  then show ?thesis
    unfolding get_block_sync_execute_def by (intro try_exec_answers [OF assms]) (simp add: with_sync_def fetch_def)
next
  case (Some sync)
  then show ?thesis
    unfolding get_block_sync_execute_def using local_block_answers [OF assms] gen_error_answers [OF assms]
    by (intro try_exec_answers [OF assms])
      (auto simp: with_sync_def fetch_def Let_def bindE_Inr_conv split: if_splits option.splits)
qed

lemma get_block_processes:
  assumes "open_writer i (m_writer h)" "node_document doc" "IsObject doc"
  shows "get_block_process_response E doc h = (h', None) \<Longrightarrow> reply_ok i (m_writer h')"
    and "get_block_process_response E doc h = (h', Some e) \<Longrightarrow> envelope i (m_writer h')"
  using network_processes [OF assms]
  by (auto simp: get_block_process_response_def intro: envelope_of split: prod.splits option.splits if_splits)

interpretation block_by_hash_h: network_handler "get_block_prepare E (block_hash_param E)" "get_block_execute E"
    "get_block_process_response E" for E
proof (unfold_locales, goal_cases)
  case (1 i h h')
  then show ?case by (rule get_block_prepare_contract(1) [OF block_id_ready(1)])
next
  case (2 i h h')
  then show ?case by (rule get_block_prepare_contract(2) [OF block_id_ready(1)])
next
  case (3 i h)
  then show ?case by (rule get_block_execute_answers)
next
  case (4 i h doc h')
  then show ?case by (rule get_block_processes(1))
next
  case (5 i h doc h' e)
  then show ?case by (rule get_block_processes(2))
qed

interpretation block_by_number_h: network_handler "get_block_prepare E (block_number_param E)" "get_block_execute E"
    "get_block_process_response E" for E
proof (unfold_locales, goal_cases)
  case (1 i h h')
  then show ?case by (rule get_block_prepare_contract(1) [OF block_id_ready(2)])
next
  case (2 i h h')
  then show ?case by (rule get_block_prepare_contract(2) [OF block_id_ready(2)])
next
  case (3 i h)
  then show ?case by (rule get_block_execute_answers)
qed

lemma block_sync_params_ready: "ready i h \<Longrightarrow> ready i (block_sync_params params h)"
  by (simp add: block_sync_params_def ready_def)

interpretation block_by_hash_sync_h: json_handler get_block_by_hash_sync_prepare "get_block_sync_execute E" for E
proof (unfold_locales, goal_cases)
  case (2 i h h')
  then show ?case unfolding get_block_by_hash_sync_prepare_def by (rule try_bool_refuses) (auto simp: body_conv)
qed (auto simp: get_block_by_hash_sync_prepare_def body_conv
      intro!: block_sync_params_ready get_block_sync_execute_answers reply_intros)

interpretation block_by_number_sync_h: json_handler get_block_by_number_sync_prepare "get_block_sync_execute E" for E
proof (unfold_locales, goal_cases)
  case (2 i h h')
  then show ?case unfolding get_block_by_number_sync_prepare_def by (rule try_bool_refuses) (auto simp: body_conv)
qed (auto simp: get_block_by_number_sync_prepare_def body_conv
      intro!: block_sync_params_ready get_block_sync_execute_answers reply_intros)

subsection \<open>Dumps and transactions\<close>

lemma dump_id_ready: "keeps_ready (dump_hash_param E)" "keeps_ready (dump_number_param E)"
  by (auto simp: keeps_ready_def dump_hash_param_def dump_number_param_def body_conv intro: reply_intros)

lemma get_dump_prepare_contract:
  assumes "keeps_ready set_block_id" and "ready i h"
  shows "get_dump_prepare E set_block_id h = (True, h') \<Longrightarrow> ready i h'"
    and "get_dump_prepare E set_block_id h = (False, h') \<Longrightarrow> refused i h'"
proof -
  assume "get_dump_prepare E set_block_id h = (True, h')"
  then obtain params h1 where h1: "set_block_id params h = Inr h1"
    and h': "h' = (let h = pass_param E ''isHex'' (JBool m_isHex) h1;
        h = (case get_value as_uint64 params ''fromByte'' of Some n \<Rightarrow> h\<lparr>m_fromByte := n\<rparr> | None \<Rightarrow> h)
      in (case get_value as_uint64 params ''toByte'' of Some n \<Rightarrow> h\<lparr>m_toByte := n\<rparr> | None \<Rightarrow> h))"
    by (auto simp: get_dump_prepare_def body_conv Let_def)
  have "ready i h1" using assms h1 by (auto simp: keeps_ready_def)
  then show "ready i h'"
    unfolding h' Let_def by (auto intro!: reply_intros split: option.split)
next
  assume "get_dump_prepare E set_block_id h = (False, h')"
  then show "refused i h'"
    unfolding get_dump_prepare_def by (rule try_bool_refuses [OF assms(2)]) (auto simp: body_conv Let_def)
qed

text \<open>The dump is always asked for in hexadecimal digits, so the local database answers too.\<close>

lemma get_dump_local_answers:
  assumes "ready i h" and "get_dump_local E missing h = Inr h'"
  shows "answered i h'"
proof -
  have "answered i (upd_writer (genBlockDumpJson J res) h)" "answered i (upd_writer (dump_error E e) h)" for J res e
    using assms(1) by (auto simp: dump_error_def intro!: answered_upd_writer reply_intros ready_open)
  then show ?thesis
    using assms(2) by (auto simp: get_dump_local_def with_sync_def m_isHex_def bindE_Inr_conv sum.case_eq_if split: if_splits)
qed

lemma get_dump_execute_answers:
  assumes "ready i h"
  shows "answered i (get_dump_execute E h)"
proof -
  have "answered i (upd_writer (\<lambda>w. genBlockDumpJson J d (writer_reset w)) h)" for J d
    using assms by (auto intro!: answered_upd_writer reply_intros envelope_of(1) [OF ready_open])
  then show ?thesis
    unfolding get_dump_execute_def
    using get_dump_local_answers [OF assms, of E] network_executes [OF assms]
    by (intro try_exec_answers [OF assms]) (auto split: if_splits option.splits)
qed

lemma get_tx_local_answers: "ready i h \<Longrightarrow> local_tx E h = Inr h' \<Longrightarrow> answered i h'"
  by (auto simp: local_tx_def with_sync_def bindE_Inr_conv intro: answered_fill reply_intros ready_open)

interpretation tx_h: network_handler "get_tx_prepare E" "get_tx_execute E" network_process_response for E
proof (intro default_network_handler, unfold_locales, goal_cases)
  case (1 i h h')
  then show ?case by (auto simp: get_tx_prepare_def body_conv intro!: reply_intros)
next
  case (2 i h h')
  then show ?case unfolding get_tx_prepare_def by (rule try_bool_refuses) (auto simp: body_conv)
next
  case (3 i h)
  then show ?case
    unfolding get_tx_execute_def using get_tx_local_answers [OF 3] network_executes [OF 3]
    by (intro try_exec_answers [OF 3]) (auto split: if_splits)
qed

interpretation tx_sync_h: json_handler get_tx_sync_prepare "get_tx_sync_execute E" for E
proof (unfold_locales, goal_cases)
  case (1 i h h')
  then show ?case by (auto simp: get_tx_sync_prepare_def body_conv intro!: reply_intros)
next
  case (2 i h h')
  then show ?case unfolding get_tx_sync_prepare_def by (rule try_bool_refuses) (auto simp: body_conv)
next
  case (3 i h)
  then show ?case
    unfolding get_tx_sync_execute_def by (rule try_exec_answers) (rule get_tx_local_answers [OF 3])
qed

interpretation dump_by_hash_h: network_handler "get_dump_prepare E (dump_hash_param E)" "get_dump_execute E"
    network_process_response for E
  by (intro default_network_handler, unfold_locales)
    (erule (1) get_dump_prepare_contract [OF dump_id_ready(1)] | erule get_dump_execute_answers)+

interpretation dump_by_number_h: network_handler "get_dump_prepare E (dump_number_param E)" "get_dump_execute E"
    network_process_response for E
  by (intro default_network_handler, unfold_locales)
    (erule (1) get_dump_prepare_contract [OF dump_id_ready(2)] | erule get_dump_execute_answers)+

lemma dump_sync_params_ready: "ready i h \<Longrightarrow> ready i (dump_sync_params params h)"
  by (simp add: dump_sync_params_def ready_def)

lemma get_dump_sync_answers:
  assumes "ready i h"
  shows "answered i (get_dump_sync_execute E h)"
  unfolding get_dump_sync_execute_def by (rule try_exec_answers [OF assms]) (rule get_dump_local_answers [OF assms])

interpretation dump_by_hash_sync_h: json_handler get_dump_by_hash_sync_prepare "get_dump_sync_execute E" for E
proof (unfold_locales, goal_cases)
  case (2 i h h')
  then show ?case unfolding get_dump_by_hash_sync_prepare_def by (rule try_bool_refuses) (auto simp: body_conv)
qed (auto simp: get_dump_by_hash_sync_prepare_def body_conv
      intro!: dump_sync_params_ready get_dump_sync_answers reply_intros)

interpretation dump_by_number_sync_h: json_handler get_dump_by_number_sync_prepare "get_dump_sync_execute E" for E
proof (unfold_locales, goal_cases)
  case (2 i h h')
  then show ?case unfolding get_dump_by_number_sync_prepare_def by (rule try_bool_refuses) (auto simp: body_conv)
qed (auto simp: get_dump_by_number_sync_prepare_def body_conv
      intro!: dump_sync_params_ready get_dump_sync_answers reply_intros)

section \<open>What is served from the cache\<close>

lemma m_block_id_frame [simp]:
  "m_block_id (upd_writer f h) = m_block_id h" "m_block_id (pass_param E name v h) = m_block_id h"
  "m_type (upd_writer f h) = m_type h"
  by (simp_all add: upd_writer_def pass_param_def)

lemma m_block_id_type [simp]: "m_block_id (block_type_param E params h) = m_block_id h"
  by (auto simp: block_type_param_def split: option.split)

lemma get_block_prepared:
  assumes "get_block_prepare E set_block_id h = (True, h')"
  shows "\<exists>params h1. get_params (m_reader h) = Some params \<and> set_block_id params h = Inr h1 \<and> m_block_id h' = m_block_id h1"
  using assms by (fastforce simp: get_block_prepare_def body_conv Let_def split: option.splits)

lemma block_number_prepared:
  assumes "get_block_prepare E (block_number_param E) h = (True, h')"
  shows "\<exists>params n. get_params (m_reader h) = Some params \<and> get_value as_uint64 params ''number'' = Some n \<and>
    m_block_id h' = BlockNumber n"
  using get_block_prepared [OF assms] by (auto simp: block_number_param_def bindE_Inr_conv)

text \<open>The result of either printer carries the number and the hash of the header.\<close>

lemma block_json_result:
  assumes "block_json E type bi txs w = Inr w'" and "FindMember ''result'' w = None" and "FindMember ''result'' w' = Some r"
    and "bh_blockNumber (bi_header bi) = Some n"
  shows "n \<noteq> 0 \<and> FindMember ''number'' r = Some (JInt (int n)) \<and>
    FindMember ''hash'' r = Some (strToJson (e_json E) (toHex (bh_hash (bi_header bi))))"
  using assms
  by (auto simp: block_json_def blockHeaderToJson_def blockInfoToJson_def blockHeaderToJson_value_def genErrorResponse_def
      Let_def bindE_Inr_conv FindMember_AddMember intOrString_def split: if_splits)

lemma new_get_block_simps [simp]:
  "m_writer (new_get_block ctx) = json_rpc_writer" "\<not> m_async (new_get_block ctx)" "m_context (new_get_block ctx) = ctx"
  by (simp_all add: new_get_block_def handler.extend_def base_handler_def)

lemma serve_dump_result:
  assumes "serve_dump E dump h = Inr h'" and "FindMember ''result'' (m_writer h') = Some r"
  shows "\<exists>bi. parseBlockDump (e_torrent E) dump = Inr (SomeBlock bi) \<and> served_number (m_block_id h) \<noteq> 0 \<and>
    FindMember ''number'' r = Some (JInt (int (served_number (m_block_id h)))) \<and>
    FindMember ''hash'' r = Some (strToJson (e_json E) (toHex (bh_hash (bi_header bi))))"
proof -
  let ?h = "upd_writer writer_reset h"
  obtain bi where bi: "parseBlockDump (e_torrent E) dump = Inr (SomeBlock bi)"
    using assms(1) by (cases "parseBlockDump (e_torrent E) dump") (auto simp: serve_dump_def Let_def split: some_block.splits)
  let ?bi = "bi\<lparr>bi_header := (bi_header bi)\<lparr>bh_blockNumber := Some (served_number (m_block_id h)), bh_countTxs := length (bi_txs bi)\<rparr>\<rparr>"
  have n: "FindMember ''result'' (m_writer ?h) = None" by (simp add: FindMember_reset)
  have "FindMember ''result'' (genErrorResponse J c m (m_writer ?h)) = None" for J c m
    using n by (simp add: genErrorResponse_def FindMember_AddMember)
  then have "\<not> (\<not> allowStateBlocks E \<and> isStateBlock (e_torrent E) (bi_header ?bi))"
    using assms bi by (auto simp: serve_dump_def Let_def)
  then obtain txs w where w: "block_json E (m_type h) ?bi txs (m_writer ?h) = Inr w" and "h' = ?h\<lparr>m_writer := w\<rparr>"
    using assms(1) bi by (auto simp: serve_dump_def fill_def bindE_Inr_conv Let_def split: if_splits)
  then show ?thesis
    using block_json_result [OF w n, of r "served_number (m_block_id h)"] assms(2) bi by simp
qed

lemma get_block_from_cache:
  assumes "runing (e_cache E)" and "FindMember ''result'' (m_writer (get_block_execute E h)) = Some r"
  shows "\<exists>dump h'. cached_dump E (m_block_id h) = Some dump \<and> serve_dump E dump h = Inr h' \<and> get_block_execute E h = h'"
proof -
  have "FindMember ''result'' (m_writer (catch_error e h)) = None" for e and h :: get_block_base
    by (auto simp: catch_error_def set_error_def add_error_data_def FindMember_reset Let_def split: exc.splits option.splits)
  then show ?thesis
    using assms by (auto simp: get_block_execute_def try_exec_def split: option.splits sum.splits)
qed

text \<open>A request by hash: the first character of a hash is a hexadecimal letter in six cases out of sixteen.\<close>

lemma hex_letters: "list_all (\<lambda>c. \<not> isspace c \<and> \<not> isdigit c \<and> c \<noteq> CHR ''-'' \<and> c \<noteq> CHR ''+'' \<and> c \<noteq> CHR 0x00) ''abcdef''"
  by code_simp

lemma atoi_number_letter:
  assumes "c \<in> set ''abcdef''"
  shows "atoi_number (c # s) = 0"
proof -
  have "\<not> isspace c \<and> \<not> isdigit c \<and> c \<noteq> CHR ''-'' \<and> c \<noteq> CHR ''+'' \<and> c \<noteq> CHR 0x00"
    using assms hex_letters unfolding list_all_iff by blast
  then show ?thesis by (simp add: atoi_number_def atoi_def strto_digits_def split_sign_def)
qed

definition sample_handler_env :: "(string \<rightharpoonup> json) \<Rightarrow> db \<Rightarrow> byte list handler_env" where
  "sample_handler_env docs d = \<lparr>e_Parse = docs, e_parse_code = (\<lambda>_. 3), e_parse_text = (\<lambda>_. ''Invalid value.''),
     e_methods_schema = None, e_ssl = sample_ssl, e_sha256 = (\<lambda>_. replicate 32 0),
     e_torrent = sample_lib\<lparr>parseBlockDump := (\<lambda>s. if s = ''B7'' then Inr (SomeBlock (sample_block [171] [1] [])) else Inr NoBlock)\<rparr>,
     e_json = plain_json, e_cache = new_blocks_cache\<lparr>m_run := True, m_db := d\<rparr>, e_sync = None,
     useLocalDatabase = False, allowStateBlocks = True, blocks_cache_block_verification = True, validate_methods = False,
     history_cache_enable = False\<rparr>"

definition sample_request :: "string \<Rightarrow> json \<Rightarrow> json" where
  "sample_request key v = JObject [(''id'', JInt 5), (''method'', JString ''get-block''), (''params'', JObject [(key, v)])]"

lemma sample_env_simps [simp]:
  "e_Parse (sample_handler_env docs d) = docs" "\<not> validate_methods (sample_handler_env docs d)"
  "\<not> useLocalDatabase (sample_handler_env docs d)" "allowStateBlocks (sample_handler_env docs d)"
  "blocks_cache_block_verification (sample_handler_env docs d)" "e_json (sample_handler_env docs d) = plain_json"
  "e_cache (sample_handler_env docs d) = new_blocks_cache\<lparr>m_run := True, m_db := d\<rparr>" "runing (new_blocks_cache\<lparr>m_run := True, m_db := d\<rparr>)"
  "parseBlockDump (e_torrent (sample_handler_env docs d)) ''B7'' = Inr (SomeBlock (sample_block [171] [1] []))"
  "e_ssl (sample_handler_env docs d) = sample_ssl"
  by (simp_all add: sample_handler_env_def runing_def)

lemma serve_header:
  assumes "parseBlockDump (e_torrent E) dump = Inr (SomeBlock bi)" and "allowStateBlocks E" and "m_type h = 0"
    and "served_number (m_block_id h) \<noteq> 0" and "get_extra_block_for (e_cache E) (served_number (m_block_id h)) = None"
  shows "\<exists>r. serve_dump E dump h = Inr (upd_writer (\<lambda>w. AddMember ''result'' r (writer_reset w)) h)"
  using assms
  by (simp add: serve_dump_def Let_def extra_signatures_def fill_def block_json_def blockHeaderToJson_def
      blockHeaderToJson_value_def signatures_json_def upd_writer_def) blast

lemma sample_request_simps:
  "get_id (sample_request k v) = Inr 5" "get_params (sample_request k v) = Some (JObject [(k, v)])"
  by (simp_all add: sample_request_def get_id_def get_params_def reader_get_def FindMember_def as_string_def as_int_def)

lemma sample_prepared:
  "get_block_prepare (sample_handler_env docs d) (block_number_param (sample_handler_env docs d))
       (upd_writer (set_id 5) ((new_get_block True)\<lparr>m_reader := sample_request ''number'' (JInt 7), m_id := 5\<rparr>)) =
     (True, upd_writer (\<lambda>w. add_param ''number'' (JInt 7) (set_id 5 w))
       ((new_get_block True)\<lparr>m_reader := sample_request ''number'' (JInt 7), m_id := 5, m_block_id := BlockNumber 7\<rparr>))"
  by (simp add: get_block_prepare_def require_params_def sample_request_simps block_number_param_def get_value_def
     FindMember_def as_uint64_def fetch_def CHK_REQ_def try_bool_def Let_def block_type_param_def reader_get_def pass_param_def upd_writer_def)
section \<open>Properties\<close>

text \<open>C36: while the block cache runs, \<^verbatim>\<open>get-block-by-number\<close> answers with a block only if the verified
  lookup of the cache has a dump for the number of the request, and the answer carries that number and
  the hash of the dumped block.\<close>

theorem cached_block_served:
  assumes "runing (e_cache E)"
    and h: "h = perform E (new_get_block True) (get_block_prepare E (block_number_param E)) (get_block_execute E) request"
    and r: "\<not> m_async h" "FindMember ''result'' (m_writer h) = Some r"
  shows "\<exists>doc params n dump bi. e_Parse E request = Some doc \<and> get_params doc = Some params \<and>
    get_value as_uint64 params ''number'' = Some n \<and> n \<noteq> 0 \<and>
    get_block_by_num (e_cache E) n (blocks_cache_block_verification E) = Some dump \<and>
    parseBlockDump (e_torrent E) dump = Inr (SomeBlock bi) \<and> FindMember ''number'' r = Some (JInt (int n)) \<and>
    FindMember ''hash'' r = Some (strToJson (e_json E) (toHex (bh_hash (bi_header bi))))"
proof -
  have ctx: "m_context (new_get_block True)" and res: "FindMember ''result'' (m_writer h) \<noteq> None" using r(2) by simp_all
  obtain doc i h1 where d: "e_Parse E request = Some doc"
    and p: "get_block_prepare E (block_number_param E)
      (upd_writer (set_id i) ((new_get_block True)\<lparr>m_reader := doc, m_id := i\<rparr>)) = (True, h1)" and x: "h = get_block_execute E h1"
    using block_by_number_h.perform_result [OF new_get_block_simps(1,2) ctx h r(1) res] by blast
  obtain params n where n: "get_params doc = Some params" "get_value as_uint64 params ''number'' = Some n" "m_block_id h1 = BlockNumber n"
    using block_number_prepared [OF p] by auto
  obtain dump where c: "cached_dump E (m_block_id h1) = Some dump" "serve_dump E dump h1 = Inr h"
    using get_block_from_cache [OF assms(1), of h1 r] r(2) x by auto
  show ?thesis
    using serve_dump_result [OF c(2) r(2)] d n c(1) by (auto simp: cached_dump_def served_number_def)
qed

theorem cached_block_served_witness:
  "\<exists>r. FindMember ''result'' (m_writer (perform (sample_handler_env [''q'' \<mapsto> sample_request ''number'' (JInt 7)] [''7'' \<mapsto> ''B7''])
       (new_get_block True) (get_block_prepare (sample_handler_env [''q'' \<mapsto> sample_request ''number'' (JInt 7)] [''7'' \<mapsto> ''B7''])
          (block_number_param (sample_handler_env [''q'' \<mapsto> sample_request ''number'' (JInt 7)] [''7'' \<mapsto> ''B7''])))
       (get_block_execute (sample_handler_env [''q'' \<mapsto> sample_request ''number'' (JInt 7)] [''7'' \<mapsto> ''B7''])) ''q'')) = Some r \<and>
     FindMember ''number'' r = Some (JInt 7)"
proof -
  let ?E = "sample_handler_env [''q'' \<mapsto> sample_request ''number'' (JInt 7)] [''7'' \<mapsto> ''B7'']"
  let ?h = "perform ?E (new_get_block True) (get_block_prepare ?E (block_number_param ?E)) (get_block_execute ?E) ''q''"
  have run: "runing (e_cache ?E)" by (simp add: sample_handler_env_def runing_def)
  let ?h1 = "upd_writer (\<lambda>w. add_param ''number'' (JInt 7) (set_id 5 w))
       ((new_get_block True)\<lparr>m_reader := sample_request ''number'' (JInt 7), m_id := 5, m_block_id := BlockNumber 7\<rparr>)"
  have "get_block_by_num (e_cache ?E) 7 True = Some ''B7''" "get_extra_block_for (e_cache ?E) 7 = None" by code_simp+
  then obtain x where x: "get_block_execute ?E ?h1 = upd_writer (\<lambda>w. AddMember ''result'' x (writer_reset w)) ?h1"
    using serve_header [of ?E "''B7''" "sample_block [171] [1] []" ?h1]
    by (auto simp: get_block_execute_def cached_dump_def served_number_def try_exec_def new_get_block_def handler.extend_def)
  have "?h = get_block_execute ?E ?h1"
    by (simp add: perform_def prepare_def finish_prepare_def sample_request_simps sample_prepared)
  with x obtain r where r: "\<not> m_async ?h" "FindMember ''result'' (m_writer ?h) = Some r"
    by (auto simp: FindMember_AddMember FindMember_reset)
  have "e_Parse ?E ''q'' = Some (sample_request ''number'' (JInt 7))" by (simp add: sample_handler_env_def)
  then have "FindMember ''number'' r = Some (JInt 7)"
    using cached_block_served [OF run refl r]
    by (auto simp: sample_request_def get_params_def reader_get_def get_value_def as_uint64_def FindMember_def)
  then show ?thesis using r(2) by blast
qed

text \<open>C39: \<^verbatim>\<open>get-block-by-hash\<close> takes \<^verbatim>\<open>std::atoi\<close> of the hash for the number of a cached block: for a hash that
  begins with a hexadecimal letter the number is 0, and the block, although it is in the cache and passes
  the verified lookup, is refused as block 0.\<close>

theorem cached_block_by_hash_refused:
  assumes "runing (e_cache E)" and "m_block_id h = BlockHash (c # s)" and "c \<in> set ''abcdef''"
    and "snd (get_block_by_hash (e_cache E) (c # s) (blocks_cache_block_verification E)) = Some dump"
    and "parseBlockDump (e_torrent E) dump = Inr (SomeBlock bi)" and "allowStateBlocks E"
    and "get_extra_block_for (e_cache E) 0 = None"
  shows "m_writer (get_block_execute E h) = genErrorResponse (e_json E) (-32603) genesis_error (writer_reset (m_writer h))"
proof -
  have n: "served_number (m_block_id h) = 0" using assms(2,3) by (simp add: served_number_def atoi_number_letter)
  have "serve_dump E dump h = Inr (upd_writer (\<lambda>w. genErrorResponse (e_json E) (-32603) genesis_error (writer_reset w)) h)"
    using assms(5-7) n
    by (simp add: serve_dump_def Let_def extra_signatures_def fill_def block_json_def blockHeaderToJson_def blockInfoToJson_def upd_writer_def)
  then show ?thesis
    using assms(1,2,4) by (simp add: get_block_execute_def try_exec_def cached_dump_def)
qed

theorem cached_block_by_hash_refused_witness:
  "m_writer (get_block_execute (sample_handler_env Map.empty [''7'' \<mapsto> ''B7'', ''ab'' \<mapsto> ''7''])
      ((new_get_block True)\<lparr>m_block_id := BlockHash ''ab''\<rparr>)) =
     genErrorResponse plain_json (-32603) genesis_error (writer_reset json_rpc_writer)"
proof -
  let ?E = "sample_handler_env Map.empty [''7'' \<mapsto> ''B7'', ''ab'' \<mapsto> ''7'']"
  have "snd (get_block_by_hash (e_cache ?E) ''ab'' (blocks_cache_block_verification ?E)) = Some ''B7''" by code_simp
  moreover have "get_extra_block_for (e_cache ?E) 0 = None" by code_simp
  ultimately show ?thesis
    using cached_block_by_hash_refused [of ?E "(new_get_block True)\<lparr>m_block_id := BlockHash ''ab''\<rparr>" "CHR ''a''" "''b''" "''B7''"]
    by (simp add: sample_handler_env_def runing_def)
qed

end
