(* ===== verification/Address_Handlers.thy ===== *)
theory Address_Handlers
  imports Handler_Base History_Cache
begin

text \<open>
  The handlers about addresses: \<^verbatim>\<open>fetch_balance_handler\<close>, \<^verbatim>\<open>fetch_balances_handler\<close>,
  \<^verbatim>\<open>fetch_history_handler\<close> and their \<^verbatim>\<open>_sync\<close> variants, \<^verbatim>\<open>fetch_history_filter_handler\<close>,
  \<^verbatim>\<open>addr_validate_handler\<close>, \<^verbatim>\<open>fetch_transaction_handler\<close> over the history cache, and
  \<^verbatim>\<open>status_handler\<close>.  Each interprets the contract of a handler.
\<close>

section \<open>fetch-balance, fetch-history\<close>

record addr_handler = handler +
  m_addr :: string
  a_countTxs :: nat
  a_beginTx :: nat
  m_data :: string

definition new_addr_handler :: "bool \<Rightarrow> addr_handler" where
  "new_addr_handler ctx = handler.extend (base_handler ctx) \<lparr>m_addr = [], a_countTxs = 0, a_beginTx = 0, m_data = []\<rparr>"

definition checked_address :: "'k handler_env \<Rightarrow> json \<Rightarrow> (string \<Rightarrow> 'a fallible) \<Rightarrow> 'a fallible" where
  "checked_address E params rest =
     bindE (fetch (get_value as_string params ''address'') (-32602) ''address field not found'') (\<lambda>addr.
       CHK_PRM (addr \<noteq> []) ''address is empty''
         (bindE (validate_address (e_ssl E) addr) (\<lambda>ok. CHK_PRM ok ''address is invalid'' (rest addr))))"

definition fetch_balance_prepare :: "'k handler_env \<Rightarrow> addr_handler \<Rightarrow> bool \<times> addr_handler" where
  "fetch_balance_prepare E h = try_bool h (require_params h (\<lambda>params.
     checked_address E params (\<lambda>addr.
       Inr (True, pass_param E ''address'' (JString (c_str addr)) (h\<lparr>m_addr := addr\<rparr>)))))"

definition local_balance :: "'k handler_env \<Rightarrow> addr_handler \<Rightarrow> addr_handler fallible" where
  "local_balance E h = with_sync E (\<lambda>sync.
     bindE (getBalance sync (m_addr h)) (\<lambda>balance.
       Inr (upd_writer (\<lambda>w. balanceInfoToJson (e_torrent E) (e_json E) (m_addr h) balance (countBlocks sync) V1 w False) h)))"

definition fetch_balance_execute :: "'k handler_env \<Rightarrow> addr_handler \<Rightarrow> addr_handler" where
  "fetch_balance_execute E h = try_exec h (if useLocalDatabase E then local_balance E h else Inr (network_execute h))"

definition opt_count :: "'k handler_env \<Rightarrow> json \<Rightarrow> string \<Rightarrow> (nat \<Rightarrow> addr_handler \<Rightarrow> addr_handler) \<Rightarrow> addr_handler \<Rightarrow> addr_handler" where
  "opt_count E params name upd h =
     (case get_value as_uint64 params name of Some n \<Rightarrow> pass_param E name (JInt (int n)) (upd n h) | None \<Rightarrow> h)"

definition fetch_history_prepare :: "'k handler_env \<Rightarrow> addr_handler \<Rightarrow> bool \<times> addr_handler" where
  "fetch_history_prepare E h = try_bool h (require_params h (\<lambda>params.
     checked_address E params (\<lambda>addr.
       let h = pass_param E ''address'' (JString (c_str addr)) (h\<lparr>m_addr := addr\<rparr>);
           h = opt_count E params ''countTxs'' (\<lambda>n. a_countTxs_update (\<lambda>_. n)) h
       in Inr (True, opt_count E params ''beginTx'' (\<lambda>n. a_beginTx_update (\<lambda>_. n)) h))))"

definition local_history :: "'k handler_env \<Rightarrow> addr_handler \<Rightarrow> addr_handler fallible" where
  "local_history E h = with_sync E (\<lambda>sync.
     bindE (getTxsForAddress sync (m_addr h) (a_beginTx h) (a_countTxs h) (a_countTxs h)) (\<lambda>txs.
       fill (addressesInfoToJson (e_torrent E) (e_json E) (getBlock_number sync) txs V1) h))"

definition fetch_history_execute :: "'k handler_env \<Rightarrow> addr_handler \<Rightarrow> addr_handler" where
  "fetch_history_execute E h = try_exec h (if useLocalDatabase E then local_history E h else Inr (network_execute h))"

subsection \<open>The handlers for the local database\<close>

definition prefixed_address :: "json \<Rightarrow> (string \<Rightarrow> 'a fallible) \<Rightarrow> 'a fallible" where
  "prefixed_address params rest =
     bindE (fetch (get_value as_string params ''address'') (-32602) ''address field not found'') (\<lambda>addr.
       CHK_PRM (addr \<noteq> []) ''address is empty''
         (CHK_PRM (substr addr 0 2 = ''0x'') ''address field incorrect format'' (rest (c_str addr))))"

definition fetch_balance_sync_prepare :: "addr_handler \<Rightarrow> bool \<times> addr_handler" where
  "fetch_balance_sync_prepare h = try_bool h (require_params h (\<lambda>params.
     prefixed_address params (\<lambda>addr. Inr (True, h\<lparr>m_addr := addr\<rparr>))))"

definition fetch_balance_sync_execute :: "'k handler_env \<Rightarrow> addr_handler \<Rightarrow> addr_handler" where
  "fetch_balance_sync_execute E h = try_exec h (local_balance E h)"

definition fetch_history_sync_prepare :: "addr_handler \<Rightarrow> bool \<times> addr_handler" where
  "fetch_history_sync_prepare h = try_bool h (require_params h (\<lambda>params.
     prefixed_address params (\<lambda>addr.
       Inr (True, h\<lparr>m_addr := addr, a_countTxs := opt_member 64 ''countTxs'' params 0,
                    a_beginTx := opt_member 64 ''beginTx'' params 0\<rparr>))))"

definition fetch_history_sync_execute :: "'k handler_env \<Rightarrow> addr_handler \<Rightarrow> addr_handler" where
  "fetch_history_sync_execute E h = try_exec h (local_history E h)"

section \<open>fetch-balances\<close>

record fetch_balances_handler = handler +
  m_addrs :: "string list"

definition new_fetch_balances :: "bool \<Rightarrow> fetch_balances_handler" where
  "new_fetch_balances ctx = handler.extend (base_handler ctx) \<lparr>m_addrs = []\<rparr>"

fun valid_addresses :: "'k handler_env \<Rightarrow> json list \<Rightarrow> string list fallible" where
  "valid_addresses E [] = Inr []"
| "valid_addresses E (v # vs) =
     (case as_string v of
        None \<Rightarrow> valid_addresses E vs
      | Some s \<Rightarrow>
          if s = [] then valid_addresses E vs
          else bindE (validate_address (e_ssl E) s) (\<lambda>ok.
                 bindE (valid_addresses E vs) (\<lambda>ss. Inr (if ok then s # ss else ss))))"

definition fetch_balances_prepare :: "'k handler_env \<Rightarrow> fetch_balances_handler \<Rightarrow> bool \<times> fetch_balances_handler" where
  "fetch_balances_prepare E h = try_bool h (require_params h (\<lambda>params.
     bindE (fetch (reader_get ''addresses'' params) (-32602) ''addresess field not found'') (\<lambda>addresses.
       bindE (fetch (as_array addresses) (-32602) ''addresses field must be array'') (\<lambda>vs.
         bindE (valid_addresses E vs) (\<lambda>addrs.
           let h = h\<lparr>m_addrs := m_addrs h @ addrs\<rparr>
           in CHK_PRM (m_addrs h \<noteq> []) ''addresses has not valid values''
                (Inr (True, if useLocalDatabase E then h
                   else upd_writer (with_value ''params'' (JObject [])
                          (AddMember ''addresses'' (JArray (map JString (m_addrs h))))) h)))))))"

fun local_balances :: "'k handler_env \<Rightarrow> sync_api \<Rightarrow> string list \<Rightarrow> json \<Rightarrow> json fallible" where
  "local_balances E sync [] w = Inr w"
| "local_balances E sync (a # as) w =
     bindE (getBalance sync a) (\<lambda>balance.
       local_balances E sync as (balanceInfoToJson (e_torrent E) (e_json E) a balance (countBlocks sync) V1 w True))"

definition fetch_balances_execute :: "'k handler_env \<Rightarrow> fetch_balances_handler \<Rightarrow> fetch_balances_handler" where
  "fetch_balances_execute E h = try_exec h
     (if useLocalDatabase E then with_sync E (\<lambda>sync. fill (local_balances E sync (m_addrs h)) h)
      else Inr (network_execute h))"

section \<open>fetch-history-filter\<close>

definition key_str :: "string list" where
  "key_str = [''isInput'', ''isOutput'', ''isSuccess'', ''isForging'', ''isTest'', ''isDelegate'']"

definition fetch_history_filter_prepare :: "'k handler_env \<Rightarrow> addr_handler \<Rightarrow> bool \<times> addr_handler" where
  "fetch_history_filter_prepare E h = try_bool h (require_params h (\<lambda>params.
     checked_address E params (\<lambda>addr.
       bindE (fetch (reader_get ''filters'' params) (-32602) ''filters field not found'') (\<lambda>filters.
         let res = filter (\<lambda>(name, _). name \<in> set key_str) (members filters);
             h = h\<lparr>m_addr := addr\<rparr>
         in CHK_PRM (res \<noteq> []) ''filters is not recognized''
              (Inr (True, upd_writer (\<lambda>w. with_value ''params'' (JObject []) (AddMember ''filters'' (JObject res))
                                            (add_param ''address'' (JString (c_str addr)) w)) h))))))"

section \<open>validate\<close>

definition addr_validate_prepare :: "addr_handler \<Rightarrow> bool \<times> addr_handler" where
  "addr_validate_prepare h = try_bool h (require_params h (\<lambda>params.
     bindE (fetch (get_value as_string params ''address'') (-32602) ''address field not found'') (\<lambda>addr.
       CHK_PRM (addr \<noteq> []) ''address field not found'' (Inr (True, h\<lparr>m_addr := addr\<rparr>)))))"

definition addr_validate_execute :: "'k handler_env \<Rightarrow> addr_handler \<Rightarrow> addr_handler" where
  "addr_validate_execute E h = try_exec h
     (bindE (validate_address (e_ssl E) (m_addr h)) (\<lambda>ok.
        CHK_PRM ok ''address not valid'' (Inr (upd_writer (add_result ''validate'' (JString ''ok'')) h))))"

section \<open>fetch-transaction\<close>

definition fetch_transaction_prepare :: "'k handler_env \<Rightarrow> addr_handler \<Rightarrow> bool \<times> addr_handler" where
  "fetch_transaction_prepare E h = try_bool h (require_params h (\<lambda>params.
     CHK_PRM (history_cache_enable E) ''History cache is disabled''
       (checked_address E params (\<lambda>addr.
          bindE (fetch (get_value as_string params ''data'') (-32602) ''data field not found'') (\<lambda>data.
            CHK_PRM (data \<noteq> []) ''data is empty'' (Inr (True, h\<lparr>m_addr := addr, m_data := data\<rparr>)))))))"

definition same_data :: "string \<Rightarrow> json \<Rightarrow> bool" where
  "same_data hex v \<longleftrightarrow> IsObject v \<and>
     (case FindMember ''data'' v of
        None \<Rightarrow> False
      | Some d \<Rightarrow> (case as_string d of None \<Rightarrow> False | Some s \<Rightarrow> length s = length hex \<and> strncmp_eq hex s (length hex)))"

text \<open>\<open>history\<close> is \<^verbatim>\<open>history_cache::get()->get_history\<close>.\<close>

definition fetch_transaction_execute :: "(string \<Rightarrow> string + json list) \<Rightarrow> addr_handler \<Rightarrow> addr_handler" where
  "fetch_transaction_execute history h =
     (let h = upd_writer writer_reset h
      in case history (m_addr h) of
           Inl err \<Rightarrow> upd_writer (set_error (-32301) err) h
         | Inr txs \<Rightarrow>
             (let hex = toHex_iter (bytes_of_string (m_data h))
              in upd_writer (set_result (JArray (filter (same_data hex) txs))) (h\<lparr>m_data := hex\<rparr>)))"

section \<open>status\<close>

datatype cmd = general | keys

record status_handler = handler +
  m_cmd :: cmd

definition new_status :: "bool \<Rightarrow> status_handler" where
  "new_status ctx = handler.extend (base_handler ctx) \<lparr>m_cmd = general\<rparr>"

text \<open>What the handler reports: build data, settings, the state of the connection pool, the answer of a
  node to \<^verbatim>\<open>get-count-blocks\<close> and the files of the wallet directory (\<^const>\<open>None\<close> where there is none), each
  with the flag of a regular file.\<close>

record status_env =
  git_hash :: string
  git_date :: string
  torName :: string
  proxyName :: string
  tor :: string
  proxy :: string
  jrpc_timeout :: nat
  jrpc_conn_timeout :: nat
  jrpc_attempts_count :: nat
  pool_enable :: bool
  conn_pool_ttl :: nat
  conn_pool_capacity :: nat
  pool_ready :: nat
  pool_busy :: nat
  blocks_cache_ver :: nat
  blocks_cache_force :: bool
  blocks_cache_init_count :: nat
  blocks_cache_recv_count :: nat
  blocks_cache_recv_data_size :: nat
  keep_alive :: bool
  auth_enable :: bool
  validate_request :: bool
  count_answer_text :: string
  wallet_files :: "(bool \<times> string) list option"

definition get_version :: string where
  "get_version = ''1.15.0''"

definition status_prepare :: "status_handler \<Rightarrow> bool \<times> status_handler" where
  "status_prepare h =
     (True, case get_params (m_reader h) of
              None \<Rightarrow> h
            | Some params \<Rightarrow> if get_value_view params ''cmd'' = Some ''keys'' then h\<lparr>m_cmd := keys\<rparr> else h)"

text \<open>The value of \<^verbatim>\<open>blocks_count\<close> read from the answer of a node.\<close>

definition remote_count :: "'k handler_env \<Rightarrow> (json \<Rightarrow> string) \<Rightarrow> string \<Rightarrow> json" where
  "remote_count E Print res =
     (if res = [] then JString ''n/a''
      else case e_Parse E res of
             None \<Rightarrow> JString (parse_message E ''parse error ('' ''): '' res)
           | Some doc \<Rightarrow>
               (case get_error doc of
                  Some err \<Rightarrow> JString (''error: '' @ Print err)
                | None \<Rightarrow>
                    (case get_result doc of
                       None \<Rightarrow> JString ''no result occurred''
                     | Some r \<Rightarrow>
                         (case get_value as_uint64 r ''count_blocks'' of
                            None \<Rightarrow> JString (quoted ''count_blocks'' @ '' has not found'')
                          | Some n \<Rightarrow> JInt (int n)))))"

definition status_members :: "'k handler_env \<Rightarrow> (json \<Rightarrow> string) \<Rightarrow> status_env \<Rightarrow> (string \<times> json) list" where
  "status_members E Print S =
     [(''version'', JString get_version), (''git_hash'', JString (git_hash S)), (''git_date'', JString (git_date S)),
      (''network_tor_name'', JString (torName S)), (''network_proxy_name'', JString (proxyName S)),
      (''network_tor'', JString (tor S)), (''network_proxy'', JString (proxy S)),
      (''use_local_database'', JBool (useLocalDatabase E)), (''allow_state_blocks'', JBool (allowStateBlocks E)),
      (''jrpc_timeout'', JInt (int (jrpc_timeout S))), (''jrpc_conn_timeout'', JInt (int (jrpc_conn_timeout S))),
      (''jrpc_attempts_count'', JInt (int (jrpc_attempts_count S))), (''conn_pool_enable'', JBool (pool_enable S)),
      (''conn_pool_ttl'', JInt (int (conn_pool_ttl S))), (''conn_pool_capacity'', JInt (int (conn_pool_capacity S)))] @
     (if pool_enable S then [(''conn_pool_ready'', JInt (int (pool_ready S))), (''conn_pool_busy'', JInt (int (pool_busy S)))] else []) @
     [(''blocks_cache_ver'', JInt (int (blocks_cache_ver S))), (''blocks_cache_enable'', JBool (runing (e_cache E))),
      (''blocks_cache_next_block'', JInt (int (next_block (e_cache E)))),
      (''blocks_cache_last_signed_block'', JInt (int (last_signed_block (e_cache E)))),
      (''blocks_cache_force'', JBool (blocks_cache_force S)), (''blocks_cache_init_count'', JInt (int (blocks_cache_init_count S))),
      (''blocks_cache_recv_count'', JInt (int (blocks_cache_recv_count S))),
      (''blocks_cache_recv_data_size'', JInt (int (blocks_cache_recv_data_size S))),
      (''blocks_cache_block_verification'', JBool (blocks_cache_block_verification E)),
      (''history_cache_enable'', JBool (history_cache_enable E)), (''keep_alive'', JBool (keep_alive S)),
      (''auth_enable'', JBool (auth_enable S))] @
     (case e_sync E of
        Some sync \<Rightarrow> [(''blocks_count'', JInt (int (countBlocks sync))), (''last_block'', JInt (int (getKnownBlock sync)))]
      | None \<Rightarrow> [(''blocks_count'', remote_count E Print (count_answer_text S))]) @
     [(''validate_request'', JBool (validate_request S)), (''validate_methods'', JBool (validate_methods E))]"

text \<open>A file is listed if its name contains \<^verbatim>\<open>.raw.pub\<close>, without its last eight characters.\<close>

definition wallet_names :: "status_env \<Rightarrow> string list" where
  "wallet_names S =
     (case wallet_files S of
        None \<Rightarrow> []
      | Some fs \<Rightarrow> map (\<lambda>(_, f). take (length f - 8) f)
          (filter (\<lambda>(regular, f). regular \<and> str_find ''.raw.pub'' f \<noteq> None) fs))"

definition status_execute :: "'k handler_env \<Rightarrow> (json \<Rightarrow> string) \<Rightarrow> status_env \<Rightarrow> status_handler \<Rightarrow> status_handler" where
  "status_execute E Print S h =
     (case m_cmd h of
        general \<Rightarrow> upd_writer (\<lambda>w. foldl (\<lambda>w (k, v). add_result k v w) w (status_members E Print S)) h
      | keys \<Rightarrow>
          (let arr = map JString (wallet_names S)
           in upd_writer (\<lambda>w. with_value ''result'' (JObject []) (AddMember ''keys'' (JArray arr))
                (add_result ''count'' (JInt (int (length arr))) w)) h))"

section \<open>The contract\<close>

lemma checked_address_Inr:
  "checked_address E params rest = Inr y \<longleftrightarrow> (\<exists>addr. get_value as_string params ''address'' = Some addr \<and> addr \<noteq> [] \<and>
     validate_address (e_ssl E) addr = Inr True \<and> rest addr = Inr y)"
  by (auto simp: checked_address_def bindE_Inr_conv CHK_Inr)

lemma ready_addr_update [reply_intros]:
  "ready i (h :: addr_handler) \<Longrightarrow> ready i (h\<lparr>m_addr := a\<rparr>)" "ready i h \<Longrightarrow> ready i (h\<lparr>a_countTxs := n\<rparr>)"
  "ready i h \<Longrightarrow> ready i (h\<lparr>a_beginTx := n\<rparr>)" "ready i h \<Longrightarrow> ready i (h\<lparr>m_data := s\<rparr>)"
  by (simp_all add: ready_def)

lemma balance_reply [reply_intros]:
  "open_writer i w \<Longrightarrow> reply_ok i (balanceInfoToJson L J a b n v w False)"
  by (auto simp: balanceInfoToJson_def Let_def intro: reply_intros)

lemma history_reply [reply_intros]:
  "open_writer i w \<Longrightarrow> addressesInfoToJson L J g txs v w = Inr w' \<Longrightarrow> reply_ok i w'"
  by (auto simp: addressesInfoToJson_def bindE_Inr_conv intro: reply_intros)

lemma local_balance_answers: "ready i h \<Longrightarrow> local_balance E h = Inr h' \<Longrightarrow> answered i h'"
  by (auto simp: local_balance_def with_sync_def bindE_Inr_conv intro!: answered_upd_writer reply_intros ready_open)

lemma local_history_answers: "ready i h \<Longrightarrow> local_history E h = Inr h' \<Longrightarrow> answered i h'"
  by (auto simp: local_history_def with_sync_def bindE_Inr_conv intro: answered_fill reply_intros ready_open)

lemma ready_opt_count:
  "ready i h \<Longrightarrow> (\<And>n h. ready i h \<Longrightarrow> ready i (upd n h)) \<Longrightarrow> ready i (opt_count E params name upd h)"
  by (auto simp: opt_count_def intro: reply_intros split: option.split)

interpretation balance_h: network_handler "fetch_balance_prepare E" "fetch_balance_execute E" network_process_response for E
proof (intro default_network_handler, unfold_locales, goal_cases)
  case (1 i h h')
  then show ?case by (auto simp: fetch_balance_prepare_def body_conv checked_address_Inr intro!: reply_intros)
next
  case (2 i h h')
  then show ?case unfolding fetch_balance_prepare_def by (rule try_bool_refuses) (auto simp: body_conv checked_address_Inr)
next
  case (3 i h)
  then show ?case unfolding fetch_balance_execute_def by (intro local_or_network local_balance_answers)
qed

interpretation history_h: network_handler "fetch_history_prepare E" "fetch_history_execute E" network_process_response for E
proof (intro default_network_handler, unfold_locales, goal_cases)
  case (1 i h h')
  then show ?case
    by (auto simp: fetch_history_prepare_def body_conv checked_address_Inr Let_def intro!: ready_opt_count reply_intros)
next
  case (2 i h h')
  then show ?case unfolding fetch_history_prepare_def by (rule try_bool_refuses) (auto simp: body_conv checked_address_Inr Let_def)
next
  case (3 i h)
  then show ?case unfolding fetch_history_execute_def by (intro local_or_network local_history_answers)
qed

interpretation balance_sync_h: json_handler fetch_balance_sync_prepare "fetch_balance_sync_execute E" for E
proof (unfold_locales, goal_cases)
  case (1 i h h')
  then show ?case by (auto simp: fetch_balance_sync_prepare_def prefixed_address_def body_conv intro!: reply_intros)
next
  case (2 i h h')
  then show ?case
    unfolding fetch_balance_sync_prepare_def by (rule try_bool_refuses) (auto simp: prefixed_address_def body_conv)
next
  case (3 i h)
  then show ?case unfolding fetch_balance_sync_execute_def by (rule try_exec_answers) (rule local_balance_answers [OF 3])
qed

interpretation history_sync_h: json_handler fetch_history_sync_prepare "fetch_history_sync_execute E" for E
proof (unfold_locales, goal_cases)
  case (1 i h h')
  then show ?case by (auto simp: fetch_history_sync_prepare_def prefixed_address_def body_conv ready_def)
next
  case (2 i h h')
  then show ?case
    unfolding fetch_history_sync_prepare_def by (rule try_bool_refuses) (auto simp: prefixed_address_def body_conv)
next
  case (3 i h)
  then show ?case unfolding fetch_history_sync_execute_def by (rule try_exec_answers) (rule local_history_answers [OF 3])
qed

lemma open_params [reply_intros]: "open_writer i w \<Longrightarrow> open_writer i (with_value ''params'' d f w)"
  by (simp add: open_writer_def envelope_with_value)

interpretation history_filter_h: network_handler "fetch_history_filter_prepare E" network_execute network_process_response for E
proof (intro default_network_handler, unfold_locales, goal_cases)
  case (1 i h h')
  then show ?case
    by (auto simp: fetch_history_filter_prepare_def body_conv checked_address_Inr Let_def ready_def intro!: reply_intros)
next
  case (2 i h h')
  then show ?case
    unfolding fetch_history_filter_prepare_def by (rule try_bool_refuses) (auto simp: body_conv checked_address_Inr Let_def)
next
  case (3 i h)
  then show ?case by (rule network_executes)
qed

interpretation validate_h: json_handler addr_validate_prepare "addr_validate_execute E" for E
proof (unfold_locales, goal_cases)
  case (1 i h h')
  then show ?case by (auto simp: addr_validate_prepare_def body_conv intro!: reply_intros)
next
  case (2 i h h')
  then show ?case unfolding addr_validate_prepare_def by (rule try_bool_refuses) (auto simp: body_conv)
next
  case (3 i h)
  then show ?case
    unfolding addr_validate_execute_def
    by (rule try_exec_answers) (auto simp: body_conv intro!: answered_upd_writer reply_intros ready_open [OF 3] 3)
qed

interpretation transaction_h: json_handler "fetch_transaction_prepare E" "fetch_transaction_execute history" for E history
proof (unfold_locales, goal_cases)
  case (1 i h h')
  then show ?case by (auto simp: fetch_transaction_prepare_def body_conv checked_address_Inr ready_def)
next
  case (2 i h h')
  then show ?case
    unfolding fetch_transaction_prepare_def by (rule try_bool_refuses) (auto simp: body_conv checked_address_Inr)
next
  case (3 i h)
  have "open_writer i (writer_reset (m_writer h))" using ready_open [OF ready_reset [OF 3]] by simp
  then show ?case
    by (auto simp: fetch_transaction_execute_def Let_def answered_def upd_writer_def intro: reply_intros split: sum.split)
qed

text \<open>The local database fills the array of balances one by one; with no address there would be no reply,
  but a prepared request has an address.\<close>

lemma balances_reply:
  assumes "open_writer i w \<or> (reply_ok i w \<and> FindMember ''error'' w = None)" and "local_balances E sync as w = Inr w'"
    and "as \<noteq> [] \<or> reply_ok i w"
  shows "reply_ok i w'"
  using assms
proof (induction "as" arbitrary: w)
  case (Cons a "as")
  then obtain b where b: "getBalance sync a = Inr b" by (auto simp: bindE_Inr_conv)
  let ?w = "balanceInfoToJson (e_torrent E) (e_json E) a b (countBlocks sync) V1 w True"
  have "envelope i w" "FindMember ''error'' w = None" using Cons.prems(1) by (auto simp: open_writer_def reply_ok_def)
  then have "reply_ok i ?w \<and> FindMember ''error'' ?w = None"
    by (simp add: balanceInfoToJson_def Let_def reply_ok_def envelope_with_value)
  then show ?case using Cons.IH [of ?w] Cons.prems(2) b by auto
qed auto

lemma fold_add_result:
  assumes "open_writer i w \<or> (reply_ok i w \<and> FindMember ''error'' w = None)" and "ms \<noteq> [] \<or> reply_ok i w"
  shows "reply_ok i (foldl (\<lambda>w (k, v). add_result k v w) w ms)"
  using assms
proof (induction ms arbitrary: w)
  case (Cons m ms)
  obtain k v where m: "m = (k, v)" by (cases m)
  have "envelope i w" "FindMember ''error'' w = None" using Cons.prems(1) by (auto simp: open_writer_def reply_ok_def)
  then have "reply_ok i (add_result k v w) \<and> FindMember ''error'' (add_result k v w) = None"
    by (simp add: add_result_def reply_ok_def envelope_with_value)
  then show ?case using Cons.IH [of "add_result k v w"] m by simp
qed auto

interpretation status_h: json_handler status_prepare "status_execute E Print S" for E Print S
proof (unfold_locales, goal_cases)
  case (1 i h h')
  then show ?case by (auto simp: status_prepare_def ready_def split: option.splits if_splits)
next
  case (2 i h h')
  then show ?case by (simp add: status_prepare_def)
next
  case (3 i h)
  have o: "open_writer i (m_writer h)" by (rule ready_open [OF 3])
  have "reply_ok i (foldl (\<lambda>w (k, v). add_result k v w) (m_writer h) (status_members E Print S))"
    by (rule fold_add_result) (simp_all add: o status_members_def)
  moreover have "reply_ok i (with_value ''result'' (JObject []) f (add_result ''count'' v (m_writer h)))" for f v
    using o by (simp add: open_writer_def reply_ok_def add_result_def envelope_with_value)
  ultimately show ?case by (simp add: status_execute_def answered_def Let_def split: cmd.split)
qed

interpretation balances_h: answering_handler "fetch_balances_prepare E" "fetch_balances_execute E" for E
proof (unfold_locales, goal_cases)
  case (1 i h h')
  then show ?case unfolding fetch_balances_prepare_def by (rule try_bool_refuses) (auto simp: body_conv Let_def)
next
  case (2 i h h')
  then have r: "ready i h'" and a: "m_addrs h' \<noteq> []"
    by (auto simp: fetch_balances_prepare_def body_conv Let_def ready_def upd_writer_def intro!: reply_intros split: if_splits)
  have "answered i h1" if "fill (local_balances E sync (m_addrs h')) h' = Inr h1" for sync h1
    using that by (rule answered_fill) (use balances_reply [of i "m_writer h'"] ready_open [OF r] a in blast)
  then show ?case
    unfolding fetch_balances_execute_def by (intro local_or_network [OF r]) (auto simp: with_sync_def bindE_Inr_conv)
qed

interpretation balances_response: response_handler "network_process_response :: fetch_balances_handler response_step"
  by (rule default_response)

end
