(* ===== verification/Wallet_Storage.thy ===== *)
theory Wallet_Storage
  imports Prelude
begin

text \<open>
  The key files of \<^verbatim>\<open>src/src/wallet_storage/wallet_storage.cpp\<close>: two files for an address in the wallet
  directory, read once and then kept in memory.  The files are a map from paths to contents; whether a
  path can be opened for writing is an argument.  The mutex makes every operation one step.
\<close>

record crypt_keys =
  pub_key :: string
  prv_key :: string

record wallet =
  wallet_stotage :: string
  key_files :: "string \<rightharpoonup> string"
  key_storage :: "string \<rightharpoonup> crypt_keys"

definition wallet_path :: "wallet \<Rightarrow> string \<Rightarrow> string" where
  "wallet_path w file = wallet_stotage w @ (if last (wallet_stotage w) \<noteq> CHR ''/'' then ''/'' else []) @ file"

definition read_from_file :: "wallet \<Rightarrow> string \<Rightarrow> string option" where
  "read_from_file w file = (if wallet_stotage w = [] then None else key_files w (wallet_path w file))"

definition write_to_file :: "(string \<Rightarrow> bool) \<Rightarrow> string \<Rightarrow> string \<Rightarrow> wallet \<Rightarrow> bool \<times> wallet" where
  "write_to_file can_open file data w =
     (if wallet_stotage w = [] then (False, w)
      else if can_open (wallet_path w file)
           then (True, w\<lparr>key_files := (key_files w)(wallet_path w file \<mapsto> data)\<rparr>) else (False, w))"

definition peek :: "string \<Rightarrow> wallet \<Rightarrow> crypt_keys option \<times> wallet" where
  "peek address w =
     (case key_storage w address of
        Some k \<Rightarrow> (Some k, w)
      | None \<Rightarrow>
          (case read_from_file w (address @ ''.raw.prv'') of
             None \<Rightarrow> (None, w)
           | Some prv \<Rightarrow>
               (case read_from_file w (address @ ''.raw.pub'') of
                  None \<Rightarrow> (None, w)
                | Some pub \<Rightarrow>
                    (let k = \<lparr>pub_key = pub, prv_key = prv\<rparr>
                     in (Some k, w\<lparr>key_storage := (key_storage w)(address \<mapsto> k)\<rparr>)))))"

definition store :: "(string \<Rightarrow> bool) \<Rightarrow> string \<Rightarrow> crypt_keys \<Rightarrow> wallet \<Rightarrow> bool \<times> wallet" where
  "store can_open address data w =
     (if key_storage w address \<noteq> None then (False, w)
      else case write_to_file can_open (address @ ''.raw.prv'') (prv_key data) w of
             (False, w) \<Rightarrow> (False, w)
           | (True, w) \<Rightarrow>
               (case write_to_file can_open (address @ ''.raw.pub'') (pub_key data) w of
                  (False, w) \<Rightarrow> (False, w) | (True, w) \<Rightarrow> (True, w)))"

section \<open>The contract of a key store\<close>

text \<open>What the handlers rely on: keys that were stored are found; looking keys up or storing others does
  not lose them; what was found once is found again.\<close>

locale key_store =
  fixes lookup :: "string \<Rightarrow> 's \<Rightarrow> 'v option \<times> 's" and put :: "string \<Rightarrow> 'v \<Rightarrow> 's \<Rightarrow> bool \<times> 's"
    and held :: "'s \<Rightarrow> string \<Rightarrow> 'v option"
  assumes lookup_held: "fst (lookup a s) = held s a"
    and lookup_keeps: "held (snd (lookup a s)) b = held s b"
    and put_held: "put a v s = (True, s') \<Longrightarrow> held s' a = Some v"
    and put_other: "put a v s = (ok, s') \<Longrightarrow> b \<noteq> a \<Longrightarrow> held s' b = held s b"
begin

lemma put_lookup: "put a v s = (True, s') \<Longrightarrow> fst (lookup a s') = Some v"
  by (simp add: lookup_held put_held)

lemma lookup_again: "lookup a s = (Some v, s') \<Longrightarrow> fst (lookup a s') = Some v"
  using lookup_held lookup_keeps by (metis fst_conv snd_conv)

lemma put_lookup_other: "put a v s = (ok, s') \<Longrightarrow> b \<noteq> a \<Longrightarrow> fst (lookup b s') = fst (lookup b s)"
  by (simp add: lookup_held put_other)

end

definition held_keys :: "wallet \<Rightarrow> string \<Rightarrow> crypt_keys option" where
  "held_keys w a = fst (peek a w)"

lemma append_suffix_inject:
  "length s = length t \<Longrightarrow> a @ s = b @ t \<longleftrightarrow> a = b \<and> s = t"
  by auto

lemma wallet_path_files [simp]: "wallet_path (w\<lparr>key_files := f\<rparr>) = wallet_path w"
  "wallet_path (w\<lparr>key_storage := g\<rparr>) = wallet_path w"
  by (simp_all add: wallet_path_def fun_eq_iff)

lemma wallet_path_inject [simp]: "wallet_path w f = wallet_path w g \<longleftrightarrow> f = g"
  by (simp add: wallet_path_def)

lemma store_cases:
  assumes "store can_open a v w = (ok, w')"
  shows "wallet_stotage w' = wallet_stotage w \<and> key_storage w' = key_storage w \<and>
    (\<forall>p. p \<noteq> wallet_path w (a @ ''.raw.prv'') \<longrightarrow> p \<noteq> wallet_path w (a @ ''.raw.pub'') \<longrightarrow> key_files w' p = key_files w p) \<and>
    (key_storage w a \<noteq> None \<longrightarrow> w' = w) \<and>
    (ok \<longrightarrow> wallet_stotage w \<noteq> [] \<and> key_storage w a = None \<and>
       key_files w' (wallet_path w (a @ ''.raw.prv'')) = Some (prv_key v) \<and>
       key_files w' (wallet_path w (a @ ''.raw.pub'')) = Some (pub_key v))"
  using assms by (auto simp: store_def write_to_file_def split: if_splits)

lemma peek_held: "held_keys w a =
  (case key_storage w a of Some k \<Rightarrow> Some k
   | None \<Rightarrow> if wallet_stotage w = [] then None
       else case (key_files w (wallet_path w (a @ ''.raw.prv'')), key_files w (wallet_path w (a @ ''.raw.pub''))) of
         (Some prv, Some pub) \<Rightarrow> Some \<lparr>pub_key = pub, prv_key = prv\<rparr> | _ \<Rightarrow> None)"
  by (auto simp: held_keys_def peek_def read_from_file_def Let_def split: option.splits)

interpretation wallet_keys: key_store peek "store can_open" held_keys for can_open
proof (unfold_locales, goal_cases)
  case (1 a s)
  then show ?case by (simp add: held_keys_def)
next
  case (2 a s b)
  then show ?case
    by (auto simp: peek_held peek_def read_from_file_def Let_def split: option.splits if_splits)
next
  case (3 a v s s')
  then show ?case using store_cases [OF 3] by (auto simp: peek_held wallet_path_def)
next
  case (4 a v s ok s' b)
  have "b @ e \<noteq> a @ ''.raw.prv'' \<and> b @ e \<noteq> a @ ''.raw.pub''" if "e \<in> {''.raw.prv'', ''.raw.pub''}" for e
    using 4(2) that by (auto simp: append_suffix_inject)
  then have f: "key_files s' (wallet_path s (b @ e)) = key_files s (wallet_path s (b @ e))" if "e \<in> {''.raw.prv'', ''.raw.pub''}" for e
    using store_cases [OF 4(1)] that by simp
  have p: "wallet_path s' = wallet_path s" using store_cases [OF 4(1)] by (simp add: wallet_path_def fun_eq_iff)
  have "wallet_stotage s' = wallet_stotage s" "key_storage s' = key_storage s" using store_cases [OF 4(1)] by simp_all
  then show ?case unfolding peek_held p using f [of "''.raw.prv''"] f [of "''.raw.pub''"] by (simp split: option.split)
qed
section \<open>Properties\<close>

text \<open>Keys that \<^verbatim>\<open>store\<close> accepted are what \<^verbatim>\<open>peek\<close> finds, now and whatever other addresses are looked up or
  stored before; and an address whose keys are in memory is never overwritten.\<close>

lemma stored_keys_found:
  assumes "store can_open a keys w = (True, w1)" and "b \<noteq> a" and "w2 = snd (store can_open b other (snd (peek b w1)))"
  shows "fst (peek a w1) = Some keys \<and> fst (peek a w2) = Some keys \<and>
    store can_open a other (snd (peek a w2)) = (False, snd (peek a w2))"
proof -
  have h1: "held_keys w1 a = Some keys" by (rule wallet_keys.put_held [OF assms(1)])
  have "held_keys (snd (peek b w1)) a = Some keys" using h1 by (simp add: wallet_keys.lookup_keeps)
  then have h2: "held_keys w2 a = Some keys"
    using assms(2,3) wallet_keys.put_other [of can_open b other "snd (peek b w1)" _ w2 a]
    by (cases "store can_open b other (snd (peek b w1))") auto
  have "key_storage (snd (peek a w)) a \<noteq> None" if "held_keys w a = Some keys" for w
    using that by (auto simp: held_keys_def peek_def read_from_file_def Let_def split: option.splits if_splits)
  with h2 have "store can_open a other (snd (peek a w2)) = (False, snd (peek a w2))" by (simp add: store_def)
  with h1 h2 show ?thesis by (simp add: held_keys_def)
qed

lemma stored_keys_found_witness:
  "\<exists>w1. store (\<lambda>_. True) ''0x01'' \<lparr>pub_key = ''aa'', prv_key = ''bb''\<rparr>
      \<lparr>wallet_stotage = ''w'', key_files = Map.empty, key_storage = Map.empty\<rparr> = (True, w1) \<and>
    fst (peek ''0x01'' w1) = Some \<lparr>pub_key = ''aa'', prv_key = ''bb''\<rparr>"
proof -
  let ?w = "\<lparr>wallet_stotage = ''w'', key_files = Map.empty, key_storage = Map.empty\<rparr>"
  let ?k = "\<lparr>pub_key = ''aa'', prv_key = ''bb''\<rparr>"
  obtain w1 where s: "store (\<lambda>_. True) ''0x01'' ?k ?w = (True, w1)"
    by (simp add: store_def write_to_file_def)
  show ?thesis using stored_keys_found [OF s, of "''0x02''" _ ?k] s by simp
qed

end
