(* ===== verification/Tx_Handlers.thy ===== *)
theory Tx_Handlers
  imports Handler_Base Wallet_Storage
begin

text \<open>
  The handlers that create keys and transactions: \<^verbatim>\<open>generate_handler\<close>, \<^verbatim>\<open>create_tx_base_handler\<close> with
  \<^verbatim>\<open>create_tx_handler\<close> and \<^verbatim>\<open>create_tx_handler_v2\<close>, \<^verbatim>\<open>send_tx_handler\<close> (which may first ask a node for
  the nonce) and \<^verbatim>\<open>send_tx_handler_sync\<close>.  The key store is a field of the handlers here.  Before
  \<^verbatim>\<open>check_params\<close> nothing can throw, so the exceptions behind it are caught in the state it leaves.
\<close>

section \<open>generate\<close>

record wallet_handler = handler +
  m_wallet :: wallet

definition generate_execute :: "'k handler_env \<Rightarrow> (string \<Rightarrow> bool) \<Rightarrow> 'a wallet_handler_scheme \<Rightarrow> 'a wallet_handler_scheme" where
  "generate_execute E can_open h =
     (case CRYPTO_generate_wallet (e_ssl E) \<lparr>private_key_buf = [], public_key_buf = [], mh_address_buf = [], wallet_nonce = 0\<rparr> of
        Inl e \<Rightarrow> catch_error e h
      | Inr wallet \<Rightarrow>
          (let pub = bin2hex (public_key_buf wallet);
               prv = bin2hex (private_key_buf wallet);
               address = ''0x'' @ bin2hex (mh_address_buf wallet);
               (ok, w) = store can_open address \<lparr>pub_key = pub, prv_key = prv\<rparr> (m_wallet h);
               h = h\<lparr>m_wallet := w\<rparr>
           in if ok
              then upd_writer (\<lambda>w. add_result ''prv_key'' (JString prv)
                     (add_result ''pub_key'' (JString pub) (add_result ''address'' (JString address) w))) h
              else catch_error (InvalidParam (-32602) ''Failed on store keys'' None) h))"

section \<open>Transactions\<close>

record create_tx_base_handler = wallet_handler +
  m_fee :: u64
  m_value :: u64
  m_nonce :: u64
  m_address :: string
  m_to :: string
  t_data :: string
  t_hash :: string
  m_sign :: string
  m_transaction :: string
  m_keys :: crypt_keys

definition new_tx_handler :: "bool \<Rightarrow> wallet \<Rightarrow> create_tx_base_handler" where
  "new_tx_handler ctx w = wallet_handler.extend (handler.extend (base_handler ctx) \<lparr>m_wallet = w\<rparr>)
     \<lparr>m_fee = 0, m_value = 0, m_nonce = 0, m_address = [], m_to = [], t_data = [], t_hash = [], m_sign = [],
      m_transaction = [], m_keys = \<lparr>pub_key = [], prv_key = []\<rparr>\<rparr>"

definition nonempty :: "string option \<Rightarrow> string option" where
  "nonempty s = (case s of Some (c # cs) \<Rightarrow> Some (c # cs) | _ \<Rightarrow> None)"

definition checked_string :: "'k handler_env \<Rightarrow> json \<Rightarrow> string \<Rightarrow> string \<Rightarrow> string \<Rightarrow> (string \<Rightarrow> 'a fallible) \<Rightarrow> 'a fallible" where
  "checked_string E params name missing invalid rest =
     bindE (fetch (nonempty (get_value as_string params name)) (-32602) missing) (\<lambda>a.
       bindE (validate_address (e_ssl E) a) (\<lambda>ok. CHK_PRM ok invalid (rest a)))"

text \<open>\<^verbatim>\<open>m_fee\<close> keeps its value where the field is missing or no number.\<close>

definition fee_param :: "json \<Rightarrow> u64 \<Rightarrow> u64 fallible" where
  "fee_param params old =
     (case val2str (reader_get ''fee'' params) of Some tmp \<Rightarrow> stoull tmp | None \<Rightarrow> Inr old)"

definition with_keys :: "string \<Rightarrow> create_tx_base_handler \<Rightarrow> create_tx_base_handler fallible" where
  "with_keys address h =
     (case peek address (m_wallet h) of
        (None, w) \<Rightarrow> Inl (InvalidParam (-32602) ''failed on get keys'' None)
      | (Some k, w) \<Rightarrow> Inr (h\<lparr>m_address := address, m_keys := k, m_wallet := w\<rparr>))"

definition check_params_body :: "'k handler_env \<Rightarrow> create_tx_base_handler \<Rightarrow> (bool \<times> create_tx_base_handler) fallible" where
  "check_params_body E h = require_params h (\<lambda>params.
     checked_string E params ''address'' ''address field not found'' ''payer address is invalid'' (\<lambda>address.
     checked_string E params ''to'' ''to field not found'' ''reciever address is invalid'' (\<lambda>to.
     bindE (fetch (reader_get ''value'' params) (-32602) ''value field not found'') (\<lambda>jValue.
     bindE (fetch (val2str (Some jValue)) (-32602) ''value field incorrect format'') (\<lambda>tmp.
     bindE (stoull tmp) (\<lambda>value.
     bindE (fee_param params (m_fee h)) (\<lambda>fee.
       let data = (case get_value as_string params ''data'' of Some s \<Rightarrow> s | None \<Rightarrow> t_data h)
       in bindE (with_keys address (h\<lparr>m_to := to, m_value := value, m_fee := fee, t_data := data\<rparr>))
            (\<lambda>h. Inr (True, h)))))))))"

definition check_params :: "'k handler_env \<Rightarrow> create_tx_base_handler \<Rightarrow> bool \<times> create_tx_base_handler" where
  "check_params E h = try_bool h (check_params_body E h)"

definition make_json :: "create_tx_base_handler \<Rightarrow> create_tx_base_handler" where
  "make_json h = upd_writer (\<lambda>w.
     let w = set_method ''mhc_send'' (writer_reset w);
         w = add_param ''transaction'' (JString (c_str (m_transaction h))) w;
         w = add_param ''to'' (JString (c_str (m_to h))) w;
         w = add_param ''value'' (JString (to_string (unat (m_value h)))) w;
         w = add_param ''fee'' (JString (if m_fee h = 0 then [] else to_string (unat (m_fee h)))) w;
         w = add_param ''nonce'' (JString (to_string (unat (m_nonce h)))) w;
         w = add_param ''data'' (JString (c_str (t_data h))) w;
         w = add_param ''pubkey'' (JString (pub_key (m_keys h))) w;
         w = add_param ''sign'' (JString (m_sign h)) w
     in if t_hash h = [] then w else add_param ''hash'' (JString (t_hash h)) w) h"

definition make_json_v2 :: "create_tx_base_handler \<Rightarrow> create_tx_base_handler" where
  "make_json_v2 h = upd_writer (\<lambda>w.
     let w = add_result ''transaction'' (JString (c_str (m_transaction h))) (writer_reset w);
         w = add_result ''to'' (JString (c_str (m_to h))) w;
         w = add_result ''value'' (JString (to_string (unat (m_value h)))) w;
         w = add_result ''fee'' (JString (if m_fee h = 0 then [] else to_string (unat (m_fee h)))) w;
         w = add_result ''nonce'' (JString (to_string (unat (m_nonce h)))) w;
         w = add_result ''data'' (JString (c_str (t_data h))) w;
         w = add_result ''pubkey'' (JString (pub_key (m_keys h))) w;
         w = add_result ''sign'' (JString (m_sign h)) w
     in add_result ''hash'' (JString (t_hash h)) w) h"

text \<open>The hash of a signed transaction: the transaction, the signature and the public key with their sizes.\<close>

definition hash_args :: "create_tx_base_handler \<Rightarrow> fmt_arg list" where
  "hash_args h = [AStr (c_str (m_transaction h)), A32 (of_nat (length (m_sign h) div 2)), AStr (c_str (m_sign h)),
     A32 (of_nat (length (pub_key (m_keys h)) div 2)), AStr (c_str (pub_key (m_keys h)))]"

definition with_hash :: "'k handler_env \<Rightarrow> create_tx_base_handler \<Rightarrow> create_tx_base_handler fallible" where
  "with_hash E h =
     bindE (make_tx (e_sha256 E) (t_hash h) ''xuxux'' (hash_args h)) (\<lambda>(ok, hash).
       CHK_PRM ok ''failed on generate tx'' (Inr (h\<lparr>t_hash := hash\<rparr>)))"

definition build_request :: "'k handler_env \<Rightarrow> (create_tx_base_handler \<Rightarrow> create_tx_base_handler) \<Rightarrow> bool \<Rightarrow>
    create_tx_base_handler \<Rightarrow> bool \<times> create_tx_base_handler" where
  "build_request E mk_json create_hash h = try_bool h
     (let fee = (if m_fee h = 0 then of_nat (length (t_data h)) else m_fee h);
          data = toHex_iter (bytes_of_string (t_data h))
      in bindE (gen_sign (e_ssl E) (m_transaction h) (m_sign h) (prv_key (m_keys h)) ''xUUUux''
               [AStr (c_str (m_to h)), A64 (m_value h), A64 fee, A64 (m_nonce h), A32 (of_nat (length data div 2)), AStr (c_str data)])
           (\<lambda>(ok, transaction, sign).
             let h = h\<lparr>m_fee := fee, t_data := data, m_transaction := transaction, m_sign := sign\<rparr>
             in CHK_PRM ok ''failed on gen sign''
                  (bindE (if create_hash then with_hash E h else Inr h) (\<lambda>h. Inr (True, mk_json h)))))"

subsection \<open>create-tx\<close>

definition nonce_param :: "json \<Rightarrow> string \<Rightarrow> string \<Rightarrow> u64 fallible" where
  "nonce_param params missing bad =
     bindE (fetch (reader_get ''nonce'' params) (-32602) missing) (\<lambda>j.
       bindE (fetch (val2str (Some j)) (-32602) bad) stoull)"

definition create_tx_prepare :: "'k handler_env \<Rightarrow> (create_tx_base_handler \<Rightarrow> create_tx_base_handler) \<Rightarrow> bool \<Rightarrow>
    create_tx_base_handler \<Rightarrow> bool \<times> create_tx_base_handler" where
  "create_tx_prepare E mk_json create_hash h =
     (case check_params E h of
        (False, h) \<Rightarrow> (False, h)
      | (True, h) \<Rightarrow> try_bool h
          (bindE (fetch (get_params (m_reader h)) (-32602) []) (\<lambda>params.
             bindE (nonce_param params ''nonce field not found'' ''nonce field has incorrect format'')
               (\<lambda>nonce. Inr (build_request E mk_json create_hash (h\<lparr>m_nonce := nonce\<rparr>))))))"

definition create_tx_execute :: "create_tx_base_handler \<Rightarrow> create_tx_base_handler" where
  "create_tx_execute h = h"

subsection \<open>send-tx\<close>

text \<open>\<^verbatim>\<open>check_params\<close> of \<^verbatim>\<open>send_tx_handler\<close>: -1 for an error, 1 for a transaction that is given, 0 for one to be
  built.\<close>

definition send_check_params :: "'k handler_env \<Rightarrow> create_tx_base_handler \<Rightarrow> int \<times> create_tx_base_handler" where
  "send_check_params E h =
     (case require_params h (\<lambda>params.
        let tx = (case get_value as_string params ''transaction'' of Some s \<Rightarrow> s | None \<Rightarrow> m_transaction h);
            h = h\<lparr>m_transaction := tx\<rparr>
        in if tx = [] then Inr (case check_params E h of (ok, h) \<Rightarrow> (if ok then 0 else -1, h))
           else checked_string E params ''address'' ''address field not found'' ''address is invalid'' (\<lambda>address.
                  bindE (with_keys address h) (\<lambda>h. Inr (1, h)))) of
        Inl e \<Rightarrow> (-1, catch_error e h)
      | Inr r \<Rightarrow> r)"

text \<open>A given transaction is parsed for its fields, signed and hashed; \<^verbatim>\<open>m_to\<close> is appended to.\<close>

definition sign_given :: "'k handler_env \<Rightarrow> create_tx_base_handler \<Rightarrow> create_tx_base_handler fallible" where
  "sign_given E h =
     bindE (parse_tansaction (m_transaction h)
        \<lparr>tx_to = m_to h, tx_value = m_value h, tx_fee = m_fee h, tx_nonce = m_nonce h, tx_data_size = 0, tx_data = t_data h\<rparr>)
       (\<lambda>(ok, p). CHK_PRM ok ''failed on parse transaction''
          (bindE (CRYPTO_sign_data (e_ssl E) (prv_key (m_keys h)) (hex2bin (m_transaction h))) (\<lambda>sign.
             bindE (with_hash E (h\<lparr>m_to := tx_to p, m_value := tx_value p, m_fee := tx_fee p, m_nonce := tx_nonce p,
                                   t_data := tx_data p, m_sign := bin2hex sign\<rparr>))
               (\<lambda>h. Inr (make_json h)))))"

text \<open>Asking a node for the balance of the payer: the reply comes later.\<close>

definition ask_balance :: "create_tx_base_handler \<Rightarrow> create_tx_base_handler" where
  "ask_balance h = h\<lparr>m_async := True,
     m_sent := Some (''fetch-balance'', add_param ''address'' (JString (m_address h)) (set_id 1 json_rpc_writer))\<rparr>"

text \<open>The nonce of the request, or of the local database.\<close>

definition local_nonce :: "'k handler_env \<Rightarrow> create_tx_base_handler \<Rightarrow> (bool \<times> create_tx_base_handler) fallible" where
  "local_nonce E h = with_sync E (\<lambda>sync. bindE (getBalance sync (m_address h)) (\<lambda>balance.
     Inr (build_request E make_json True (h\<lparr>m_nonce := of_nat (bal_countSpent balance) + 1\<rparr>))))"

definition send_nonce :: "'k handler_env \<Rightarrow> string \<Rightarrow> (bool \<times> create_tx_base_handler) fallible \<Rightarrow> create_tx_base_handler \<Rightarrow>
    (bool \<times> create_tx_base_handler) fallible" where
  "send_nonce E bad otherwise h =
     bindE (fetch (get_params (m_reader h)) (-32602) []) (\<lambda>params.
       if reader_get ''nonce'' params \<noteq> None
       then bindE (nonce_param params [] bad) (\<lambda>n. Inr (build_request E make_json True (h\<lparr>m_nonce := n\<rparr>)))
       else otherwise)"

definition send_tx_prepare :: "'k handler_env \<Rightarrow> create_tx_base_handler \<Rightarrow> bool \<times> create_tx_base_handler" where
  "send_tx_prepare E h =
     (case send_check_params E h of
        (r, h) \<Rightarrow>
          if r = -1 then (False, h)
          else if r = 1 then try_bool h (bindE (sign_given E h) (\<lambda>h. Inr (True, h)))
          else try_bool h (send_nonce E (quoted ''nonce'' @ '' field has incorrect format'')
                 (if useLocalDatabase E then local_nonce E h else Inr (False, ask_balance h)) h))"

text \<open>The answer about the balance: the flag tells whether the reply is sent now (else the transaction is
  on its way to the node).\<close>

definition on_get_balance :: "'k handler_env \<Rightarrow> string \<Rightarrow> create_tx_base_handler \<Rightarrow> bool \<times> create_tx_base_handler" where
  "on_get_balance E str h =
     (case e_Parse E str of
        None \<Rightarrow> (True, catch_error (InvalidParam (-32602) (parse_message E ''fetch-balane response parse error ('' ''): '' str) None) h)
      | Some doc \<Rightarrow>
          (case get_error doc of
             Some err \<Rightarrow> (True, upd_writer (\<lambda>w. set_error_value err (writer_reset w)) h)
           | None \<Rightarrow>
               (case get_result doc of
                  None \<Rightarrow> (True, catch_error (InvalidParam (-32602) ''No occur result or error'' None) h)
                | Some res \<Rightarrow>
                    (case get_value as_uint64 res ''count_spent'' of
                       None \<Rightarrow> (True, catch_error (InvalidParam (-32602)
                         (''fetch-balane response: field '' @ quoted ''count_spent'' @ '' not found'') None) h)
                     | Some n \<Rightarrow>
                         (case build_request E make_json True (h\<lparr>m_nonce := of_nat n + 1\<rparr>) of
                            (False, h) \<Rightarrow> (True, h)
                          | (True, h) \<Rightarrow> (False, network_execute h))))))"

definition send_tx_process_response :: "create_tx_base_handler response_step" where
  "send_tx_process_response doc h =
     (case get_error doc of
        Some err \<Rightarrow> (upd_writer (set_error_value err) h, None)
      | None \<Rightarrow>
          (case get_params doc of
             None \<Rightarrow> (h, Some (InvalidParam (-32602) ''send-tx response: params field not found'' None))
           | Some params \<Rightarrow>
               if as_string params = None
               then (h, Some (InvalidParam (-32602) ''send-tx response: params field has incorrect format'' None))
               else (upd_writer (set_result params) h, None)))"

subsection \<open>send-tx with the local database\<close>

definition send_tx_sync_prepare :: "'k handler_env \<Rightarrow> create_tx_base_handler \<Rightarrow> bool \<times> create_tx_base_handler" where
  "send_tx_sync_prepare E h =
     (case check_params E h of
        (False, h) \<Rightarrow> (False, h)
      | (True, h) \<Rightarrow> try_bool h (send_nonce E ''nonce field incorrect format'' (local_nonce E h) h))"

text \<open>\<^verbatim>\<open>params->IsString()\<close> is called on a null pointer where the answer has no parameters; the model takes
  the message of the check there.\<close>

definition send_tx_sync_process_response :: "create_tx_base_handler response_step" where
  "send_tx_sync_process_response doc h =
     (case get_error doc of
        Some err \<Rightarrow> (upd_writer (set_error_value err) h, None)
      | None \<Rightarrow>
          if get_result doc = None
          then (catch_error (InvalidParam (-32602) ''No occur result or error'' None) h, None)
          else (case get_params doc of
                  Some (JString s) \<Rightarrow> (upd_writer (set_result (JString s)) h, None)
                | _ \<Rightarrow> (catch_error (InvalidParam (-32602) ''params field not found'' None) h, None)))"

section \<open>The contract\<close>

lemma open_set_method [reply_intros]: "open_writer i w \<Longrightarrow> open_writer i (set_method v w)"
  by (simp add: open_writer_def set_method_def envelope_with_value)

text \<open>The part of a handler the contract looks at.\<close>

definition same_base :: "'a handler_scheme \<Rightarrow> 'a handler_scheme \<Rightarrow> bool" where
  "same_base h h' \<longleftrightarrow> m_writer h' = m_writer h \<and> m_async h' = m_async h \<and> m_context h' = m_context h"

lemma same_base_ready: "same_base h h' \<Longrightarrow> ready i h \<Longrightarrow> ready i h'"
  by (simp add: same_base_def ready_def)

lemma make_json_ready: "ready i h \<Longrightarrow> ready i (make_json h)"
  by (auto simp: make_json_def ready_def Let_def intro!: open_add_param open_set_method open_reset dest: envelope_of(1))

lemma make_json_v2_reply:
  assumes "ready i h"
  shows "reply_ok i (m_writer (make_json_v2 h))"
proof -
  have keep: "reply_ok i (add_result k v w) \<and> FindMember ''error'' (add_result k v w) = None"
    if "reply_ok i w \<and> FindMember ''error'' w = None" for k v w
    using that by (simp add: reply_ok_def add_result_def envelope_with_value)
  have "reply_ok i (add_result k v (writer_reset (m_writer h))) \<and> FindMember ''error'' (add_result k v (writer_reset (m_writer h))) = None" for k v
    using open_add_result [OF open_reset [OF envelope_of(1) [OF ready_open [OF assms]]]]
    by (simp add: add_result_def FindMember_reset)
  then show ?thesis unfolding make_json_v2_def Let_def by (simp add: keep)
qed

lemma with_hash_base: "with_hash E h = Inr h' \<Longrightarrow> same_base h h'"
  by (auto simp: with_hash_def bindE_Inr_conv CHK_Inr same_base_def)

lemma build_request_True:
  assumes "build_request E mk_json create_hash h = (True, h')"
  shows "\<exists>h1. h' = mk_json h1 \<and> same_base h h1"
proof -
  obtain fee data transaction sign h1 where
    h1: "(if create_hash then with_hash E (h\<lparr>m_fee := fee, t_data := data, m_transaction := transaction, m_sign := sign\<rparr>)
       else Inr (h\<lparr>m_fee := fee, t_data := data, m_transaction := transaction, m_sign := sign\<rparr>)) = Inr h1" and "h' = mk_json h1"
    using assms by (auto simp: build_request_def try_bool_True bindE_Inr_conv CHK_Inr Let_def)
  moreover have "same_base h h1"
    using h1 with_hash_base by (fastforce simp: same_base_def split: if_splits)
  ultimately show ?thesis by blast
qed

lemma build_request_refuses:
  assumes "ready i h" and "build_request E mk_json create_hash h = (False, h')"
  shows "refused i h'"
  using assms(2) unfolding build_request_def
  by (rule try_bool_refuses [OF assms(1)]) (auto simp: bindE_Inr_conv CHK_Inr Let_def)

lemma build_request_ready: "ready i h \<Longrightarrow> build_request E make_json b h = (True, h') \<Longrightarrow> ready i h'"
  using build_request_True same_base_ready make_json_ready by blast

lemma checked_string_Inr:
  "checked_string E params name m1 m2 rest = Inr y \<longleftrightarrow> (\<exists>a. nonempty (get_value as_string params name) = Some a \<and>
     validate_address (e_ssl E) a = Inr True \<and> rest a = Inr y)"
  by (auto simp: checked_string_def bindE_Inr_conv CHK_Inr)

lemma with_keys_base: "with_keys a h = Inr h' \<Longrightarrow> same_base h h'"
  by (cases "peek a (m_wallet h)") (auto simp: with_keys_def same_base_def split: option.splits)

lemma check_params_contract:
  assumes "ready i h" and "check_params E h = (ok, h')"
  shows "if ok then ready i h' else refused i h'"
proof (cases ok)
  case True
  then have "check_params_body E h = Inr (True, h')" using assms(2) by (simp add: check_params_def try_bool_True)
  then have "same_base h h'"
    using with_keys_base
    by (fastforce simp: check_params_body_def require_params_Inr checked_string_Inr bindE_Inr_conv Let_def same_base_def)
  then show ?thesis using True assms(1) by (simp add: same_base_ready)
next
  case False
  then have "try_bool h (check_params_body E h) = (False, h')" using assms(2) by (simp add: check_params_def)
  then have "refused i h'"
    by (rule try_bool_refuses [OF assms(1)])
      (auto simp: check_params_body_def require_params_Inr checked_string_Inr bindE_Inr_conv Let_def)
  then show ?thesis using False by simp
qed

interpretation generate_h: json_handler require_id "generate_execute E can_open" for E can_open
proof (unfold_locales, goal_cases)
  case (3 i h)
  have "reply_ok i (add_result k3 v3 (add_result k2 v2 (add_result k v (m_writer h))))" for k v k2 v2 k3 v3
    using ready_open [OF 3] by (simp add: open_writer_def reply_ok_def add_result_def envelope_with_value)
  moreover have "error_reply i (m_writer (catch_error e (h\<lparr>m_wallet := w\<rparr>)))" "error_reply i (m_writer (catch_error e h))" for e w
    using ready_envelope [OF 3] by (auto intro: catch_error_reply)
  ultimately show ?case
    by (auto simp: generate_execute_def Let_def answered_def intro: reply_intros split: sum.split prod.split)
qed (use require_id_contract in blast)+

lemma nonce_build_contract:
  assumes "ready i h" and "try_bool h (bindE p (\<lambda>n. Inr (build_request E mk_json b (h\<lparr>m_nonce := n\<rparr>)))) = (ok, h')"
  shows "if ok then \<exists>h1. h' = mk_json h1 \<and> ready i h1 else refused i h'"
proof -
  have r: "ready i (h\<lparr>m_nonce := n\<rparr>)" for n using assms(1) by (simp add: ready_def)
  show ?thesis
  proof (cases ok)
    case True
    then obtain n where "build_request E mk_json b (h\<lparr>m_nonce := n\<rparr>) = (True, h')"
      using assms(2) by (auto simp: try_bool_True bindE_Inr_conv)
    then show ?thesis using True build_request_True same_base_ready [OF _ r] by fastforce
  next
    case False
    then have "try_bool h (bindE p (\<lambda>n. Inr (build_request E mk_json b (h\<lparr>m_nonce := n\<rparr>)))) = (False, h')" using assms(2) by simp
    then have "refused i h'"
      by (rule try_bool_refuses [OF assms(1)]) (auto simp: bindE_Inr_conv dest: build_request_refuses [OF r])
    then show ?thesis using False by simp
  qed
qed

lemma create_tx_contract:
  assumes "ready i h" and "create_tx_prepare E mk_json b h = (ok, h')"
  shows "if ok then \<exists>h1. h' = mk_json h1 \<and> ready i h1 else refused i h'"
proof -
  obtain ok1 h1 where c: "check_params E h = (ok1, h1)" by (cases "check_params E h")
  show ?thesis
  proof (cases ok1)
    case False
    then show ?thesis using assms(2) c check_params_contract [OF assms(1) c] by (auto simp: create_tx_prepare_def)
  next
    case True
    then have r: "ready i h1" using check_params_contract [OF assms(1) c] by simp
    let ?p = "bindE (fetch (get_params (m_reader h1)) (-32602) [])
      (\<lambda>params. nonce_param params ''nonce field not found'' ''nonce field has incorrect format'')"
    have "create_tx_prepare E mk_json b h =
        try_bool h1 (bindE ?p (\<lambda>n. Inr (build_request E mk_json b (h1\<lparr>m_nonce := n\<rparr>))))"
      using c True by (simp add: create_tx_prepare_def bindE_assoc)
    then show ?thesis using assms(2) by (intro nonce_build_contract [OF r]) simp
  qed
qed

interpretation create_tx_v2_h: answering_handler "create_tx_prepare E make_json_v2 True" create_tx_execute for E
proof (unfold_locales, goal_cases)
  case (1 i h h')
  then show ?case using create_tx_contract [OF 1] by simp
next
  case (2 i h h')
  then show ?case using create_tx_contract [OF 2] make_json_v2_reply by (auto simp: create_tx_execute_def answered_def)
qed

text \<open>The nonce from the request, from the local database, or from a node.\<close>

lemma send_check_params_contract:
  assumes "ready i h" and "send_check_params E h = (r, h')"
  shows "if r = -1 then refused i h' else ready i h'"
proof -
  let ?tx = "\<lambda>params. case get_value as_string params ''transaction'' of Some s \<Rightarrow> s | None \<Rightarrow> m_transaction h"
  have rt: "ready i (h\<lparr>m_transaction := tx\<rparr>)" for tx using assms(1) by (simp add: ready_def)
  have "if r = -1 then refused i h' else ready i h'"
    if "check_params E (h\<lparr>m_transaction := tx\<rparr>) = (ok, h')" "r = (if ok then 0 else -1)" for ok tx
    using check_params_contract [OF rt that(1)] that(2) by (auto split: if_splits)
  moreover have "ready i h'" if "with_keys a (h\<lparr>m_transaction := tx\<rparr>) = Inr h'" for a tx
    using same_base_ready [OF with_keys_base [OF that] rt] .
  moreover have "refused i (catch_error e h)" for e
    using catch_error_reply [OF ready_envelope [OF assms(1)]] by (simp add: refused_def)
  ultimately show ?thesis
    using assms(2)
    by (auto simp: send_check_params_def require_params_Inr checked_string_Inr bindE_Inr_conv Let_def split: sum.splits if_splits prod.splits)
qed

lemma sign_given_ready:
  assumes "ready i h" and "sign_given E h = Inr h'"
  shows "ready i h'"
proof -
  obtain h0 h1 where "with_hash E h0 = Inr h1" "same_base h h0" "h' = make_json h1"
    using assms(2) by (fastforce simp: sign_given_def bindE_Inr_conv CHK_Inr same_base_def)
  then show ?thesis using assms(1) with_hash_base same_base_ready make_json_ready by metis
qed

lemma send_nonce_contract:
  assumes "ready i h" and "try_bool h (send_nonce E bad otherwise h) = (ok, h')"
    and "otherwise = local_nonce E h \<or> otherwise = Inr (False, ask_balance h)"
  shows "if ok then ready i h' else refused i h'"
proof -
  have r: "ready i (h\<lparr>m_nonce := n\<rparr>)" for n using assms(1) by (simp add: ready_def)
  have built: "(\<exists>n. build_request E make_json True (h\<lparr>m_nonce := n\<rparr>) = (ok, h')) \<or> \<not> ok \<and> h' = ask_balance h"
    if "send_nonce E bad otherwise h = Inr (ok, h')"
    using that assms(3)
    by (auto simp: send_nonce_def local_nonce_def with_sync_def bindE_Inr_conv split: if_splits)
  consider e where "\<not> ok" "h' = catch_error e h" | "send_nonce E bad otherwise h = Inr (ok, h')"
    using assms(2) by (cases "send_nonce E bad otherwise h") (auto simp: try_bool_def)
  then show ?thesis
  proof cases
    case 1
    then show ?thesis using catch_error_reply [OF ready_envelope [OF assms(1)]] by (simp add: refused_def)
  next
    case 2
    have "refused i (ask_balance h)" by (simp add: refused_def ask_balance_def)
    with built [OF 2] show ?thesis
      using build_request_ready [OF r] build_request_refuses [OF r] by (cases ok) (simp_all, blast+)
  qed
qed

lemma send_tx_contract:
  assumes "ready i h" and "send_tx_prepare E h = (ok, h')"
  shows "if ok then ready i h' else refused i h'"
proof -
  obtain r h1 where c: "send_check_params E h = (r, h1)" by (cases "send_check_params E h")
  note k = send_check_params_contract [OF assms(1) c]
  consider "r = -1" | "r = 1" | "r \<noteq> -1" "r \<noteq> 1" by blast
  then show ?thesis
  proof cases
    case 1
    then show ?thesis using assms(2) c k by (auto simp: send_tx_prepare_def)
  next
    case 2
    then have r: "ready i h1" using k by simp
    then have "refused i (catch_error e h1)" for e using catch_error_reply [OF ready_envelope] by (auto simp: refused_def)
    then show ?thesis
      using assms(2) c 2 sign_given_ready [OF r]
      by (auto simp: send_tx_prepare_def try_bool_def bindE_def split: sum.splits)
  next
    case 3
    then have r: "ready i h1" using k by simp
    show ?thesis
      by (rule send_nonce_contract [OF r]) (use assms(2) c 3 in \<open>auto simp: send_tx_prepare_def\<close>)
  qed
qed

lemma send_tx_sync_contract:
  assumes "ready i h" and "send_tx_sync_prepare E h = (ok, h')"
  shows "if ok then ready i h' else refused i h'"
proof -
  obtain ok1 h1 where c: "check_params E h = (ok1, h1)" by (cases "check_params E h")
  note k = check_params_contract [OF assms(1) c]
  show ?thesis
  proof (cases ok1)
    case False
    then show ?thesis using assms(2) c k by (auto simp: send_tx_sync_prepare_def)
  next
    case True
    then show ?thesis
      using k assms(2) c by (intro send_nonce_contract [of i h1]) (auto simp: send_tx_sync_prepare_def)
  qed
qed

interpretation send_tx_h: json_handler "send_tx_prepare E" network_execute for E
  by unfold_locales (auto dest: send_tx_contract intro: network_executes)

interpretation send_tx_sync_h: json_handler "send_tx_sync_prepare E" network_execute for E
  by unfold_locales (auto dest: send_tx_sync_contract intro: network_executes)

interpretation send_tx_response: response_handler send_tx_process_response
  by unfold_locales (auto simp: send_tx_process_response_def intro: reply_intros envelope_of split: option.splits if_splits)

interpretation send_tx_sync_response: response_handler send_tx_sync_process_response
  by unfold_locales (auto simp: send_tx_sync_process_response_def intro: reply_intros catch_error_reply envelope_of
      split: option.splits if_splits json.splits)

section \<open>What is signed is what is sent\<close>

lemma c_str_Cons: "c_str (c # s) = (if c = CHR 0x00 then [] else c # c_str s)"
  by (simp add: c_str_def)

lemma make_json_fields [simp]:
  "m_transaction (make_json h) = m_transaction h" "m_sign (make_json h) = m_sign h" "m_to (make_json h) = m_to h"
  "m_nonce (make_json h) = m_nonce h" "m_value (make_json h) = m_value h" "m_fee (make_json h) = m_fee h"
  by (simp_all add: make_json_def upd_writer_def)

lemma make_json_params:
  "\<exists>p. get_params (m_writer (make_json h)) = Some p \<and>
     get_value as_string p ''transaction'' = Some (c_str (m_transaction h)) \<and> get_value as_string p ''to'' = Some (c_str (m_to h)) \<and>
     get_value as_string p ''value'' = Some (to_string (unat (m_value h))) \<and>
     get_value as_string p ''nonce'' = Some (to_string (unat (m_nonce h))) \<and> get_value as_string p ''sign'' = Some (m_sign h)"
  by (auto simp: make_json_def Let_def get_params_def reader_get_def add_param_def set_method_def get_value_def as_string_def
      FindMember_reset)

lemma with_hash_fields:
  "with_hash E h = Inr h' \<Longrightarrow> m_transaction h' = m_transaction h \<and> m_sign h' = m_sign h \<and> m_to h' = m_to h \<and>
     m_nonce h' = m_nonce h \<and> m_value h' = m_value h \<and> m_fee h' = m_fee h"
  by (auto simp: with_hash_def bindE_Inr_conv CHK_Inr)

lemma build_request_signed:
  assumes "build_request E make_json create_hash h = (True, h')"
  shows "\<exists>fee t s h1. fee = (if m_fee h = 0 then of_nat (length (t_data h)) else m_fee h) \<and>
    gen_sign (e_ssl E) (m_transaction h) (m_sign h) (prv_key (m_keys h)) ''xUUUux''
      [AStr (c_str (m_to h)), A64 (m_value h), A64 fee, A64 (m_nonce h), A32 (of_nat (length (t_data h))),
       AStr (toHex_iter (bytes_of_string (t_data h)))] = Inr (True, t, s) \<and>
    h' = make_json h1 \<and> m_transaction h1 = t \<and> m_sign h1 = s \<and> m_to h1 = m_to h \<and> m_nonce h1 = m_nonce h \<and>
    m_value h1 = m_value h \<and> m_fee h1 = fee"
proof -
  let ?fee = "if m_fee h = 0 then of_nat (length (t_data h)) else m_fee h"
  let ?h = "\<lambda>t s. h\<lparr>m_fee := ?fee, t_data := toHex_iter (bytes_of_string (t_data h)), m_transaction := t, m_sign := s\<rparr>"
  obtain t s h1 where g: "gen_sign (e_ssl E) (m_transaction h) (m_sign h) (prv_key (m_keys h)) ''xUUUux''
      [AStr (c_str (m_to h)), A64 (m_value h), A64 ?fee, A64 (m_nonce h), A32 (of_nat (length (t_data h))),
       AStr (toHex_iter (bytes_of_string (t_data h)))] = Inr (True, t, s)"
    and h1: "(if create_hash then with_hash E (?h t s) else Inr (?h t s)) = Inr h1" "h' = make_json h1"
    using assms by (auto simp: build_request_def try_bool_True bindE_Inr_conv CHK_Inr Let_def)
  have "m_transaction h1 = t \<and> m_sign h1 = s \<and> m_to h1 = m_to h \<and> m_nonce h1 = m_nonce h \<and> m_value h1 = m_value h \<and> m_fee h1 = ?fee"
    using h1(1) with_hash_fields [of E "?h t s" h1] by (cases create_hash) auto
  then show ?thesis using g h1(2) by blast
qed

lemma build_request_built:
  assumes "gen_sign (e_ssl E) (m_transaction h) (m_sign h) (prv_key (m_keys h)) ''xUUUux''
      [AStr (c_str (m_to h)), A64 (m_value h), A64 (if m_fee h = 0 then of_nat (length (t_data h)) else m_fee h), A64 (m_nonce h),
       A32 (of_nat (length (t_data h))), AStr (toHex_iter (bytes_of_string (t_data h)))] = Inr (True, t, s)"
  shows "\<exists>h'. build_request E mk_json False h = (True, h')"
  using assms by (simp add: build_request_def try_bool_def Let_def CHK_PRM_def)

lemma gen_sign_signature:
  assumes "gen_sign ssl t0 r0 prv fmt args = Inr (True, t, s)"
  shows "\<exists>sign. CRYPTO_sign_data ssl prv (hex2bin t) = Inr sign \<and> s = bin2hex sign"
  using assms by (auto simp: gen_sign_def split: option.splits if_splits sum.splits exc.splits)

section \<open>Properties\<close>


definition sample_tx_env :: "byte list handler_env" where
  "sample_tx_env = \<lparr>e_Parse = Map.empty, e_parse_code = (\<lambda>_. 3), e_parse_text = (\<lambda>_. []), e_methods_schema = None,
     e_ssl = sample_ssl, e_sha256 = (\<lambda>_. replicate 32 0), e_torrent = sample_lib, e_json = plain_json,
     e_cache = new_blocks_cache, e_sync = None, useLocalDatabase = False, allowStateBlocks = True,
     blocks_cache_block_verification = True, validate_methods = False, history_cache_enable = False\<rparr>"

definition sample_payment :: create_tx_base_handler where
  "sample_payment = (new_tx_handler True \<lparr>wallet_stotage = [], key_files = Map.empty, key_storage = Map.empty\<rparr>)
     \<lparr>m_to := ''0x'' @ bin2hex (replicate 25 3), m_value := 500, m_nonce := 8, t_data := ''hi'',
      m_keys := \<lparr>pub_key = ''ab'', prv_key = ''ab''\<rparr>\<rparr>"


end
