(* ===== verification/Task_Handlers.thy ===== *)
theory Task_Handlers
  imports Block_Handlers Address_Handlers Tx_Handlers
begin

text \<open>
  The table of \<^verbatim>\<open>src/src/task_handlers/task_handlers.cpp\<close>: which handler answers a method, with and
  without the local database, and what a call of an entry gives (whether the reply comes later, and the
  reply).
\<close>

datatype handler_class =
    generate_handler | create_tx_handler | create_tx_handler_v2 | send_tx_handler
  | get_count_blocks_handler | get_last_txs_handler | get_block_by_hash_handler | get_block_by_number_handler
  | get_blocks_handler | get_dump_block_by_number | get_dump_block_by_hash | get_tx_handler
  | fetch_balance_handler | fetch_balances_handler | fetch_history_handler | fetch_history_filter_handler
  | status_handler | fetch_transaction_handler | addr_validate_handler
  | fetch_balance_handler_sync | fetch_history_handler_sync | send_tx_handler_sync | get_count_blocks_handler_sync
  | get_block_by_hash_handler_sync | get_block_by_number_handler_sync | get_tx_handler_sync
  | get_dump_block_by_hash_handler_sync | get_dump_block_by_number_handler_sync

definition post_handlers :: "((string \<times> bool) \<times> handler_class) list" where
  "post_handlers =
    [((''generate'', False), generate_handler), ((''create-tx'', False), create_tx_handler),
     ((''create-tx2'', False), create_tx_handler_v2), ((''send-tx'', False), send_tx_handler),
     ((''get-count-blocks'', False), get_count_blocks_handler), ((''get-last-txs'', False), get_last_txs_handler),
     ((''get-block-by-hash'', False), get_block_by_hash_handler), ((''get-block-by-number'', False), get_block_by_number_handler),
     ((''get-blocks'', False), get_blocks_handler), ((''get-dump-block-by-number'', False), get_dump_block_by_number),
     ((''get-dump-block-by-hash'', False), get_dump_block_by_hash), ((''get-tx'', False), get_tx_handler),
     ((''fetch-balance'', False), fetch_balance_handler), ((''fetch-balances'', False), fetch_balances_handler),
     ((''fetch-history'', False), fetch_history_handler), ((''fetch-history-filter'', False), fetch_history_filter_handler),
     ((''status'', False), status_handler), ((''fetch-transaction'', False), fetch_transaction_handler),
     ((''validate'', False), addr_validate_handler),
     ((''generate'', True), generate_handler), ((''create-tx'', True), create_tx_handler),
     ((''create-tx2'', True), create_tx_handler_v2), ((''fetch-balance'', True), fetch_balance_handler_sync),
     ((''fetch-balances'', True), fetch_balances_handler), ((''fetch-history'', True), fetch_history_handler_sync),
     ((''send-tx'', True), send_tx_handler_sync), ((''get-count-blocks'', True), get_count_blocks_handler_sync),
     ((''get-last-txs'', True), get_last_txs_handler), ((''get-block-by-hash'', True), get_block_by_hash_handler_sync),
     ((''get-block-by-number'', True), get_block_by_number_handler_sync), ((''get-blocks'', True), get_blocks_handler),
     ((''get-tx'', True), get_tx_handler_sync), ((''get-dump-block-by-hash'', True), get_dump_block_by_hash_handler_sync),
     ((''get-dump-block-by-number'', True), get_dump_block_by_number_handler_sync), ((''status'', True), status_handler),
     ((''fetch-transaction'', True), fetch_transaction_handler), ((''validate'', True), addr_validate_handler)]"

definition get_handlers :: "(string \<times> handler_class) list" where
  "get_handlers = [(''status'', status_handler)]"

record 'k service_env =
  s_env :: "'k handler_env"
  s_wallet :: wallet
  s_can_open :: "string \<Rightarrow> bool"
  s_status :: status_env
  s_print :: "json \<Rightarrow> string"
  s_history :: "string \<Rightarrow> string + json list"

definition perform_class :: "'k service_env \<Rightarrow> handler_class \<Rightarrow> string \<Rightarrow> bool \<times> json" where
  "perform_class S cls params =
     (let E = s_env S; new = base_handler True; tx = new_tx_handler True (s_wallet S); addr = new_addr_handler True;
          blk = new_get_block True; dmp = new_get_dump True
      in case cls of
        generate_handler \<Rightarrow> result (perform E (handler.extend new \<lparr>m_wallet = s_wallet S\<rparr>) require_id (generate_execute E (s_can_open S)) params)
      | create_tx_handler \<Rightarrow> result (perform E tx (create_tx_prepare E make_json False) create_tx_execute params)
      | create_tx_handler_v2 \<Rightarrow> result (perform E tx (create_tx_prepare E make_json_v2 True) create_tx_execute params)
      | send_tx_handler \<Rightarrow> result (perform E tx (send_tx_prepare E) network_execute params)
      | get_count_blocks_handler \<Rightarrow> result (perform E new require_id (get_count_blocks_execute E) params)
      | get_last_txs_handler \<Rightarrow> result (perform E new require_id network_execute params)
      | get_block_by_hash_handler \<Rightarrow> result (perform E blk (get_block_prepare E (block_hash_param E)) (get_block_execute E) params)
      | get_block_by_number_handler \<Rightarrow> result (perform E blk (get_block_prepare E (block_number_param E)) (get_block_execute E) params)
      | get_blocks_handler \<Rightarrow> result (perform E new get_blocks_prepare network_execute params)
      | get_dump_block_by_number \<Rightarrow> result (perform E dmp (get_dump_prepare E (dump_number_param E)) (get_dump_execute E) params)
      | get_dump_block_by_hash \<Rightarrow> result (perform E dmp (get_dump_prepare E (dump_hash_param E)) (get_dump_execute E) params)
      | get_tx_handler \<Rightarrow> result (perform E (new_get_tx True) (get_tx_prepare E) (get_tx_execute E) params)
      | fetch_balance_handler \<Rightarrow> result (perform E addr (fetch_balance_prepare E) (fetch_balance_execute E) params)
      | fetch_balances_handler \<Rightarrow> result (perform E (new_fetch_balances True) (fetch_balances_prepare E) (fetch_balances_execute E) params)
      | fetch_history_handler \<Rightarrow> result (perform E addr (fetch_history_prepare E) (fetch_history_execute E) params)
      | fetch_history_filter_handler \<Rightarrow> result (perform E addr (fetch_history_filter_prepare E) network_execute params)
      | status_handler \<Rightarrow> result (perform E (new_status True) status_prepare (status_execute E (s_print S) (s_status S)) params)
      | fetch_transaction_handler \<Rightarrow> result (perform E addr (fetch_transaction_prepare E) (fetch_transaction_execute (s_history S)) params)
      | addr_validate_handler \<Rightarrow> result (perform E addr addr_validate_prepare (addr_validate_execute E) params)
      | fetch_balance_handler_sync \<Rightarrow> result (perform E addr fetch_balance_sync_prepare (fetch_balance_sync_execute E) params)
      | fetch_history_handler_sync \<Rightarrow> result (perform E addr fetch_history_sync_prepare (fetch_history_sync_execute E) params)
      | send_tx_handler_sync \<Rightarrow> result (perform E tx (send_tx_sync_prepare E) network_execute params)
      | get_count_blocks_handler_sync \<Rightarrow> result (perform E new require_id (get_count_blocks_sync E) params)
      | get_block_by_hash_handler_sync \<Rightarrow> result (perform E blk get_block_by_hash_sync_prepare (get_block_sync_execute E) params)
      | get_block_by_number_handler_sync \<Rightarrow> result (perform E blk get_block_by_number_sync_prepare (get_block_sync_execute E) params)
      | get_tx_handler_sync \<Rightarrow> result (perform E (new_get_tx True) get_tx_sync_prepare (get_tx_sync_execute E) params)
      | get_dump_block_by_hash_handler_sync \<Rightarrow> result (perform E dmp get_dump_by_hash_sync_prepare (get_dump_sync_execute E) params)
      | get_dump_block_by_number_handler_sync \<Rightarrow> result (perform E dmp get_dump_by_number_sync_prepare (get_dump_sync_execute E) params))"

section \<open>Replies\<close>

text \<open>A new handler has an open writer.\<close>

lemma new_handlers:
  "m_writer (base_handler c) = json_rpc_writer" "\<not> m_async (base_handler c)" "m_context (base_handler c) = c"
  "m_writer (handler.extend (base_handler c) x) = json_rpc_writer" "\<not> m_async (handler.extend (base_handler c) x)"
  "m_context (handler.extend (base_handler c) x) = c"
  by (simp_all add: base_handler_def handler.extend_def)

lemma new_tx_handler_simps:
  "m_writer (new_tx_handler c w) = json_rpc_writer" "\<not> m_async (new_tx_handler c w)" "m_context (new_tx_handler c w) = c"
  by (simp_all add: new_tx_handler_def wallet_handler.extend_def handler.extend_def base_handler_def)

definition request_id :: "'k service_env \<Rightarrow> string \<Rightarrow> u32" where
  "request_id S params = (case e_Parse (s_env S) params of
     Some doc \<Rightarrow> (case get_id doc of Inr i \<Rightarrow> i | Inl _ \<Rightarrow> 0) | None \<Rightarrow> 0)"

lemma result_answered: "answered i h \<Longrightarrow> fst (result h) \<or> reply_ok i (snd (result h))"
  by (simp add: answered_def result_def)

lemmas handler_answers =
  generate_h.perform_answers create_tx_v2_h.perform_answers send_tx_h.perform_answers count_h.perform_answers
  last_txs_h.perform_answers block_by_hash_h.perform_answers block_by_number_h.perform_answers blocks_h.perform_answers
  dump_by_number_h.perform_answers dump_by_hash_h.perform_answers tx_h.perform_answers balance_h.perform_answers
  balances_h.perform_answers history_h.perform_answers history_filter_h.perform_answers status_h.perform_answers
  transaction_h.perform_answers validate_h.perform_answers balance_sync_h.perform_answers history_sync_h.perform_answers
  send_tx_sync_h.perform_answers count_sync_h.perform_answers block_by_hash_sync_h.perform_answers
  block_by_number_sync_h.perform_answers tx_sync_h.perform_answers dump_by_hash_sync_h.perform_answers
  dump_by_number_sync_h.perform_answers

lemma class_answers:
  assumes "cls \<noteq> create_tx_handler"
  shows "fst (perform_class S cls params) \<or> reply_ok (request_id S params) (snd (perform_class S cls params))"
  using assms
  by (cases cls)
    (simp_all add: perform_class_def Let_def result_answered handler_answers request_id_def new_handlers new_tx_handler_simps
      new_addr_handler_def new_get_block_def new_get_dump_def new_get_tx_def new_fetch_balances_def new_status_def)

section \<open>Properties\<close>


definition sample_service :: "byte list service_env" where
  "sample_service = \<lparr>s_env = sample_handler_env [''q'' \<mapsto> sample_request ''address'' (JString ''0x'')] Map.empty,
     s_wallet = \<lparr>wallet_stotage = [], key_files = Map.empty, key_storage = Map.empty\<rparr>, s_can_open = (\<lambda>_. True),
     s_status = \<lparr>git_hash = [], git_date = [], torName = [], proxyName = [], tor = [], proxy = [], jrpc_timeout = 0,
       jrpc_conn_timeout = 0, jrpc_attempts_count = 0, pool_enable = False, conn_pool_ttl = 0, conn_pool_capacity = 0,
       pool_ready = 0, pool_busy = 0, blocks_cache_ver = 2, blocks_cache_force = False, blocks_cache_init_count = 0,
       blocks_cache_recv_count = 0, blocks_cache_recv_data_size = 0, keep_alive = False, auth_enable = False,
       validate_request = False, count_answer_text = [], wallet_files = None\<rparr>,
     s_print = (\<lambda>_. []), s_history = (\<lambda>_. Inr [])\<rparr>"


text \<open>A request that was forwarded is answered too: whatever text the node returns, the reply has the
  identifier of the request and exactly one of a result and an error, as long as the member names of the
  node's document contain no NUL character and its protocol version is 2.0.\<close>

lemma forwarded_replies:
  assumes "\<And>doc. e_Parse E res = Some doc \<Longrightarrow> node_document doc"
  shows "(envelope i (m_writer h) \<longrightarrow> reply_ok i (m_writer (on_complete E network_process_response res (h :: handler)))) \<and>
    (envelope i (m_writer b) \<longrightarrow> reply_ok i (m_writer (on_complete E (get_block_process_response E) res b))) \<and>
    (envelope i (m_writer t) \<longrightarrow> reply_ok i (m_writer (on_complete E send_tx_process_response res t))) \<and>
    (envelope i (m_writer t) \<longrightarrow> reply_ok i (m_writer (on_complete E send_tx_sync_process_response res t)))"
  using count_h.on_complete_replies [OF _ assms, of i h] block_by_hash_h.on_complete_replies [OF _ assms, of i b]
    send_tx_response.on_complete_replies [OF _ assms, of i t] send_tx_sync_response.on_complete_replies [OF _ assms, of i t]
  by blast

lemma forwarded_replies_witness:
  "reply_ok 0 (m_writer (on_complete (sample_handler_env [''r'' \<mapsto> JObject [(''result'', JInt 3), (''note'', JNull)]] Map.empty)
     network_process_response ''r'' (base_handler True)))"
proof -
  let ?E = "sample_handler_env [''r'' \<mapsto> JObject [(''result'', JInt 3), (''note'', JNull)]] Map.empty"
  have "envelope 0 (m_writer (base_handler True))" using envelope_of(1) [OF open_new_writer(2)] by (simp add: new_handlers)
  then show ?thesis
    using forwarded_replies [of ?E "''r''" 0 "base_handler True" "new_get_block True" "new_tx_handler True undefined"]
    by (auto simp: node_document_def)
qed

end
