(* ===== verification/Forwarding.thy ===== *)
theory Forwarding
  imports Request_Pool Task_Handlers
begin

text \<open>
  A request a handler forwards to a node: the handler's \<^verbatim>\<open>execute\<close> starts a request, whose callback gives the
  result to \<^verbatim>\<open>on_complete\<close> (\<^verbatim>\<open>src/src/task_handlers/network_handler.cpp\<close>).  The results a request reports are
  documents \<^verbatim>\<open>on_complete\<close> can answer.
\<close>

lemma node_document_with_value:
  assumes "node_document doc" and "CHR 0x00 \<notin> set name" and "name \<noteq> ''jsonrpc''"
  shows "node_document (with_value name def f doc)"
proof -
  have "(\<forall>(k, v)\<in>set ms. CHR 0x00 \<notin> set k \<and> (k = ''jsonrpc'' \<longrightarrow> v = JString ''2.0'')) \<Longrightarrow>
      (\<forall>(k, v)\<in>set (upd_member name def f ms). CHR 0x00 \<notin> set k \<and> (k = ''jsonrpc'' \<longrightarrow> v = JString ''2.0''))" for ms
    using assms(2,3) by (induction name def f ms rule: upd_member.induct) auto
  then show ?thesis using assms(1) by (simp add: node_document_def with_value_def)
qed

lemma node_document_simps [simp]:
  "node_document doc \<Longrightarrow> node_document (set_error c msg doc)"
  "node_document doc \<Longrightarrow> node_document (add_error_data n v doc)"
  "node_document doc \<Longrightarrow> node_document (set_id i doc)"
  "node_document (writer_reset doc)" "node_document json_rpc_writer" "node_document JNull"
  by (simp_all add: set_error_def add_error_data_def set_id_def node_document_with_value json_rpc_writer_def writer_reset_def Let_def)
    (simp_all add: node_document_def with_value_def)

text \<open>What the node sends in an event.\<close>

definition node_answer :: "(string \<Rightarrow> json option) \<Rightarrow> response \<Rightarrow> bool" where
  "node_answer Parse res \<longleftrightarrow> (\<forall>doc. Parse (response_body res) = Some doc \<longrightarrow> node_document doc)"

definition node_answers :: "(string \<Rightarrow> json option) \<Rightarrow> http_event list \<Rightarrow> bool" where
  "node_answers Parse es \<longleftrightarrow> (\<forall>e res. On_read e res \<in> set es \<longrightarrow> node_answer Parse res)"

definition plain :: "http_request \<Rightarrow> bool" where
  "plain r \<longleftrightarrow> node_document (m_result r) \<and> (\<forall>j\<in>set (m_calls r). node_document j)"

lemma read_result_document: "node_answer Parse res \<Longrightarrow> node_document (read_result Parse res)"
  by (auto simp: read_result_def writer_parse_def node_answer_def split: option.splits)

lemma plain_fields [simp]:
  "plain (r\<lparr>m_pending := p\<rparr>) = plain r" "plain (r\<lparr>m_timer := t\<rparr>) = plain r" "plain (r\<lparr>m_rerun := b\<rparr>) = plain r"
  "plain (r\<lparr>m_canceled := b\<rparr>) = plain r" "plain (r\<lparr>m_socket := s\<rparr>) = plain r" "plain (r\<lparr>m_ssl_socket := s\<rparr>) = plain r"
  "plain (r\<lparr>m_pool_obj := c\<rparr>) = plain r" "plain (set_handle h r) = plain r" "plain (stop_ctx r) = plain r"
  by (simp_all add: plain_def set_handle_def stop_ctx_def)

lemma plain_callback: "node_document j \<Longrightarrow> plain r \<Longrightarrow> plain (stop_ctx (perform_callback (r\<lparr>m_result := j\<rparr>)))"
  by (auto simp: plain_def perform_callback_def stop_ctx_def)

lemma plain_close: "plain r \<Longrightarrow> close net force (P, r) = (P', r') \<Longrightarrow> plain r'"
  by (rule close_frame [of net force P r]) auto

lemma plain_execute: "plain r \<Longrightarrow> execute net cb (P, r) = (P', r') \<Longrightarrow> plain r'"
  by (auto simp: plain_def execute_def Let_def start_resolve_def use_pooled_def split: if_splits option.splits prod.splits)

lemma plain_fail:
  assumes "plain r" and "fail net e from (P, r) = (P', r')"
  shows "plain r'"
proof -
  let ?r = "r\<lparr>m_rerun := False, m_canceled := True, m_timer := None\<rparr>"
  obtain Q r1 where cl: "close net True (P, ?r) = (Q, r1)" by (rule prod.exhaust)
  then have "plain r1" using plain_close [of ?r net True P Q r1] assms(1) by simp
  moreover from this have "node_document (m_result r1)" by (simp add: plain_def)
  ultimately show ?thesis using assms(2) cl plain_execute [of r1 net "m_callback r1" Q P' r']
    by (auto simp: fail_def Let_def intro!: plain_callback split: if_splits)
qed

lemma plain_error_handler: "plain r \<Longrightarrow> error_handler net e from (P, r) = (b, P', r') \<Longrightarrow> plain r'"
  by (auto simp: error_handler_def plain_fail split: if_splits)

lemma plain_timeout:
  assumes "plain r" and "on_timeout net type (P, r) = (P', r')"
  shows "plain r'"
proof -
  obtain Q r1 where cl: "close net True (P, r\<lparr>m_timer := None, m_canceled := True\<rparr>) = (Q, r1)" by (rule prod.exhaust)
  then have "plain r1" using plain_close [of "r\<lparr>m_timer := None, m_canceled := True\<rparr>" net True P Q r1] assms(1) by simp
  moreover from this have "node_document (m_result r1)" by (simp add: plain_def)
  ultimately show ?thesis using assms cl by (auto simp: on_timeout_def Let_def intro!: plain_callback split: if_splits)
qed

lemma plain_read:
  assumes "plain r" and "node_answer Parse res" and "on_read Parse net e res (P, r) = (P', r')"
  shows "plain r'"
proof -
  obtain b P1 r1 where eh: "error_handler net e ''on_read'' (P, r\<lparr>m_timer := None\<rparr>) = (b, P1, r1)" by (rule prod_cases3)
  with assms(1) have r1: "plain r1" using plain_error_handler [of "r\<lparr>m_timer := None\<rparr>"] by simp
  obtain Q r2 where cl: "close net (\<not> keep_alive_of res) (P1, r1) = (Q, r2)" by (rule prod.exhaust)
  with r1 have "plain r2" by (rule plain_close)
  from plain_callback [OF read_result_document [OF assms(2)] this] r1 eh cl assms(3) show ?thesis
    by (cases b) (auto simp: on_read_def)
qed

lemma step_plain:
  assumes "request_step Parse r ev r'" and "plain r" and "node_answers Parse [ev]"
  shows "plain r'"
  using assms
proof (induction rule: request_step.induct)
  case (event ev r net P P' r')
  show ?case
  proof (cases ev)
    case (On_read e res)
    then have "node_answer Parse res" using event(4) by (auto simp: node_answers_def)
    with On_read event show ?thesis using plain_read [of "r\<lparr>m_pending := None\<rparr>" Parse res net e P P' r'] by (simp add: request_event_def)
  next
    case On_timeout
    with event show ?thesis using plain_timeout [of r] by (simp add: request_event_def)
  qed (use event in \<open>auto simp: request_event_def on_resolve_def on_connect_def on_handshake_def on_write_def
      dest!: plain_error_handler [rotated] split: prod.splits bool.splits\<close>)
qed

lemma run_plain: "run (request_step Parse) r es r' \<Longrightarrow> node_answers Parse es \<Longrightarrow> plain r \<Longrightarrow> plain r'"
proof (induction rule: run.induct)
  case (run_snoc s es t e u)
  then show ?case using step_plain [OF run_snoc.hyps(2)] by (simp add: node_answers_def)
qed simp

lemma prepared_plain: "plain (set_body Parse body (set_path p (http_json_rpc_request h own t ct ac jt jct jac)))"
  by (auto simp: plain_def set_body_def set_path_def http_json_rpc_request_def set_host_def Let_def split: option.splits sum.splits)

section \<open>Properties\<close>

text \<open>C10: a request that is forwarded is answered once and well.  When nothing of the request is outstanding any
  more, its callback was called once, and the reply the handler makes of the result carries the identifier of
  the client's request and exactly one of a result and an error, whatever failed on the way and whatever the node
  sent, as long as its documents have no NUL in a member name and the protocol version 2.0.\<close>

theorem forwarded_request_answered:
  assumes "json_text_laws (e_Parse E) Print" and "node_answers (e_Parse E) es" and "envelope i (m_writer (b :: handler))"
    and "execute net True (P, set_body (e_Parse E) body (set_path p (http_json_rpc_request h own t ct ac jt jct jac))) = (P', r0)"
    and "run (request_step (e_Parse E)) r0 es r" and "m_pending r = None"
  shows "\<exists>j. m_calls r = [j] \<and> reply_ok i (m_writer (on_complete E network_process_response (Print j) b))"
proof -
  note start = started_inv [OF assms(4) prepared_fields(1-4) [OF refl]]
  from request.run_keeps [OF assms(5) start(1)] assms(6) obtain j where j: "m_calls r = [j]"
    by (auto simp: request_inv_def called_once_def length_Suc_conv split: if_splits)
  have "plain r" using run_plain [OF assms(5,2)] plain_execute [OF prepared_plain assms(4)] by blast
  with j have "node_document j" by (simp add: plain_def)
  with assms(1) have "e_Parse E (Print j) = Some doc \<Longrightarrow> node_document doc" for doc by (auto simp: json_text_laws_def)
  then show ?thesis using j count_h.on_complete_replies [OF assms(3)] by blast
qed

definition sample_node_env :: "byte list handler_env" where
  "sample_node_env = (sample_handler_env Map.empty Map.empty)\<lparr>e_Parse := sample_Parse\<rparr>"

definition sample_node_events :: "http_event list" where
  "sample_node_events = [On_resolve None 8, On_connect None 8, On_write None,
     On_read None (sample_response\<lparr>response_body := sample_Print (JObject [(''result'', JInt 3)])\<rparr>)]"

lemma sample_parse_print: "sample_Parse (sample_Print j) = Some j"
  using sample_text_laws by (simp add: json_text_laws_def)

definition sample_node_request :: http_request where
  "sample_node_request = set_body sample_Parse (sample_Print JNull) (set_path None (http_json_rpc_request ''h'' False 0 0 2 9 9 1))"

lemma sample_node_request_eq: "sample_node_request = sample_http_request\<lparr>m_body := sample_Print JNull, m_result := set_id 0 json_rpc_writer\<rparr>"
proof -
  have "get_id JNull = Inr 0" by (simp add: get_id_def reader_get_def)
  then show ?thesis by (simp add: sample_node_request_def sample_http_request_def set_body_def sample_parse_print sample_parse_def set_path_def
      http_json_rpc_request_def set_host_def Let_def)
qed

lemma sample_forward:
  "\<exists>P' r0 Q r. execute sample_net True (new_pool 1, sample_node_request) = (P', r0) \<and>
     play sample_Parse sample_net sample_node_events (P', r0) = Some (Q, r) \<and> m_pending r = None \<and> m_calls r = [JObject [(''result'', JInt 3)]]"
  by (simp add: sample_node_request_eq sample_play_simps sample_node_events_def sample_parse_print)

theorem forwarded_request_answered_witness:
  "\<exists>P' r0 r. execute sample_net True (new_pool 1, sample_node_request) = (P', r0) \<and>
     run (request_step sample_Parse) r0 sample_node_events r \<and> m_calls r = [JObject [(''result'', JInt 3)]] \<and>
     reply_ok 0 (m_writer (on_complete sample_node_env network_process_response (sample_Print (JObject [(''result'', JInt 3)])) (base_handler True)))"
proof -
  obtain P' r0 Q r where ex: "execute sample_net True (new_pool 1, sample_node_request) = (P', r0)"
    and "play sample_Parse sample_net sample_node_events (P', r0) = Some (Q, r)" and ended: "m_pending r = None"
    and calls: "m_calls r = [JObject [(''result'', JInt 3)]]"
    using sample_forward by blast
  then have rn: "run (request_step sample_Parse) r0 sample_node_events r" by (blast intro: play_run)
  have parse: "e_Parse sample_node_env = sample_Parse" by (simp add: sample_node_env_def)
  have "node_answers sample_Parse sample_node_events"
    by (auto simp: node_answers_def node_answer_def sample_node_events_def sample_parse_print node_document_def)
  moreover have "envelope 0 (m_writer (base_handler True))" using envelope_of(1) [OF open_new_writer(2)] by (simp add: new_handlers)
  ultimately show ?thesis
    using forwarded_request_answered [where E = sample_node_env, unfolded parse, OF sample_text_laws _ _ ex [unfolded sample_node_request_def] rn ended]
      ex rn calls by auto
qed

end
