(* ===== verification/Json_Batch.thy ===== *)
theory Json_Batch
  imports Task_Handlers
begin

text \<open>
  Batches of requests, \<^verbatim>\<open>src/src/json_batch_request.{h,cpp}\<close>.  A batch is the context its handlers answer to:
  it collects their replies and passes one array to the session.  \<^verbatim>\<open>process\<close> holds \<^verbatim>\<open>m_lock\<close> to its end, so the
  replies that come later are taken after it, one at a time and in any order.  \<open>b_sent\<close> is what was passed to
  the session and \<open>b_waiting\<close> how many handlers will still answer.
\<close>

record batch =
  b_size :: u32
  b_result :: "json list"
  b_sent :: "string list"
  b_waiting :: nat

definition new_batch :: batch where
  "new_batch = \<lparr>b_size = 0, b_result = [], b_sent = [], b_waiting = 0\<rparr>"

definition push_result :: "json \<Rightarrow> batch \<Rightarrow> batch" where
  "push_result doc b = b\<lparr>b_result := b_result b @ [doc]\<rparr>"

definition batch_send_response :: "(json \<Rightarrow> string) \<Rightarrow> batch \<Rightarrow> batch" where
  "batch_send_response Print b = b\<lparr>b_sent := b_sent b @ [Print (JArray (b_result b))]\<rparr>"

definition complete :: "(json \<Rightarrow> string) \<Rightarrow> batch \<Rightarrow> batch" where
  "complete Print b = (if b_size b = of_nat (length (b_result b)) then batch_send_response Print b else b)"

definition batch_send_json :: "(string \<Rightarrow> json option) \<Rightarrow> (json \<Rightarrow> string) \<Rightarrow> string \<Rightarrow> batch \<Rightarrow> batch" where
  "batch_send_json Parse Print data b =
     (let doc = (case writer_parse Parse data of
            (True, doc) \<Rightarrow> doc
          | (False, doc) \<Rightarrow> set_error (-32603) ''Could not parse json response'' (set_id 0 (writer_reset doc)))
      in complete Print (push_result doc (b\<lparr>b_waiting := b_waiting b - 1\<rparr>)))"

text \<open>One turn of the loop of \<^verbatim>\<open>process\<close>: the writer it reuses and the batch; \<^term>\<open>False\<close> when reading the
  identifier throws, which ends \<^verbatim>\<open>process\<close>.\<close>

definition batch_item :: "'k service_env \<Rightarrow> json \<Rightarrow> json \<times> batch \<Rightarrow> bool \<times> json \<times> batch" where
  "batch_item S v = (\<lambda>(writer, b).
     let txt = s_print S v;
         tmp = snd (reader_parse (e_Parse (s_env S)) txt);
         push = (\<lambda>w. (True, w, push_result w b))
     in if \<not> IsObject tmp then push (set_error (-32600) ''Invalid request'' (set_id 0 (writer_reset writer)))
        else case get_value_view tmp ''method'' of
          None \<Rightarrow> push (set_error (-32600) ''JSON method is not provided'' (set_id 0 (writer_reset writer)))
        | Some meth \<Rightarrow>
            if \<not> has_id tmp then (True, writer, b\<lparr>b_size := b_size b - 1\<rparr>)
            else (case map_of post_handlers (c_str meth, useLocalDatabase (s_env S)) of
                None \<Rightarrow>
                  (case get_id tmp of
                     Inl _ \<Rightarrow> (False, writer_reset writer, b)
                   | Inr i \<Rightarrow> push (set_error (-32601) (c_str (''Method '' @ quoted meth @ '' does not exist''))
                                    (set_id i (writer_reset writer))))
              | Some cls \<Rightarrow>
                  (case perform_class S cls (c_str txt) of
                     (True, _) \<Rightarrow> (True, writer, b\<lparr>b_waiting := Suc (b_waiting b)\<rparr>)
                   | (False, reply) \<Rightarrow> push (snd (writer_parse (e_Parse (s_env S)) (s_print S reply))))))"

text \<open>The service may change between two items (a key that was stored, a block that was cached): item \<open>i\<close> finds
  the service \<open>Ss i\<close>.\<close>

fun batch_loop :: "(nat \<Rightarrow> 'k service_env) \<Rightarrow> nat \<Rightarrow> json list \<Rightarrow> json \<times> batch \<Rightarrow> bool \<times> json \<times> batch" where
  "batch_loop Ss i [] st = (True, st)"
| "batch_loop Ss i (v # vs) st =
     (case batch_item (Ss i) v st of (True, st) \<Rightarrow> batch_loop Ss (Suc i) vs st | (False, st) \<Rightarrow> (False, st))"

definition process :: "(json \<Rightarrow> string) \<Rightarrow> (nat \<Rightarrow> 'k service_env) \<Rightarrow> json list \<Rightarrow> batch \<Rightarrow> batch" where
  "process Print Ss items b =
     (let b = b\<lparr>b_size := of_nat (length items)\<rparr>
      in if b_size b = 0
         then b\<lparr>b_sent := b_sent b @ [Print (set_error (-32600) ''Invalid batch request'' (set_id 0 json_rpc_writer))]\<rparr>
         else (case batch_loop Ss 0 items (json_rpc_writer, b\<lparr>b_result := []\<rparr>) of
             (True, _, b) \<Rightarrow> complete Print b
           | (False, _, b) \<Rightarrow> b))"

section \<open>Counting the replies\<close>

text \<open>What an item is: a notification has a method and no identifier; the identifier of an unknown method has
  to be readable.\<close>

definition item_doc :: "'k service_env \<Rightarrow> json \<Rightarrow> json" where
  "item_doc S v = snd (reader_parse (e_Parse (s_env S)) (s_print S v))"

definition notification :: "json \<Rightarrow> bool" where
  "notification doc \<longleftrightarrow> IsObject doc \<and> get_value_view doc ''method'' \<noteq> None \<and> \<not> has_id doc"

definition readable :: "json \<Rightarrow> bool" where
  "readable doc \<longleftrightarrow> (\<exists>i. get_id doc = Inr i)"

lemma batch_item_outcome:
  assumes "batch_item S v (w, b) = (ok, w', b')"
  shows "\<not> ok \<and> b' = b \<and> \<not> readable (item_doc S v) \<or>
    ok \<and> notification (item_doc S v) \<and> b' = b\<lparr>b_size := b_size b - 1\<rparr> \<or>
    ok \<and> \<not> notification (item_doc S v) \<and> (b' = b\<lparr>b_waiting := Suc (b_waiting b)\<rparr> \<or> (\<exists>doc. b' = push_result doc b))"
  using assms unfolding batch_item_def Let_def item_doc_def [symmetric]
  by (auto simp: notification_def readable_def split: if_splits option.splits sum.splits prod.splits bool.splits)

lemma batch_item_cases:
  assumes "batch_item S v (w, b) = (ok, w', b')"
  obtains (thrown) "\<not> ok" "b' = b" "\<not> readable (item_doc S v)"
  | (skipped) "ok" "notification (item_doc S v)" "b' = b\<lparr>b_size := b_size b - 1\<rparr>"
  | (later) "ok" "\<not> notification (item_doc S v)" "b' = b\<lparr>b_waiting := Suc (b_waiting b)\<rparr>"
  | (now) doc where "ok" "\<not> notification (item_doc S v)" "b' = push_result doc b"
  using batch_item_outcome [OF assms] by blast

text \<open>The replies expected, those that are there and those to come agree during the loop.\<close>

definition balanced :: "nat \<Rightarrow> batch \<Rightarrow> bool" where
  "balanced rest b \<longleftrightarrow> b_sent b = [] \<and> b_size b = of_nat (length (b_result b) + b_waiting b + rest)"

lemma item_balanced:
  assumes "batch_item S v (w, b) = (True, w', b')" and "balanced (Suc rest) b"
  shows "balanced rest b' \<and> length (b_result b') + b_waiting b' =
    length (b_result b) + b_waiting b + (if notification (item_doc S v) then 0 else 1)"
  using assms(1)
proof (cases rule: batch_item_cases)
  case (now doc)
  then show ?thesis using assms(2) by (simp add: balanced_def push_result_def)
qed (use assms(2) in \<open>simp_all add: balanced_def\<close>)

fun answerable :: "(nat \<Rightarrow> 'k service_env) \<Rightarrow> nat \<Rightarrow> json list \<Rightarrow> nat" where
  "answerable Ss i [] = 0"
| "answerable Ss i (v # vs) = (if notification (item_doc (Ss i) v) then 0 else 1) + answerable Ss (Suc i) vs"

lemma loop_balanced:
  assumes "\<forall>k < length vs. readable (item_doc (Ss (i + k)) (vs ! k))" and "balanced (length vs) b"
  shows "\<exists>w' b'. batch_loop Ss i vs (w, b) = (True, w', b') \<and> balanced 0 b' \<and>
    length (b_result b') + b_waiting b' = length (b_result b) + b_waiting b + answerable Ss i vs"
  using assms
proof (induction vs arbitrary: i w b)
  case (Cons v vs)
  obtain ok w1 b1 where item: "batch_item (Ss i) v (w, b) = (ok, w1, b1)" by (rule prod_cases3)
  have "readable (item_doc (Ss i) v)" using Cons.prems(1) by force
  with item have ok: "ok" by (auto elim: batch_item_cases)
  have "\<forall>k < length vs. readable (item_doc (Ss (Suc i + k)) (vs ! k))" using Cons.prems(1) by force
  moreover from item_balanced [of "Ss i" v w b w1 b1 "length vs"] item ok Cons.prems(2) have "balanced (length vs) b1"
    and count: "length (b_result b1) + b_waiting b1 = length (b_result b) + b_waiting b + (if notification (item_doc (Ss i) v) then 0 else 1)"
    by simp_all
  ultimately obtain w' b' where "batch_loop Ss (Suc i) vs (w1, b1) = (True, w', b')" "balanced 0 b'"
    "length (b_result b') + b_waiting b' = length (b_result b1) + b_waiting b1 + answerable Ss (Suc i) vs"
    using Cons.IH by blast
  then show ?case using item ok count by simp
qed simp

section \<open>One response\<close>

text \<open>A batch of \<open>n\<close> replies that waits for \<open>k\<close> of them.\<close>

definition collecting :: "(json \<Rightarrow> string) \<Rightarrow> nat \<Rightarrow> nat \<Rightarrow> batch \<Rightarrow> bool" where
  "collecting Print n k b \<longleftrightarrow> b_size b = of_nat n \<and> length (b_result b) + k = n \<and> b_waiting b = k \<and>
     b_sent b = (if k = 0 then [Print (JArray (b_result b))] else [])"

lemma of_nat_u32_eq: "m < 2 ^ 32 \<Longrightarrow> n < 2 ^ 32 \<Longrightarrow> (of_nat m :: u32) = of_nat n \<longleftrightarrow> m = n"
  by (simp add: word_of_nat_eq_iff take_bit_nat_eq_self)

lemma complete_collecting:
  assumes "b_size b = of_nat n" and "length (b_result b) + k = n" and "b_waiting b = k" and "b_sent b = []" and "n < 2 ^ 32"
  shows "collecting Print n k (complete Print b)"
proof -
  have "(of_nat n :: u32) = of_nat (length (b_result b)) \<longleftrightarrow> k = 0"
    using of_nat_u32_eq [of n "length (b_result b)"] assms(2,5) by linarith
  then show ?thesis using assms by (auto simp: collecting_def complete_def batch_send_response_def)
qed

lemma send_collecting:
  assumes "collecting Print n (Suc k) b" and "n < 2 ^ 32"
  shows "collecting Print n k (batch_send_json Parse Print data b)"
  unfolding batch_send_json_def Let_def
  by (rule complete_collecting) (use assms in \<open>simp_all add: collecting_def push_result_def\<close>)

lemma sends_collecting:
  "collecting Print n k b \<Longrightarrow> n < 2 ^ 32 \<Longrightarrow> length replies \<le> k \<Longrightarrow>
    collecting Print n (k - length replies) (fold (batch_send_json Parse Print) replies b)"
proof (induction replies arbitrary: k b)
  case (Cons r rs)
  then obtain k' where "k = Suc k'" by (cases k) auto
  with Cons show ?case using send_collecting [of Print n k' b Parse r] by simp
qed simp

lemma answerable_le: "answerable Ss i vs \<le> length vs"
  by (induction vs arbitrary: i) (auto intro: le_SucI)

lemma process_collecting:
  assumes "items \<noteq> []" and "length items < 2 ^ 32" and "\<forall>k < length items. readable (item_doc (Ss k) (items ! k))"
  shows "\<exists>k. collecting Print (answerable Ss 0 items) k (process Print Ss items new_batch)"
proof -
  let ?b = "new_batch\<lparr>b_size := of_nat (length items), b_result := []\<rparr>"
  have size: "(of_nat (length items) :: u32) \<noteq> 0"
    using of_nat_u32_eq [of "length items" 0] assms(1,2) by simp
  have "balanced (length items) ?b" by (simp add: balanced_def new_batch_def)
  with loop_balanced [of items Ss 0 ?b json_rpc_writer] assms(3)
  obtain w b where loop: "batch_loop Ss 0 items (json_rpc_writer, ?b) = (True, w, b)" and bal: "balanced 0 b"
    and count: "length (b_result b) + b_waiting b = answerable Ss 0 items" by (auto simp: new_batch_def)
  have "collecting Print (answerable Ss 0 items) (b_waiting b) (complete Print b)"
    using bal count answerable_le [of Ss 0 items] assms(2) by (intro complete_collecting) (auto simp: balanced_def)
  then show ?thesis using loop size by (auto simp: process_def Let_def)
qed

section \<open>Properties\<close>


text \<open>A request of an unknown method whose identifier is text that is no number ends the batch: the requests
  before and after it get no answer.\<close>

lemma unreadable_id_drops_batch:
  assumes "IsObject (item_doc (Ss 0) v)" and "get_value_view (item_doc (Ss 0) v) ''method'' = Some meth" and "has_id (item_doc (Ss 0) v)"
    and "map_of post_handlers (c_str meth, useLocalDatabase (s_env (Ss 0))) = None" and "\<not> readable (item_doc (Ss 0) v)"
    and "length (v # vs) < 2 ^ 32"
  shows "b_sent (process Print Ss (v # vs) new_batch) = []"
proof -
  have "\<exists>e. get_id (item_doc (Ss 0) v) = Inl e" using assms(5) by (cases "get_id (item_doc (Ss 0) v)") (auto simp: readable_def)
  then have "\<exists>w'. batch_item (Ss 0) v (w, b) = (False, w', b)" for w b
    using assms(1-4) unfolding batch_item_def Let_def item_doc_def [symmetric] by auto
  then obtain w' where "batch_item (Ss 0) v (json_rpc_writer, new_batch\<lparr>b_size := of_nat (length (v # vs)), b_result := []\<rparr>) =
      (False, w', new_batch\<lparr>b_size := of_nat (length (v # vs)), b_result := []\<rparr>)" by blast
  then show ?thesis using of_nat_u32_eq [of "length (v # vs)" 0] assms(6) by (simp add: process_def Let_def del: of_nat_Suc) (simp add: new_batch_def)
qed

definition sample_batch_service :: "byte list service_env" where
  "sample_batch_service = sample_service\<lparr>s_env := (s_env sample_service)\<lparr>e_Parse := sample_Parse\<rparr>, s_print := sample_Print\<rparr>"

definition sample_batch :: "json list" where
  "sample_batch = [JInt 1, JObject [(''method'', JString ''x'')], JObject [(''method'', JString ''x''), (''id'', JInt 7)]]"

lemma sample_batch_doc: "item_doc sample_batch_service v = v"
  using sample_text_laws by (simp add: item_doc_def sample_batch_service_def reader_parse_def json_text_laws_def)


end
