(* ===== verification/Settings.thy ===== *)
theory Settings
  imports Convert_Strings
begin

text \<open>
  The settings of \<^verbatim>\<open>src/src/settings/settings.{h,cpp}\<close>: the static members as one record, and \<^verbatim>\<open>read\<close>, which
  fills it from the configuration file.  The property tree Boost builds from the file and the name resolver
  are arguments: a lookup gives nothing where the path is missing or its value is not of the type.
\<close>

record settings =
  service_any_conns :: bool
  service_port :: u16
  service_threads :: int
  service_access :: "string list"
  service_keep_alive :: bool
  service_auth_enable :: bool
  service_auth_key :: string
  server_torName :: string
  server_proxyName :: string
  server_tor :: string
  server_proxy :: string
  system_wallet_stotage :: string
  system_jrpc_conn_timeout :: u32
  system_jrpc_timeout :: u32
  system_jrpc_attempts_count :: u32
  system_leveldbFolder :: string
  system_blocksFolder :: string
  system_validateBlocks :: bool
  system_allowStateBlocks :: bool
  system_useLocalDatabase :: bool
  system_conn_pool_enable :: bool
  system_conn_pool_ttl :: u32
  system_conn_pool_capacity :: u32
  system_blocks_cache_ver :: u32
  system_blocks_cache_enable :: bool
  system_blocks_cache_force :: bool
  system_blocks_cache_init_count :: u32
  system_blocks_cache_recv_data_size :: u32
  system_blocks_cache_recv_count :: u32
  system_blocks_cache_block_verification :: bool
  system_cores :: "string list"
  system_history_cache_enable :: bool
  system_history_cache_addrs :: "string list"
  system_validate_request :: bool
  system_validate_methods :: bool
  statistic_values :: "string list"

definition initial_settings :: settings where
  "initial_settings = \<lparr>
     service_any_conns = False, service_port = 9999, service_threads = 4, service_access = [], service_keep_alive = False,
     service_auth_enable = False, service_auth_key = [],
     server_torName = [], server_proxyName = [], server_tor = [], server_proxy = [],
     system_wallet_stotage = ''./wallet'', system_jrpc_conn_timeout = 1000, system_jrpc_timeout = 60000,
     system_jrpc_attempts_count = 2, system_leveldbFolder = ''leveldb/'', system_blocksFolder = ''blocks/'',
     system_validateBlocks = False, system_allowStateBlocks = False, system_useLocalDatabase = True,
     system_conn_pool_enable = False, system_conn_pool_ttl = 60, system_conn_pool_capacity = 100,
     system_blocks_cache_ver = 1, system_blocks_cache_enable = False, system_blocks_cache_force = True,
     system_blocks_cache_init_count = 50000, system_blocks_cache_recv_data_size = 5, system_blocks_cache_recv_count = 100,
     system_blocks_cache_block_verification = True, system_cores = [], system_history_cache_enable = False,
     system_history_cache_addrs = [], system_validate_request = True, system_validate_methods = True,
     statistic_values = []\<rparr>"

record ptree =
  get_text :: "string \<Rightarrow> string option"
  get_bool :: "string \<Rightarrow> bool option"
  get_short :: "string \<Rightarrow> u16 option"
  get_signed :: "string \<Rightarrow> int option"
  get_unsigned :: "string \<Rightarrow> u32 option"
  get_child :: "string \<Rightarrow> string list option"
  has_section :: "string \<Rightarrow> bool"

definition or_else :: "'a option \<Rightarrow> 'a \<Rightarrow> 'a" where
  "or_else v d = (case v of Some x \<Rightarrow> x | None \<Rightarrow> d)"

text \<open>\<^verbatim>\<open>get\<close> without a default throws; the path is the message.\<close>

definition required :: "'a option \<Rightarrow> string \<Rightarrow> string + 'a" where
  "required v path = (case v of Some x \<Rightarrow> Inr x | None \<Rightarrow> Inl path)"

definition read_service :: "ptree \<Rightarrow> (string \<Rightarrow> string list option) \<Rightarrow> settings \<Rightarrow> settings" where
  "read_service tree resolve s =
     (let s = s\<lparr>service_port := or_else (get_short tree ''service.port'') 9999,
                service_threads := or_else (get_signed tree ''service.threads'') 4,
                service_keep_alive := or_else (get_bool tree ''service.keep_alive'') False,
                service_auth_enable := or_else (get_bool tree ''service.auth_enable'') False,
                service_auth_key := or_else (get_text tree ''service.auth_key'') []\<rparr>;
          s = (if service_auth_key s = [] then s\<lparr>service_auth_enable := False\<rparr> else s)
      in s\<lparr>service_access := service_access s @
           concat (map (\<lambda>v. or_else (resolve v) []) (or_else (get_child tree ''service.access'') []))\<rparr>)"

definition read_folders :: "ptree \<Rightarrow> settings \<Rightarrow> string + settings" where
  "read_folders tree s =
     bindE (required (get_text tree ''system.leveldb_folder'') ''system.leveldb_folder'') (\<lambda>leveldb.
     bindE (required (get_text tree ''system.blocks_folder'') ''system.blocks_folder'') (\<lambda>blocks.
     bindE (required (get_bool tree ''system.validate_blocks'') ''system.validate_blocks'') (\<lambda>valid.
     bindE (required (get_bool tree ''system.use_local_database'') ''system.use_local_database'') (\<lambda>local.
     Inr (s\<lparr>system_leveldbFolder := leveldb, system_blocksFolder := blocks, system_validateBlocks := valid,
            system_useLocalDatabase := local\<rparr>)))))"

definition read_history :: "ptree \<Rightarrow> settings \<Rightarrow> settings" where
  "read_history tree s =
     (let s = s\<lparr>system_history_cache_enable := or_else (get_bool tree ''system.history_cache_enable'') False,
                system_history_cache_addrs := system_history_cache_addrs s @
                  map to_lower (or_else (get_child tree ''system.history_cache_addresses'') [])\<rparr>
      in if system_history_cache_addrs s = [] then s\<lparr>system_history_cache_enable := False\<rparr> else s)"

definition read_caches :: "ptree \<Rightarrow> settings \<Rightarrow> settings" where
  "read_caches tree s =
     s\<lparr>system_conn_pool_enable := or_else (get_bool tree ''system.conn_pool_enable'') False,
       system_conn_pool_ttl := or_else (get_unsigned tree ''system.conn_pool_ttl'') 60,
       system_conn_pool_capacity := or_else (get_unsigned tree ''system.conn_pool_capacity'') 100,
       system_blocks_cache_ver := or_else (get_unsigned tree ''system.blocks_cache_ver'') 2,
       system_blocks_cache_enable := or_else (get_bool tree ''system.blocks_cache_enable'') False,
       system_blocks_cache_force := or_else (get_bool tree ''system.blocks_cache_force'') True,
       system_blocks_cache_init_count := or_else (get_unsigned tree ''system.blocks_cache_init_count'') 50000,
       system_blocks_cache_recv_data_size := or_else (get_unsigned tree ''system.blocks_cache_recv_data_size'') 5,
       system_blocks_cache_recv_count := or_else (get_unsigned tree ''system.blocks_cache_recv_count'') 100,
       system_blocks_cache_block_verification := or_else (get_bool tree ''system.blocks_cache_block_verification'') True,
       system_cores := system_cores s @ map to_lower (or_else (get_child tree ''system.cores'') [])\<rparr>"

definition read_statistic :: "ptree \<Rightarrow> settings \<Rightarrow> string + settings" where
  "read_statistic tree s =
     (if \<not> has_section tree ''statistic'' then Inr s
      else
        bindE (required (get_text tree ''statistic.network'') ''statistic.network'') (\<lambda>network.
        bindE (required (get_text tree ''statistic.group'') ''statistic.group'') (\<lambda>group.
        bindE (required (get_text tree ''statistic.server'') ''statistic.server'') (\<lambda>server.
        bindE (required (get_text tree ''statistic.latency_file'') ''statistic.latency_file'') (\<lambda>latency.
        Inr (s\<lparr>statistic_values := [network, group, server, latency]\<rparr>))))))"

text \<open>\<^verbatim>\<open>read\<close>: \<open>read_json\<close> is the file parser, the default path is in the working directory.\<close>

definition read_settings ::
  "(string \<Rightarrow> string + ptree) \<Rightarrow> (string \<Rightarrow> string list option) \<Rightarrow> string \<Rightarrow> settings \<Rightarrow> string + settings" where
  "read_settings read_json resolve pathToConfig s =
     bindE (read_json (if pathToConfig = [] then ''./settings.json'' else pathToConfig)) (\<lambda>tree.
       let s = read_service tree resolve s;
           s = s\<lparr>server_torName := or_else (get_text tree ''server.tor'') ''127.0.0.1'',
                 server_proxyName := or_else (get_text tree ''server.proxy'') ''127.0.0.1'',
                 system_wallet_stotage := or_else (get_text tree ''system.wallets-storage'') ''./wallet'',
                 system_jrpc_conn_timeout := or_else (get_unsigned tree ''system.jrpc_conn_timeout'') 1000,
                 system_jrpc_timeout := or_else (get_unsigned tree ''system.jrpc_timeout'') 60000,
                 system_jrpc_attempts_count := or_else (get_unsigned tree ''system.jrpc_attempts_count'') 2\<rparr>
       in bindE (read_folders tree s) (\<lambda>s.
         let s = read_history tree (read_caches tree
               (s\<lparr>system_allowStateBlocks := or_else (get_bool tree ''system.allow_state_blocks'') False\<rparr>));
             s = s\<lparr>system_validate_request := or_else (get_bool tree ''system.validate_request'') True,
                   system_validate_methods := or_else (get_bool tree ''system.validate_methods'') True\<rparr>
         in read_statistic tree s))"

text \<open>\<^verbatim>\<open>getConfigPath\<close>: the options of the command line.\<close>

definition getConfigPath :: "bool \<Rightarrow> string option \<Rightarrow> settings \<Rightarrow> string \<times> settings" where
  "getConfigPath any config s =
     (or_else config [], if any then s\<lparr>service_any_conns := True\<rparr> else s)"

section \<open>What a configuration guarantees\<close>

lemma to_lower_idem [simp]: "to_lower (to_lower s) = to_lower s"
  by (simp add: to_lower_def)

definition consistent :: "settings \<Rightarrow> bool" where
  "consistent s \<longleftrightarrow> (service_auth_enable s \<longrightarrow> service_auth_key s \<noteq> []) \<and>
     (system_history_cache_enable s \<longrightarrow> system_history_cache_addrs s \<noteq> []) \<and>
     (\<forall>a\<in>set (system_history_cache_addrs s) \<union> set (system_cores s). to_lower a = a)"

lemma required_Inr: "required v p = Inr x \<longleftrightarrow> v = Some x"
  by (cases v) (simp_all add: required_def)

lemma read_folders_Inr:
  "read_folders tree s = Inr s' \<Longrightarrow> \<exists>a b c d. s' = s\<lparr>system_leveldbFolder := a, system_blocksFolder := b, system_validateBlocks := c, system_useLocalDatabase := d\<rparr>"
  by (auto simp: read_folders_def bindE_Inr_conv)

lemma read_statistic_Inr: "read_statistic tree s = Inr s' \<Longrightarrow> \<exists>v. s' = s\<lparr>statistic_values := v\<rparr>"
  by (cases s) (auto simp: read_statistic_def bindE_Inr_conv split: if_splits)

lemma read_service_fields:
  "system_history_cache_addrs (read_service tree resolve s) = system_history_cache_addrs s"
  "system_cores (read_service tree resolve s) = system_cores s"
  "service_auth_enable (read_service tree resolve s) \<longrightarrow> service_auth_key (read_service tree resolve s) \<noteq> []"
  by (simp_all add: read_service_def Let_def)

lemma getConfigPath_fields:
  "system_history_cache_addrs (snd (getConfigPath any path initial_settings)) = []"
  "system_cores (snd (getConfigPath any path initial_settings)) = []"
  by (simp_all add: getConfigPath_def initial_settings_def)

lemma consistent_frame [simp]:
  "consistent (s\<lparr>statistic_values := v\<rparr>) = consistent s" "consistent (s\<lparr>system_validate_methods := b\<rparr>) = consistent s"
  "consistent (s\<lparr>system_validate_request := b\<rparr>) = consistent s" "consistent (s\<lparr>system_allowStateBlocks := b\<rparr>) = consistent s"
  by (simp_all add: consistent_def)

lemma read_history_consistent:
  "(service_auth_enable s \<longrightarrow> service_auth_key s \<noteq> []) \<Longrightarrow> \<forall>a\<in>set (system_history_cache_addrs s) \<union> set (system_cores s). to_lower a = a \<Longrightarrow>
    consistent (read_history tree s)"
  by (auto simp: read_history_def consistent_def Let_def)

section \<open>Properties\<close>

text \<open>Whatever the configuration file holds, settings that are read are consistent: authentication is on only
  with a key, the cache of histories only with addresses, and the addresses of the cores and of the histories
  are in lower case, as the code that compares them expects.  A missing folder, database or validation
  setting is an error.\<close>

lemma settings_consistent:
  assumes "read_settings read_json resolve config (snd (getConfigPath any path initial_settings)) = Inr s"
  shows "consistent s \<and> (\<exists>tree. read_json (if config = [] then ''./settings.json'' else config) = Inr tree \<and>
    get_text tree ''system.leveldb_folder'' = Some (system_leveldbFolder s) \<and> get_text tree ''system.blocks_folder'' = Some (system_blocksFolder s) \<and>
    get_bool tree ''system.use_local_database'' = Some (system_useLocalDatabase s))"
proof -
  let ?s0 = "snd (getConfigPath any path initial_settings)"
  from assms obtain tree s1 where tree: "read_json (if config = [] then ''./settings.json'' else config) = Inr tree"
    and s1: "read_folders tree ((read_service tree resolve ?s0)\<lparr>server_torName := or_else (get_text tree ''server.tor'') ''127.0.0.1'',
      server_proxyName := or_else (get_text tree ''server.proxy'') ''127.0.0.1'',
      system_wallet_stotage := or_else (get_text tree ''system.wallets-storage'') ''./wallet'',
      system_jrpc_conn_timeout := or_else (get_unsigned tree ''system.jrpc_conn_timeout'') 1000,
      system_jrpc_timeout := or_else (get_unsigned tree ''system.jrpc_timeout'') 60000,
      system_jrpc_attempts_count := or_else (get_unsigned tree ''system.jrpc_attempts_count'') 2\<rparr>) = Inr s1"
    and s: "read_statistic tree ((read_history tree (read_caches tree
      (s1\<lparr>system_allowStateBlocks := or_else (get_bool tree ''system.allow_state_blocks'') False\<rparr>)))
      \<lparr>system_validate_request := or_else (get_bool tree ''system.validate_request'') True,
       system_validate_methods := or_else (get_bool tree ''system.validate_methods'') True\<rparr>) = Inr s"
    by (auto simp: read_settings_def bindE_Inr_conv Let_def)
  have lower: "system_history_cache_addrs s1 = []" "system_cores s1 = []" "service_auth_enable s1 \<longrightarrow> service_auth_key s1 \<noteq> []"
    using read_folders_Inr [OF s1] by (auto simp: read_service_fields getConfigPath_fields)
  have folders: "get_text tree ''system.leveldb_folder'' = Some (system_leveldbFolder s1)"
    "get_text tree ''system.blocks_folder'' = Some (system_blocksFolder s1)"
    "get_bool tree ''system.use_local_database'' = Some (system_useLocalDatabase s1)"
    using s1 by (auto simp: read_folders_def bindE_Inr_conv required_Inr)
  let ?s2 = "read_caches tree (s1\<lparr>system_allowStateBlocks := or_else (get_bool tree ''system.allow_state_blocks'') False\<rparr>)"
  have "consistent (read_history tree ?s2)"
    using lower by (intro read_history_consistent) (auto simp: read_caches_def)
  moreover have "system_leveldbFolder (read_history tree ?s2) = system_leveldbFolder s1"
    "system_blocksFolder (read_history tree ?s2) = system_blocksFolder s1"
    "system_useLocalDatabase (read_history tree ?s2) = system_useLocalDatabase s1"
    by (simp_all add: read_history_def read_caches_def Let_def)
  ultimately show ?thesis using read_statistic_Inr [OF s] folders tree by auto
qed

definition sample_tree :: ptree where
  "sample_tree = \<lparr>get_text = [''system.leveldb_folder'' \<mapsto> ''l'', ''system.blocks_folder'' \<mapsto> ''b''],
     get_bool = [''service.auth_enable'' \<mapsto> True, ''system.validate_blocks'' \<mapsto> True, ''system.use_local_database'' \<mapsto> False,
       ''system.history_cache_enable'' \<mapsto> True],
     get_short = Map.empty, get_signed = Map.empty, get_unsigned = Map.empty,
     get_child = [''system.history_cache_addresses'' \<mapsto> [''0xAB'']], has_section = (\<lambda>_. False)\<rparr>"

lemma sample_settings:
  "\<exists>s. read_settings (\<lambda>_. Inr sample_tree) (\<lambda>_. None) [] (snd (getConfigPath False None initial_settings)) = Inr s \<and>
     system_history_cache_addrs s = [to_lower ''0xAB''] \<and> \<not> service_auth_enable s \<and> system_history_cache_enable s"
  by (simp add: read_settings_def sample_tree_def read_service_def read_folders_def read_caches_def read_history_def read_statistic_def
      getConfigPath_def initial_settings_def or_else_def required_def Let_def)

lemma settings_consistent_witness:
  "\<exists>s. read_settings (\<lambda>_. Inr sample_tree) (\<lambda>_. None) [] (snd (getConfigPath False None initial_settings)) = Inr s \<and>
     consistent s \<and> system_leveldbFolder s = ''l'' \<and> system_history_cache_enable s"
proof -
  obtain s where "read_settings (\<lambda>_. Inr sample_tree) (\<lambda>_. None) [] (snd (getConfigPath False None initial_settings)) = Inr s"
    and "system_history_cache_enable s" using sample_settings by blast
  with settings_consistent [OF this(1)] show ?thesis by (intro exI [of _ s]) (auto simp: sample_tree_def)
qed

end
