(* ===== verification/Security_Manager.thy ===== *)
theory Security_Manager
  imports Prelude
begin

text \<open>
  The manager of failed authentications, \<^verbatim>\<open>src/src/security_manager/security_manager.{h,cpp}\<close>: per address the
  number of failures and the time from which the next attempt is counted.  A time is what \<^verbatim>\<open>std::time\<close>
  gives, -1 where it fails.
\<close>

record addr_info =
  last_time :: int
  attempt :: u32

type_synonym 'a security_manager = "'a \<rightharpoonup> addr_info"

definition max_attempts :: u32 where
  "max_attempts = 4"

text \<open>The product is one of 32-bit unsigned numbers, the comparison one of 64-bit signed ones.\<close>

definition expired :: "int \<Rightarrow> addr_info \<Rightarrow> bool" where
  "expired time info \<longleftrightarrow> time - last_time info > uint ((attempt info - max_attempts) * 300)"

definition check :: "int \<Rightarrow> 'a \<Rightarrow> 'a security_manager \<Rightarrow> bool \<times> 'a security_manager" where
  "check cur_time addr m_info =
     (case m_info addr of
        None \<Rightarrow> (True, m_info)
      | Some info \<Rightarrow>
          if attempt info > max_attempts then
            (if cur_time = -1 then (True, m_info)
             else if \<not> expired cur_time info then (False, m_info)
             else (True, m_info(addr \<mapsto> info\<lparr>last_time := cur_time\<rparr>)))
          else (True, m_info))"

definition mark_failed :: "int \<Rightarrow> 'a \<Rightarrow> 'a security_manager \<Rightarrow> 'a security_manager" where
  "mark_failed cur_time addr m_info =
     (case m_info addr of
        Some info \<Rightarrow> m_info(addr \<mapsto> info\<lparr>attempt := attempt info + 1\<rparr>)
      | None \<Rightarrow> m_info(addr \<mapsto> \<lparr>last_time = cur_time, attempt = 1\<rparr>))"

definition try_reset :: "'a \<Rightarrow> 'a security_manager \<Rightarrow> 'a security_manager" where
  "try_reset addr m_info = m_info(addr := None)"

section \<open>How long an address is locked out\<close>

lemma lockout_time:
  assumes "4 \<le> n" and "300 * n < 2 ^ 32" and "attempt info = of_nat n"
  shows "uint ((attempt info - max_attempts) * 300) = 300 * (int n - 4)"
proof -
  have "(attempt info - max_attempts) * 300 = word_of_int (300 * (int n - 4))"
    using assms by (simp add: max_attempts_def algebra_simps)
  then show ?thesis using assms(1,2) by (simp add: uint_word_of_int take_bit_int_eq_self_iff del: of_int_mult of_int_diff)
qed

text \<open>The failures of an address so far and how late they can be: the time of the first failure, and after
  the fifth a wait that grows by five minutes with every further one.\<close>

definition failures :: "nat \<Rightarrow> int \<Rightarrow> 'a \<Rightarrow> 'a security_manager \<Rightarrow> bool" where
  "failures n start addr m \<longleftrightarrow>
     (if n = 0 then m addr = None
      else \<exists>info. m addr = Some info \<and> attempt info = of_nat n \<and> start + 150 * int (n - 5) * int (n - 4) \<le> last_time info)"

lemma check_failures:
  assumes "failures n start addr m" and "check t addr m = (ok, m')" and "300 * n < 2 ^ 32" and "0 \<le> t"
  shows "if ok then (n \<noteq> 0 \<longrightarrow> (\<exists>info. m' addr = Some info \<and> attempt info = of_nat n \<and>
      (if n \<le> 4 then start \<le> last_time info
       else last_time info = t \<and> start + 150 * int (n - 4) * int (n - 3) \<le> t))) \<and> (n = 0 \<longrightarrow> m' addr = None)
    else m' = m"
proof (cases "n = 0")
  case True
  then show ?thesis using assms by (simp add: failures_def check_def)
next
  case False
  then obtain info where info: "m addr = Some info" "attempt info = of_nat n"
    and last: "start + 150 * int (n - 5) * int (n - 4) \<le> last_time info" using assms(1) by (auto simp: failures_def)
  have gt: "attempt info > max_attempts \<longleftrightarrow> 4 < n"
    using info(2) assms(3) by (simp add: max_attempts_def word_less_nat_alt unat_of_nat take_bit_nat_eq_self_iff)
  show ?thesis
  proof (cases "4 < n")
    case True
    have "start + 150 * int (n - 4) * int (n - 3) \<le> t" if "expired t info"
    proof -
      have "300 * (int n - 4) < t - last_time info" using that lockout_time [of n info] True assms(3) info(2) by (simp add: expired_def)
      moreover have "150 * int (n - 4) * int (n - 3) = 150 * int (n - 5) * int (n - 4) + 300 * (int n - 4)"
        using True by (simp add: of_nat_diff algebra_simps)
      ultimately show ?thesis using last by linarith
    qed
    then show ?thesis using True False gt info assms(2,4) by (auto simp: check_def split: if_splits)
  next
    case small: False
    then show ?thesis using False gt info assms(2) last by (auto simp: check_def)
  qed
qed

end
