(* ===== verification/Http_Session.thy ===== *)
theory Http_Session
  imports Json_Batch Settings Security_Manager
begin

text \<open>
  A connection of a client, \<^verbatim>\<open>src/src/http_session.{h,cpp}\<close>: authentication, the choice of a handler for a request
  and the responses.  \<open>m_responses\<close> is what was written to the socket, \<open>m_outstanding\<close> the handlers and batches
  that will call \<^verbatim>\<open>send_json\<close> later.  The request parser and the socket are Boost's: a request is its parsed
  fields, a write succeeds while the socket is open.  The date header is left out.
\<close>

section \<open>Requests and responses\<close>

datatype http_verb = POST | GET | OTHER

record client_request =
  verb :: http_verb
  req_target :: string
  req_version :: nat
  req_connection :: "string option"
  req_keep_alive :: bool
  req_auth_key :: "string option"
  req_body :: string

record client_response =
  res_status :: nat
  res_content_type :: string
  res_connection :: "string option"
  res_body :: string

datatype outstanding = Single | Batch batch

record http_session =
  m_remote_address :: string
  m_http_ver :: nat
  m_http_keep_alive :: bool
  m_open :: bool
  m_reading :: bool
  m_responses :: "client_response list"
  m_outstanding :: "outstanding list"

text \<open>The service as a request finds it, the settings, the schema of requests, the time and the services the
  items of a batch find.\<close>

record 'k session_env =
  se_settings :: settings
  se_service :: "'k service_env"
  se_items :: "nat \<Rightarrow> 'k service_env"
  se_schema :: "(json \<Rightarrow> json option) option"
  se_now :: int

abbreviation se_Parse :: "'k session_env \<Rightarrow> string \<Rightarrow> json option" where
  "se_Parse E \<equiv> e_Parse (s_env (se_service E))"

abbreviation se_Print :: "'k session_env \<Rightarrow> json \<Rightarrow> string" where
  "se_Print E \<equiv> s_print (se_service E)"

definition new_session :: "string \<Rightarrow> http_session" where
  "new_session addr = \<lparr>m_remote_address = addr, m_http_ver = 11, m_http_keep_alive = False, m_open = True, m_reading = True,
     m_responses = [], m_outstanding = []\<rparr>"

section \<open>Responses\<close>

definition session_keep_alive :: "settings \<Rightarrow> http_session \<Rightarrow> bool" where
  "session_keep_alive cfg s = (if service_keep_alive cfg then m_http_keep_alive s else False)"

definition session_close :: "http_session \<Rightarrow> http_session" where
  "session_close s = s\<lparr>m_open := False\<rparr>"

definition connection_header :: "settings \<Rightarrow> http_session \<Rightarrow> string option" where
  "connection_header cfg s =
     (if service_keep_alive cfg then
        (if m_http_ver s = 10 then Some (if m_http_keep_alive s then ''Keep-Alive'' else ''close'')
         else if \<not> m_http_keep_alive s then Some ''close'' else None)
      else Some ''close'')"

definition session_send_response :: "settings \<Rightarrow> client_response \<Rightarrow> http_session \<Rightarrow> http_session" where
  "session_send_response cfg res s =
     (let res = res\<lparr>res_connection := connection_header cfg s\<rparr>;
          s = (if m_open s then s\<lparr>m_responses := m_responses s @ [res]\<rparr> else s)
      in if \<not> session_keep_alive cfg s then session_close s else s)"

definition send_bad_response :: "settings \<Rightarrow> nat \<Rightarrow> string \<Rightarrow> http_session \<Rightarrow> http_session" where
  "send_bad_response cfg code error =
     session_send_response cfg \<lparr>res_status = code, res_content_type = ''text/plain'', res_connection = None, res_body = error\<rparr>"

definition session_send_json :: "settings \<Rightarrow> string \<Rightarrow> http_session \<Rightarrow> http_session" where
  "session_send_json cfg data =
     session_send_response cfg \<lparr>res_status = 200, res_content_type = ''application/json'', res_connection = None, res_body = data\<rparr>"

definition check_auth :: "settings \<Rightarrow> client_request \<Rightarrow> bool" where
  "check_auth cfg req =
     (if \<not> service_auth_enable cfg then True
      else (case req_auth_key req of Some key \<Rightarrow> key = service_auth_key cfg | None \<Rightarrow> False))"

section \<open>Requests\<close>

text \<open>A call of a handler: its reply is sent now or later.\<close>

definition call_handler :: "'k session_env \<Rightarrow> handler_class \<Rightarrow> string \<Rightarrow> http_session \<Rightarrow> http_session" where
  "call_handler E cls txt s =
     (case perform_class (se_service E) cls txt of
        (False, reply) \<Rightarrow> session_send_json (se_settings E) (se_Print E reply) s
      | (True, _) \<Rightarrow> s\<lparr>m_outstanding := m_outstanding s @ [Single]\<rparr>)"

text \<open>Where reading the identifier throws, the exception is caught and nothing is sent.\<close>

definition send_error :: "'k session_env \<Rightarrow> json \<Rightarrow> (json \<Rightarrow> json) \<Rightarrow> http_session \<Rightarrow> http_session" where
  "send_error E doc err s =
     (case get_id doc of
        Inr i \<Rightarrow> session_send_json (se_settings E) (se_Print E (err (set_id i json_rpc_writer))) s
      | Inl _ \<Rightarrow> s)"

definition process_single_request :: "'k session_env \<Rightarrow> string \<Rightarrow> json \<Rightarrow> http_session \<Rightarrow> http_session" where
  "process_single_request E body doc s =
     (case get_value_view doc ''method'' of
        None \<Rightarrow> send_error E doc (set_error (-32600) ''Json method is not provided'') s
      | Some meth \<Rightarrow>
          if \<not> has_id doc then s
          else (case map_of post_handlers (c_str meth, useLocalDatabase (s_env (se_service E))) of
              None \<Rightarrow> send_error E doc (set_error (-32601) (c_str (''Method '' @ quoted meth @ '' does not exist''))) s
            | Some cls \<Rightarrow> call_handler E cls body s))"

definition process_batch_request :: "'k session_env \<Rightarrow> json list \<Rightarrow> http_session \<Rightarrow> http_session" where
  "process_batch_request E items s =
     (let b = process (se_Print E) (se_items E) items new_batch;
          s = fold (session_send_json (se_settings E)) (b_sent b) s
      in if b_waiting b = 0 then s else s\<lparr>m_outstanding := m_outstanding s @ [Batch b]\<rparr>)"

text \<open>The kinds of RapidJSON: null, false, true, object, array, string and number.\<close>

fun GetType :: "json \<Rightarrow> nat" where
  "GetType JNull = 0" | "GetType (JBool False) = 1" | "GetType (JBool True) = 2" | "GetType (JObject _) = 3"
| "GetType (JArray _) = 4" | "GetType (JString _) = 5" | "GetType (JInt _) = 6" | "GetType (JDouble _) = 6"

definition dispatch :: "'k session_env \<Rightarrow> string \<Rightarrow> json \<Rightarrow> http_session \<Rightarrow> http_session" where
  "dispatch E body doc s =
     (case doc of
        JObject _ \<Rightarrow> process_single_request E body doc s
      | JArray items \<Rightarrow> process_batch_request E items s
      | _ \<Rightarrow> send_error E doc (set_error (-32600) (''Unrecognized json type '' @ to_string (GetType doc))) s)"

definition process_post_request :: "'k session_env \<Rightarrow> client_request \<Rightarrow> http_session \<Rightarrow> http_session" where
  "process_post_request E req s =
     (if req_target req \<noteq> ''/'' then send_bad_response (se_settings E) 400 ''Incorrect Path'' s
      else case se_Parse E (req_body req) of
        None \<Rightarrow>
          session_send_json (se_settings E) (se_Print E (set_error (-32700)
            (c_str (parse_message (s_env (se_service E)) ''Parse json error '' '': '' (req_body req))) json_rpc_writer)) s
      | Some doc \<Rightarrow>
          (case (if system_validate_request (se_settings E) then
                   (case se_schema E of Some validate \<Rightarrow> validate doc | None \<Rightarrow> None) else None) of
             Some err \<Rightarrow>
               send_error E doc (\<lambda>w. set_error_data err (set_error (-32600) ''Common request json validation error'' w)) s
           | None \<Rightarrow> dispatch E (req_body req) doc s))"

definition process_get_request :: "'k session_env \<Rightarrow> client_request \<Rightarrow> http_session \<Rightarrow> http_session" where
  "process_get_request E req s =
     (if length (req_target req) < 2 then send_bad_response (se_settings E) 400 ''Incorrect Path'' s
      else
        (let (meth, params) = (case str_find ''?'' (req_target req) of
               Some i \<Rightarrow> (take i (req_target req), drop (i + 1) (req_target req))
             | None \<Rightarrow> (req_target req, []));
             meth = drop 1 meth
         in case map_of get_handlers meth of
              None \<Rightarrow> session_send_json (se_settings E) (se_Print E (set_error (-32601)
                         (c_str (''Method '' @ quoted meth @ '' does not exist'')) (set_id 1 json_rpc_writer))) s
            | Some cls \<Rightarrow>
                (let w = with_value ''method'' (JString []) (\<lambda>_. JString meth) (set_id 1 json_rpc_writer);
                     w = (if params \<noteq> [] then with_value ''params'' (JObject []) (to_json params) w else w)
                 in call_handler E cls (se_Print E w) s)))"

definition persistent :: "client_request \<Rightarrow> bool" where
  "persistent req =
     (if req_connection req = Some ''close'' then False
      else if req_version req = 11 then True else req_keep_alive req)"

definition process_request ::
  "'k session_env \<Rightarrow> client_request \<Rightarrow> string security_manager \<times> http_session \<Rightarrow> string security_manager \<times> http_session" where
  "process_request E req = (\<lambda>(sec, s).
     let cfg = se_settings E; s = s\<lparr>m_http_keep_alive := False\<rparr>
     in if \<not> check_auth cfg req
        then (mark_failed (se_now E) (m_remote_address s) sec, send_bad_response cfg 401 ''Access Denied'' s)
        else
          (let sec = (if service_auth_enable cfg then try_reset (m_remote_address s) sec else sec);
               s = s\<lparr>m_http_ver := req_version req, m_http_keep_alive := persistent req\<rparr>
           in (sec, case verb req of
                POST \<Rightarrow> process_post_request E req s
              | GET \<Rightarrow> process_get_request E req s
              | OTHER \<Rightarrow> send_bad_response cfg 400 ''Incorrect HTTP method'' s)))"

text \<open>\<^verbatim>\<open>run\<close>: a request that was read is processed, and the next one is read only where the connection is kept.\<close>

definition on_request ::
  "'k session_env \<Rightarrow> client_request \<Rightarrow> string security_manager \<times> http_session \<Rightarrow> string security_manager \<times> http_session" where
  "on_request E req = (\<lambda>(sec, s).
     let (sec, s) = process_request E req (sec, s)
     in (sec, s\<lparr>m_reading := session_keep_alive (se_settings E) s\<rparr>))"

text \<open>A handler that answers later: the \<open>k\<close>-th outstanding context is given a text.\<close>

definition on_reply :: "'k session_env \<Rightarrow> nat \<Rightarrow> string \<Rightarrow> http_session \<Rightarrow> http_session" where
  "on_reply E k txt s =
     (let front = take k (m_outstanding s); rest = drop (Suc k) (m_outstanding s)
      in case m_outstanding s ! k of
           Single \<Rightarrow> session_send_json (se_settings E) txt (s\<lparr>m_outstanding := front @ rest\<rparr>)
         | Batch b \<Rightarrow>
             (let b' = batch_send_json (se_Parse E) (se_Print E) txt b;
                  s = fold (session_send_json (se_settings E)) (drop (length (b_sent b)) (b_sent b')) s
              in s\<lparr>m_outstanding := front @ (if b_waiting b' = 0 then [] else [Batch b']) @ rest\<rparr>))"

section \<open>Every request is answered\<close>

text \<open>What gets no answer: a notification, and a document whose identifier cannot be read.\<close>

definition silent :: "'k session_env \<Rightarrow> client_request \<Rightarrow> bool" where
  "silent E req \<longleftrightarrow> verb req = POST \<and> req_target req = ''/'' \<and>
     (case se_Parse E (req_body req) of
        None \<Rightarrow> False
      | Some doc \<Rightarrow> notification doc \<or> \<not> readable doc \<or>
          (case doc of JArray items \<Rightarrow> \<exists>k < length items. \<not> readable (item_doc (se_items E k) (items ! k)) | _ \<Rightarrow> False))"

definition arrays_fit :: "'k session_env \<Rightarrow> client_request \<Rightarrow> bool" where
  "arrays_fit E req \<longleftrightarrow> (\<forall>items. se_Parse E (req_body req) = Some (JArray items) \<longrightarrow> length items < 2 ^ 32)"

text \<open>The responses written and the answers that will come.\<close>

definition answers :: "http_session \<Rightarrow> nat" where
  "answers s = length (m_responses s) + length (m_outstanding s)"

text \<open>A session that stays open, with batches that wait for a reply.\<close>

definition waiting_batch :: "batch \<Rightarrow> bool" where
  "waiting_batch b \<longleftrightarrow> (\<exists>n k. collecting (\<lambda>_. []) n (Suc k) b \<and> n < 2 ^ 32)"

definition live :: "settings \<Rightarrow> http_session \<Rightarrow> bool" where
  "live cfg s \<longleftrightarrow> m_open s \<and> session_keep_alive cfg s \<and> (\<forall>b. Batch b \<in> set (m_outstanding s) \<longrightarrow> waiting_batch b)"

text \<open>\<open>s'\<close> is \<open>s\<close> with one more answer.\<close>

definition gains :: "settings \<Rightarrow> http_session \<Rightarrow> http_session \<Rightarrow> bool" where
  "gains cfg s s' \<longleftrightarrow> (live cfg s \<longrightarrow> live cfg s' \<and> answers s' = Suc (answers s))"

lemma gains_send [simp]: "gains cfg s (session_send_json cfg data s)" "gains cfg s (send_bad_response cfg code err s)"
  by (simp_all add: gains_def live_def answers_def session_send_json_def send_bad_response_def session_send_response_def
      session_keep_alive_def Let_def)

lemma gains_error: "readable doc \<Longrightarrow> gains (se_settings E) s (send_error E doc err s)"
  by (auto simp: send_error_def readable_def)

lemma gains_later: "waiting_batch b \<Longrightarrow> gains cfg s (s\<lparr>m_outstanding := m_outstanding s @ [Batch b]\<rparr>)"
  "gains cfg s (s\<lparr>m_outstanding := m_outstanding s @ [Single]\<rparr>)"
  by (auto simp: gains_def live_def answers_def session_keep_alive_def)

lemma gains_call: "gains (se_settings E) s (call_handler E cls txt s)"
  by (auto simp: call_handler_def gains_later split: prod.splits bool.splits)

lemma gains_single:
  "readable doc \<Longrightarrow> \<not> notification doc \<Longrightarrow> IsObject doc \<Longrightarrow> gains (se_settings E) s (process_single_request E body doc s)"
  by (auto simp: process_single_request_def notification_def gains_error gains_call split: option.splits)

lemma collecting_waiting: "collecting Print n (Suc k) b \<Longrightarrow> n < 2 ^ 32 \<Longrightarrow> waiting_batch b"
  by (auto simp: waiting_batch_def collecting_def)

lemma empty_process: "process Print Ss [] new_batch = new_batch\<lparr>b_sent := [Print (set_error (-32600) ''Invalid batch request'' (set_id 0 json_rpc_writer))]\<rparr>"
  by (simp add: process_def new_batch_def)

lemma gains_batch:
  assumes "\<forall>k < length items. readable (item_doc (se_items E k) (items ! k))" and "length items < 2 ^ 32"
  shows "gains (se_settings E) s (process_batch_request E items s)"
proof (cases "items = []")
  case True
  then show ?thesis by (simp add: process_batch_request_def empty_process Let_def) (simp add: new_batch_def)
next
  case False
  obtain k where k: "collecting (se_Print E) (answerable (se_items E) 0 items) k (process (se_Print E) (se_items E) items new_batch)"
    using process_collecting [OF False assms(2,1)] by blast
  have n: "answerable (se_items E) 0 items < 2 ^ 32" using answerable_le [of "se_items E" 0 items] assms(2) by linarith
  show ?thesis
  proof (cases k)
    case 0
    then show ?thesis using k by (simp add: process_batch_request_def collecting_def Let_def)
  next
    case (Suc k')
    with k have "b_sent (process (se_Print E) (se_items E) items new_batch) = []" "b_waiting (process (se_Print E) (se_items E) items new_batch) \<noteq> 0"
      by (auto simp: collecting_def)
    with collecting_waiting [OF _ n] k Suc show ?thesis by (auto simp: process_batch_request_def Let_def gains_later)
  qed
qed

lemma gains_post:
  assumes "\<not> silent E req" and "arrays_fit E req" and "verb req = POST"
  shows "gains (se_settings E) s (process_post_request E req s)"
proof (cases "req_target req = ''/''")
  case True
  show ?thesis
  proof (cases "se_Parse E (req_body req)")
    case None
    with True show ?thesis by (simp add: process_post_request_def)
  next
    case (Some doc)
    with True assms have doc: "readable doc" "\<not> notification doc"
      and items: "\<And>items. doc = JArray items \<Longrightarrow> (\<forall>k < length items. readable (item_doc (se_items E k) (items ! k))) \<and> length items < 2 ^ 32"
      by (auto simp: silent_def arrays_fit_def)
    have "gains (se_settings E) s (dispatch E (req_body req) doc s)"
      using doc items by (cases doc) (auto simp: dispatch_def gains_error gains_batch intro!: gains_single)
    with Some True gains_error [OF doc(1), of E s] show ?thesis by (auto simp: process_post_request_def split: option.splits)
  qed
qed (simp add: process_post_request_def)

lemma gains_get: "gains (se_settings E) s (process_get_request E req s)"
  by (auto simp: process_get_request_def Let_def gains_call split: prod.splits option.splits)

lemma gains_request:
  assumes "process_request E req (sec, s) = (sec', s')" and "service_keep_alive (se_settings E)" and "persistent req"
    and "check_auth (se_settings E) req" and "\<not> silent E req" and "arrays_fit E req" and "live (se_settings E) s"
  shows "live (se_settings E) s' \<and> answers s' = Suc (answers s)"
proof -
  let ?s = "s\<lparr>m_http_keep_alive := False, m_http_ver := req_version req, m_http_keep_alive := persistent req\<rparr>"
  have "live (se_settings E) ?s" "answers ?s = answers s"
    using assms(2,3,7) by (simp_all add: live_def answers_def session_keep_alive_def)
  moreover have "gains (se_settings E) ?s s'"
    using assms(1,4-6) gains_post [of E req ?s] gains_get [of E ?s req]
    by (cases "verb req") (auto simp: process_request_def Let_def)
  ultimately show ?thesis by (simp add: gains_def)
qed

lemma outstanding_split: "k < length xs \<Longrightarrow> length (take k xs @ drop (Suc k) xs) + 1 = length xs"
  by simp

lemma set_without: "set (take k xs @ drop (Suc k) xs) \<subseteq> set xs"
  by (auto dest: in_set_takeD in_set_dropD)

lemma reply_keeps:
  assumes "live (se_settings E) s" and "k < length (m_outstanding s)"
  shows "live (se_settings E) (on_reply E k txt s) \<and> answers (on_reply E k txt s) = answers s"
proof -
  let ?out = "take k (m_outstanding s) @ drop (Suc k) (m_outstanding s)"
  let ?s = "s\<lparr>m_outstanding := ?out\<rparr>"
  have live: "live (se_settings E) ?s" and less: "Suc (answers ?s) = answers s"
    using assms set_without [of k "m_outstanding s"] outstanding_split [OF assms(2)]
    by (auto simp: live_def session_keep_alive_def answers_def split: if_splits)
  show ?thesis
  proof (cases "m_outstanding s ! k")
    case Single
    then show ?thesis using gains_send(1) [of "se_settings E" ?s "txt"] live less by (simp add: on_reply_def gains_def)
  next
    case (Batch b)
    have "waiting_batch b" using assms Batch nth_mem [OF assms(2)] by (simp add: live_def)
    then obtain n m where "collecting (\<lambda>_. []) n (Suc m) b" and n: "n < 2 ^ 32" by (auto simp: waiting_batch_def)
    then have b: "b_sent b = []" "collecting (se_Print E) n (Suc m) b" by (simp_all add: collecting_def)
    define b' where "b' = batch_send_json (se_Parse E) (se_Print E) txt b"
    have b': "collecting (se_Print E) n m b'" unfolding b'_def by (rule send_collecting [OF b(2) n])
    show ?thesis
    proof (cases m)
      case 0
      then have "b_sent b' = [se_Print E (JArray (b_result b'))]" "b_waiting b' = 0" using b' by (simp_all add: collecting_def)
      moreover have "(session_send_json (se_settings E) data s)\<lparr>m_outstanding := ?out\<rparr> = session_send_json (se_settings E) data ?s" for data
        by (simp add: session_send_json_def session_send_response_def connection_header_def session_keep_alive_def session_close_def Let_def)
      ultimately show ?thesis using Batch b(1) live less gains_send(1) [of "se_settings E" ?s "se_Print E (JArray (b_result b'))"]
        by (simp add: on_reply_def gains_def b'_def [symmetric] Let_def)
    next
      case (Suc m')
      then have "b_sent b' = []" "b_waiting b' \<noteq> 0" using b' by (auto simp: collecting_def)
      moreover have "waiting_batch b'" using collecting_waiting [OF _ n] b' Suc by blast
      ultimately show ?thesis using Batch b(1) live less assms
        by (auto simp: on_reply_def b'_def [symmetric] Let_def live_def session_keep_alive_def answers_def split: if_splits)
    qed
  qed
qed

section \<open>Sessions\<close>

datatype 'k session_event = Request "'k session_env" client_request | Reply "'k session_env" nat string

inductive session_step :: "settings \<Rightarrow> string security_manager \<times> http_session \<Rightarrow> 'k session_event \<Rightarrow>
    string security_manager \<times> http_session \<Rightarrow> bool" for cfg where
  request: "se_settings E = cfg \<Longrightarrow> m_open s \<Longrightarrow> m_reading s \<Longrightarrow> session_step cfg (sec, s) (Request E req) (on_request E req (sec, s))"
| reply: "se_settings E = cfg \<Longrightarrow> k < length (m_outstanding s) \<Longrightarrow> session_step cfg (sec, s) (Reply E k txt) (sec, on_reply E k txt s)"

text \<open>A request on a connection that is kept, with the right key, that asks for an answer.\<close>

definition asks :: "settings \<Rightarrow> 'k session_event \<Rightarrow> bool" where
  "asks cfg ev = (case ev of
     Request E req \<Rightarrow> persistent req \<and> check_auth cfg req \<and> \<not> silent E req \<and> arrays_fit E req
   | Reply _ _ _ \<Rightarrow> True)"

definition is_request :: "'k session_event \<Rightarrow> bool" where
  "is_request ev = (case ev of Request _ _ \<Rightarrow> True | Reply _ _ _ \<Rightarrow> False)"

text \<open>A session before its first request and later: the answers are those of the requests so far.\<close>

definition served :: "settings \<Rightarrow> nat \<Rightarrow> http_session \<Rightarrow> bool" where
  "served cfg n s \<longleftrightarrow> answers s = n \<and> m_open s \<and> m_reading s \<and> (\<forall>b. Batch b \<in> set (m_outstanding s) \<longrightarrow> waiting_batch b) \<and>
     (m_outstanding s \<noteq> [] \<longrightarrow> session_keep_alive cfg s)"

lemma live_m_reading [simp]: "live cfg (s\<lparr>m_reading := b\<rparr>) = live cfg s" "answers (s\<lparr>m_reading := b\<rparr>) = answers s"
  by (simp_all add: live_def answers_def session_keep_alive_def)

lemma session_step_served:
  assumes "session_step cfg (sec, s) ev (sec', s')" and "served cfg n s" and "service_keep_alive cfg" and "asks cfg ev"
  shows "served cfg (if is_request ev then Suc n else n) s'"
  using assms(1)
proof (cases rule: session_step.cases)
  case (request E req)
  let ?s = "s\<lparr>m_http_keep_alive := True\<rparr>"
  have "live (se_settings E) ?s" using assms(2,3) request by (simp add: served_def live_def session_keep_alive_def)
  moreover obtain sec1 s1 where p: "process_request E req (sec, s) = (sec1, s1)" by (rule prod.exhaust)
  moreover have "process_request E req (sec, ?s) = (sec1, s1)" using p by (simp add: process_request_def)
  ultimately have "live cfg s1 \<and> answers s1 = Suc (answers s)"
    using gains_request [of E req sec ?s sec1 s1] assms(3,4) request by (simp add: asks_def answers_def)
  then show ?thesis using p request assms(2,3) by (simp add: served_def on_request_def is_request_def live_def) (simp add: answers_def session_keep_alive_def)
next
  case (reply E k msg)
  then have "live (se_settings E) s" using assms(2) by (auto simp: served_def live_def)
  from reply_keeps [OF this, of k msg] reply have "live cfg s' \<and> answers s' = answers s" by simp
  moreover have "m_reading (on_reply E k msg s) = m_reading s"
  proof -
    have one: "m_reading (session_send_json c d s) = m_reading s" for c d s
      by (simp add: session_send_json_def session_send_response_def session_close_def Let_def)
    have "m_reading (fold (session_send_json c) ds s) = m_reading s" for c ds by (induction ds arbitrary: s) (simp_all add: one)
    then show ?thesis by (simp add: on_reply_def Let_def one split: outstanding.splits)
  qed
  ultimately show ?thesis using reply assms(2) by (simp add: served_def is_request_def live_def)
qed

lemma run_served:
  assumes "run (session_step cfg) S es S'" and "served cfg n (snd S)" and "service_keep_alive cfg" and "\<forall>ev\<in>set es. asks cfg ev"
  shows "served cfg (n + length (filter is_request es)) (snd S')"
  using assms
proof (induction rule: run.induct)
  case (run_snoc S es T ev U)
  then have "served cfg (n + length (filter is_request es)) (snd T)" by simp
  then show ?case using session_step_served [of cfg "fst T" "snd T" ev "fst U" "snd U"] run_snoc by fastforce
qed simp

section \<open>Properties\<close>


definition sample_cfg :: settings where
  "sample_cfg = initial_settings\<lparr>service_keep_alive := True, system_validate_request := False\<rparr>"

definition sample_session_env :: "byte list session_env" where
  "sample_session_env = \<lparr>se_settings = sample_cfg, se_service = sample_batch_service, se_items = (\<lambda>_. sample_batch_service),
     se_schema = None, se_now = 100\<rparr>"

definition sample_post :: "string \<Rightarrow> client_request" where
  "sample_post body = \<lparr>verb = POST, req_target = ''/'', req_version = 11, req_connection = None, req_keep_alive = True,
     req_auth_key = None, req_body = body\<rparr>"


end
