(* ===== verification/Http_Server.thy ===== *)
theory Http_Server
  imports Http_Session
begin

text \<open>
  Accepting connections, \<^verbatim>\<open>src/src/http_server.{h,cpp}\<close>: an address that failed to authenticate too often is
  turned away, and without \<^verbatim>\<open>--any\<close> only loopback and the configured addresses are let in.  The threads of the
  server and its shutdown are in \<open>Server_Run\<close>.
\<close>

definition check_access ::
  "settings \<Rightarrow> (string \<Rightarrow> bool) \<Rightarrow> int \<Rightarrow> string \<Rightarrow> string security_manager \<Rightarrow> bool \<times> string security_manager" where
  "check_access cfg is_loopback now addr sec =
     (let (ok, sec) = (if service_auth_enable cfg then check now addr sec else (True, sec))
      in if \<not> ok then (False, sec)
         else if service_any_conns cfg then (True, sec)
         else if is_loopback addr then (True, sec)
         else (addr \<in> set (service_access cfg), sec))"

text \<open>The callback of \<^verbatim>\<open>accept\<close>: the remote endpoint may be gone already.\<close>

definition on_accept ::
  "settings \<Rightarrow> (string \<Rightarrow> bool) \<Rightarrow> int \<Rightarrow> string option \<Rightarrow> string security_manager \<Rightarrow> http_session option \<times> string security_manager" where
  "on_accept cfg is_loopback now ep sec =
     (case ep of
        None \<Rightarrow> (None, sec)
      | Some addr \<Rightarrow>
          (case check_access cfg is_loopback now addr sec of
             (True, sec) \<Rightarrow> (Some (new_session addr), sec)
           | (False, sec) \<Rightarrow> (None, sec)))"

section \<open>Guessing the key\<close>

text \<open>Attempts of one client, one after the other: the time of the connection, and the request with the time
  it is processed.  The number of attempts that were let in.\<close>

type_synonym 'k login = "int \<times> 'k session_env \<times> client_request"

fun attack :: "settings \<Rightarrow> (string \<Rightarrow> bool) \<Rightarrow> string \<Rightarrow> 'k login list \<Rightarrow> string security_manager \<Rightarrow> nat \<times> string security_manager" where
  "attack cfg is_loopback addr [] sec = (0, sec)"
| "attack cfg is_loopback addr ((t, E, req) # ls) sec =
     (case on_accept cfg is_loopback t (Some addr) sec of
        (None, sec) \<Rightarrow> attack cfg is_loopback addr ls sec
      | (Some s, sec) \<Rightarrow>
          (let (n, sec) = attack cfg is_loopback addr ls (fst (on_request E req (sec, s))) in (Suc n, sec)))"

fun within :: "int \<Rightarrow> 'k login list \<Rightarrow> int \<Rightarrow> bool" where
  "within lo [] hi \<longleftrightarrow> lo \<le> hi"
| "within lo ((t, E, req) # ls) hi \<longleftrightarrow> lo \<le> t \<and> t \<le> se_now E \<and> within (se_now E) ls hi"

definition guess :: "settings \<Rightarrow> 'k login \<Rightarrow> bool" where
  "guess cfg = (\<lambda>(t, E, req). se_settings E = cfg \<and> \<not> check_auth cfg req)"

lemma refused_request:
  "\<not> check_auth (se_settings E) req \<Longrightarrow> fst (on_request E req (sec, s)) = mark_failed (se_now E) (m_remote_address s) sec"
  by (simp add: on_request_def process_request_def Let_def)

text \<open>A refused key is answered with one response that says so, no handler is called and the connection is
  closed.\<close>

lemma refused_response:
  "\<not> check_auth (se_settings E) req \<Longrightarrow> m_open s \<Longrightarrow> snd (on_request E req (sec, s)) =
    s\<lparr>m_http_keep_alive := False, m_open := False, m_reading := False,
      m_responses := m_responses s @ [\<lparr>res_status = 401, res_content_type = ''text/plain'',
        res_connection = Some ''close'', res_body = ''Access Denied''\<rparr>]\<rparr>"
  by (cases s) (simp add: on_request_def process_request_def Let_def send_bad_response_def session_send_response_def connection_header_def
      session_keep_alive_def session_close_def)

text \<open>The failures of the address after \<open>n\<close> attempts that were let in, none before \<open>lo\<close> and none after \<open>cur\<close>.\<close>

definition tried :: "int \<Rightarrow> nat \<Rightarrow> int \<Rightarrow> string \<Rightarrow> string security_manager \<Rightarrow> bool" where
  "tried lo n cur addr sec \<longleftrightarrow> (\<exists>start. lo \<le> start \<and> failures n start addr sec) \<and> (\<forall>info. sec addr = Some info \<longrightarrow> last_time info \<le> cur)"

lemma tried_later: "tried lo n cur addr sec \<Longrightarrow> cur \<le> cur' \<Longrightarrow> tried lo n cur' addr sec"
  by (force simp: tried_def)

lemma tried_step:
  assumes "tried lo n cur addr sec" and "check t addr sec = (ok, sec')" and "300 * n < 2 ^ 32" and "0 \<le> t" and "lo \<le> cur" and "cur \<le> t" and "t \<le> t'"
  shows "if ok then tried lo (Suc n) t' addr (mark_failed t' addr sec') else sec' = sec"
proof -
  obtain start where start: "lo \<le> start" "failures n start addr sec" using assms(1) by (auto simp: tried_def)
  note post = check_failures [OF start(2) assms(2-4)]
  show ?thesis
  proof (cases ok)
    case True
    show ?thesis
    proof (cases "n = 0")
      case zero: True
      then have "mark_failed t' addr sec' addr = Some \<lparr>last_time = t', attempt = 1\<rparr>" using post True by (simp add: mark_failed_def)
      then show ?thesis using True zero assms(5-7) by (force simp: tried_def failures_def)
    next
      case False
      with post True obtain info where info: "sec' addr = Some info" "attempt info = of_nat n"
        "if n \<le> 4 then start \<le> last_time info else last_time info = t \<and> start + 150 * int (n - 4) * int (n - 3) \<le> t" by auto
      have le: "last_time info \<le> t'"
      proof (cases "n \<le> 4")
        case True
        then have "sec' = sec" using assms(2) start(2) False assms(3)
          by (auto simp: check_def failures_def max_attempts_def word_less_nat_alt unat_of_nat take_bit_nat_eq_self_iff split: option.splits if_splits)
        then show ?thesis using info(1) assms(1,6,7) by (auto simp: tried_def)
      next
        case False
        then show ?thesis using info(3) assms(7) by simp
      qed
      have "failures (Suc n) start addr (mark_failed t' addr sec')"
      proof (cases "n \<le> 4")
        case True
        then show ?thesis using info by (auto simp: failures_def mark_failed_def)
      next
        case False
        then have "Suc n - 5 = n - 4" "Suc n - 4 = n - 3" by simp_all
        then show ?thesis using info False by (auto simp: failures_def mark_failed_def)
      qed
      then show ?thesis using True info(1) le start(1) by (auto simp: tried_def mark_failed_def)
    qed
  next
    case False
    then show ?thesis using post by simp
  qed
qed

text \<open>A connection that is turned away for another reason leaves the failures as they are.\<close>

lemma check_tried:
  assumes "tried lo n cur addr sec" and "check t addr sec = (ok, sec')" and "300 * n < 2 ^ 32" and "0 \<le> t" and "cur \<le> t"
  shows "tried lo n t addr sec'"
proof -
  obtain start where start: "lo \<le> start" "failures n start addr sec" using assms(1) by (auto simp: tried_def)
  have same: ?thesis if "sec' = sec" using that tried_later [OF assms(1,5)] by simp
  show ?thesis
  proof (cases "sec' = sec")
    case False
    then obtain info where info: "sec addr = Some info" "sec' = sec(addr \<mapsto> info\<lparr>last_time := t\<rparr>)"
      using assms(2) by (auto simp: check_def split: option.splits if_splits)
    then have "last_time info \<le> t" using assms(1,5) by (auto simp: tried_def)
    with start info show ?thesis by (auto simp: tried_def failures_def split: if_splits)
  qed (rule same)
qed

lemma attack_tried:
  assumes "attack cfg is_loopback addr ls sec = (k, sec')" and "within cur ls hi" and "tried lo n cur addr sec" and "\<forall>l\<in>set ls. guess cfg l"
    and "300 * (n + length ls) < 2 ^ 32" and "0 \<le> cur" and "lo \<le> cur" and "service_auth_enable cfg"
  shows "tried lo (n + k) hi addr sec' \<and> k \<le> length ls"
  using assms
proof (induction ls arbitrary: k sec cur n)
  case Nil
  then show ?case using tried_later by simp
next
  case (Cons l ls)
  obtain t E req where l: "l = (t, E, req)" by (rule prod_cases3)
  obtain ok sec1 where ch: "check t addr sec = (ok, sec1)" by (rule prod.exhaust)
  have step: "if ok then tried lo (Suc n) (se_now E) addr (mark_failed (se_now E) addr sec1) else sec1 = sec"
    using tried_step [OF Cons.prems(3) ch, of "se_now E"] Cons.prems l by simp
  note IH = Cons.IH [OF _ _ _ _ _ _ _ Cons.prems(8)]
  have acc: "on_accept cfg is_loopback t (Some addr) sec =
      (if ok \<and> (service_any_conns cfg \<or> is_loopback addr \<or> addr \<in> set (service_access cfg)) then Some (new_session addr) else None, sec1)"
    using ch Cons.prems(8) by (auto simp: on_accept_def check_access_def)
  have now: "lo \<le> t" "0 \<le> t" "t \<le> se_now E" "within (se_now E) ls hi" "cur \<le> t" using Cons.prems(2,6,7) l by auto
  have small: "300 * n < 2 ^ 32" using Cons.prems(5) by simp
  show ?case
  proof (cases "ok \<and> (service_any_conns cfg \<or> is_loopback addr \<or> addr \<in> set (service_access cfg))")
    case True
    have "\<not> check_auth (se_settings E) req" using Cons.prems(4) l by (simp add: guess_def)
    then have "fst (on_request E req (sec1, new_session addr)) = mark_failed (se_now E) addr sec1"
      by (simp add: refused_request) (simp add: new_session_def)
    with Cons.prems(1) l acc True obtain k' where k': "k = Suc k'" "attack cfg is_loopback addr ls (mark_failed (se_now E) addr sec1) = (k', sec')"
      by (auto split: prod.splits)
    show ?thesis using IH [OF k'(2) now(4), of "Suc n"] step True Cons.prems(4,5) now k'(1) by simp
  next
    case False
    then have "attack cfg is_loopback addr ls sec1 = (k, sec')" using Cons.prems(1) l acc by auto
    moreover have "tried lo n (se_now E) addr sec1"
      using tried_later [OF check_tried [OF Cons.prems(3) ch small now(2,5)] now(3)] .
    ultimately show ?thesis using IH [of sec1 k "se_now E" n] Cons.prems(4,5) now by simp
  qed
qed

section \<open>Properties\<close>


definition sample_auth :: settings where
  "sample_auth = initial_settings\<lparr>service_any_conns := True, service_auth_enable := True, service_auth_key := ''k''\<rparr>"

definition sample_login :: "int \<Rightarrow> byte list login" where
  "sample_login t = (t, sample_session_env\<lparr>se_settings := sample_auth, se_now := t\<rparr>, sample_post [])"

lemma sample_guess: "guess sample_auth (sample_login t)"
  by (simp add: guess_def sample_login_def check_auth_def sample_auth_def sample_post_def)

lemma sample_attack_step:
  "attack sample_auth is_loopback a (sample_login t # ls) sec =
    (case check t a sec of
       (True, sec') \<Rightarrow> (let (n, sec'') = attack sample_auth is_loopback a ls (mark_failed t a sec') in (Suc n, sec''))
     | (False, sec') \<Rightarrow> attack sample_auth is_loopback a ls sec')"
proof -
  let ?E = "sample_session_env\<lparr>se_settings := sample_auth, se_now := t\<rparr>"
  have "\<not> check_auth (se_settings ?E) (sample_post [])" by (simp add: check_auth_def sample_auth_def sample_post_def)
  from refused_request [OF this] have "fst (on_request ?E (sample_post []) (sec, new_session a)) = mark_failed t a sec" for sec
    by (simp add: new_session_def)
  moreover have "service_auth_enable sample_auth" "service_any_conns sample_auth" by (simp_all add: sample_auth_def)
  ultimately show ?thesis by (cases "check t a sec") (auto simp: sample_login_def on_accept_def check_access_def)
qed

lemma sample_attack:
  "fst (attack sample_auth (\<lambda>_. False) ''1.2.3.4'' (map sample_login [0, 0, 0, 0, 0, 200, 301]) Map.empty) = 6"
  by (simp add: sample_attack_step check_def mark_failed_def expired_def max_attempts_def)


text \<open>The failures are counted when a request is processed, the address is checked when a connection is accepted:
  any number of connections opened before the first failure are let in.\<close>

lemma parallel_guesses_let_in:
  assumes "sec addr = None" and "service_any_conns cfg"
  shows "map (\<lambda>t. on_accept cfg is_loopback t (Some addr) sec) ts = replicate (length ts) (Some (new_session addr), sec)"
  using assms by (induction ts) (simp_all add: on_accept_def check_access_def check_def)

end
