(* ===== verification/Nslookup.thy ===== *)
theory Nslookup
  imports Json_Rpc "HOL-Library.Multiset"
begin

text \<open>
  The choice of a node, \<^verbatim>\<open>src/src/nslookup.{h,cpp}\<close>: the addresses behind a name ordered by how fast they answer, and
  among the torrent nodes the fastest one whose chain is not behind.  The resolver, the probes and \<^verbatim>\<open>std::sort\<close>
  are arguments.
\<close>

section \<open>Addresses of a name\<close>

record NsResult =
  server :: string
  ns_timeout :: nat
  blocks_count :: u32

definition new_result :: "string \<Rightarrow> nat \<Rightarrow> NsResult" where
  "new_result srv timeout = \<lparr>server = srv, ns_timeout = timeout, blocks_count = 0\<rparr>"

text \<open>\<open>ns_probe\<close> is how many milliseconds a node takes to answer, nothing where it does not.\<close>

record name_service =
  ns_is_ip :: "string \<Rightarrow> bool"
  ns_lookup :: "string \<Rightarrow> string list fallible"
  ns_probe :: "string \<Rightarrow> nat option"
  ns_sort :: "NsResult list \<Rightarrow> NsResult list"

definition port_suffix :: "int \<Rightarrow> string" where
  "port_suffix port = (if port \<noteq> 0 then '':'' @ to_string_int port else [])"

definition get_ip_addresses :: "name_service \<Rightarrow> string \<Rightarrow> NsResult list \<Rightarrow> (bool \<times> NsResult list) fallible" where
  "get_ip_addresses ns address ip =
     (let (scheme, srv) = (case str_find ''://'' address of
            Some i \<Rightarrow> (take (i + 3) address, drop (i + 3) address) | None \<Rightarrow> ([], address))
      in bindE (case str_find '':'' srv of
             Some i \<Rightarrow> bindE (stoi (drop (i + 1) srv)) (\<lambda>port. Inr (port, take i srv))
           | None \<Rightarrow> Inr (0, srv))
         (\<lambda>(port, srv).
            if ns_is_ip ns srv then Inr (True, ip @ [new_result (scheme @ srv @ port_suffix port) 0])
            else bindE (ns_lookup ns srv) (\<lambda>result.
              let found = map (\<lambda>r. let serv = scheme @ r @ port_suffix port
                    in new_result serv (case ns_probe ns serv of Some ms \<Rightarrow> ms | None \<Rightarrow> 999000)) result;
                  ip = ns_sort ns (ip @ found)
              in Inr (ip \<noteq> [], ip))))"

section \<open>The best node\<close>

text \<open>The answer of a node to \<^verbatim>\<open>get-count-blocks\<close>: its body, nothing where there is no response.\<close>

definition count_of :: "(string \<Rightarrow> json option) \<Rightarrow> string option \<Rightarrow> u32 option" where
  "count_of Parse body =
     (case body of
        None \<Rightarrow> None
      | Some txt \<Rightarrow>
          if txt = [] then None
          else (case reader_parse Parse txt of
              (False, _) \<Rightarrow> None
            | (True, doc) \<Rightarrow>
                (case get_result doc of
                   None \<Rightarrow> None
                 | Some tmp \<Rightarrow> map_option of_nat (get_value as_uint tmp ''count_blocks''))))"

fun ask_counts :: "(string \<Rightarrow> json option) \<Rightarrow> (string \<Rightarrow> string option) \<Rightarrow> NsResult list \<Rightarrow> u32 \<Rightarrow> NsResult list \<times> u32" where
  "ask_counts Parse answer [] max_blocks = ([], max_blocks)"
| "ask_counts Parse answer (i # is) max_blocks =
     (let (i, max_blocks) =
        (if ns_timeout i \<ge> 2000 then (i, max_blocks)
         else case count_of Parse (answer (server i)) of
           None \<Rightarrow> (i, max_blocks)
         | Some c \<Rightarrow> (i\<lparr>blocks_count := c\<rparr>, max max_blocks c));
        (is, max_blocks) = ask_counts Parse answer is max_blocks
      in (i # is, max_blocks))"

definition choose_node :: "NsResult list \<Rightarrow> u32 \<Rightarrow> NsResult option" where
  "choose_node tors max_blocks =
     (let max_blocks = (if max_blocks > 9 then max_blocks - 10 else max_blocks)
      in find (\<lambda>i. blocks_count i > max_blocks) tors)"

text \<open>One round of \<^verbatim>\<open>lookup_best_ip\<close>: the torrent node and the proxy in use, and the exception that ended the round.\<close>

definition lookup_round ::
  "name_service \<Rightarrow> (string \<Rightarrow> json option) \<Rightarrow> (string \<Rightarrow> string option) \<Rightarrow> string \<Rightarrow> string \<Rightarrow> string \<times> string
     \<Rightarrow> (string \<times> string) \<times> exc option" where
  "lookup_round ns Parse answer torName proxyName = (\<lambda>(tor, proxy).
     case get_ip_addresses ns torName [] of
       Inl e \<Rightarrow> ((tor, proxy), Some e)
     | Inr (ok, tors) \<Rightarrow>
         (let tor = (if \<not> ok then tor
                     else let (tors, max_blocks) = ask_counts Parse answer tors 0
                          in case choose_node tors max_blocks of None \<Rightarrow> tor | Some i \<Rightarrow> server i)
          in case get_ip_addresses ns proxyName [] of
               Inl e \<Rightarrow> ((tor, proxy), Some e)
             | Inr (ok, prxs) \<Rightarrow> ((tor, if ok then server (hd prxs) else proxy), None)))"

section \<open>What is chosen\<close>

lemma ask_counts_servers: "ask_counts Parse answer is m = (is', m') \<Longrightarrow> map server is' = map server is \<and> map ns_timeout is' = map ns_timeout is"
  by (induction "is" arbitrary: m is' m') (auto simp: Let_def split: prod.splits if_splits option.splits)

lemma ask_counts_max:
  "ask_counts Parse answer is m = (is', m') \<Longrightarrow> \<forall>i\<in>set is. blocks_count i \<le> m \<Longrightarrow>
    m \<le> m' \<and> (\<forall>i\<in>set is'. blocks_count i \<le> m') \<and> (m' = m \<or> m' \<in> blocks_count ` set is')"
proof (induction "is" arbitrary: m is' m')
  case (Cons i js)
  let ?i = "if ns_timeout i \<ge> 2000 then i else case count_of Parse (answer (server i)) of None \<Rightarrow> i | Some c \<Rightarrow> i\<lparr>blocks_count := c\<rparr>"
  let ?m = "if ns_timeout i \<ge> 2000 then m else case count_of Parse (answer (server i)) of None \<Rightarrow> m | Some c \<Rightarrow> max m c"
  obtain js' where js': "ask_counts Parse answer js ?m = (js', m')" "is' = ?i # js'"
    using Cons.prems(1) by (auto split: prod.splits option.splits if_splits)
  have "\<forall>i\<in>set js. blocks_count i \<le> ?m" using Cons.prems(2) by (auto split: option.splits intro: le_max_iff_disj [THEN iffD2])
  note IH = Cons.IH [OF js'(1) this]
  have "m \<le> ?m \<and> blocks_count ?i \<le> ?m \<and> (?m = m \<or> ?m = blocks_count ?i)"
    using Cons.prems(2) by (auto simp: max_def split: option.splits)
  then show ?case using IH js'(2) by (auto intro: order_trans)
qed simp

lemma find_first: "find P xs = Some x \<Longrightarrow> \<exists>ys zs. xs = ys @ x # zs \<and> P x \<and> (\<forall>y\<in>set ys. \<not> P y)"
proof (induction xs)
  case (Cons a xs)
  show ?case
  proof (cases "P a")
    case True
    then show ?thesis using Cons.prems by - (rule exI [where x = "[]"], auto)
  next
    case False
    then obtain ys zs where "xs = ys @ x # zs" "P x" "\<forall>y\<in>set ys. \<not> P y" using Cons by auto
    then show ?thesis using False by - (rule exI [where x = "a # ys"], auto)
  qed
qed simp

lemma sorted_before:
  assumes "sorted (map f (ys @ x # zs))" and "y \<in> set (x # zs)"
  shows "f x \<le> f y"
  using assms by (auto simp: sorted_append)

definition sorts :: "(NsResult list \<Rightarrow> NsResult list) \<Rightarrow> bool" where
  "sorts srt \<longleftrightarrow> (\<forall>xs. mset (srt xs) = mset xs \<and> sorted (map ns_timeout (srt xs)))"

lemma get_ip_addresses_sorted:
  assumes "get_ip_addresses ns address [] = Inr (ok, ip)" and "sorts (ns_sort ns)"
  shows "sorted (map ns_timeout ip) \<and> (\<forall>i\<in>set ip. blocks_count i = 0) \<and> (ok \<longleftrightarrow> ip \<noteq> [])"
proof -
  have fresh: "blocks_count i = 0" if "i \<in> set (ns_sort ns (map (\<lambda>r. new_result (g r) (h r)) rs))" for i g h and rs :: "string list"
  proof -
    have "set (ns_sort ns xs) = set xs" for xs using assms(2) by (metis mset_eq_setD sorts_def)
    with that show ?thesis by (auto simp: new_result_def)
  qed
  from assms show ?thesis
    by (auto simp: get_ip_addresses_def bindE_Inr_conv Let_def new_result_def [of _ 0] sorts_def fresh split: prod.splits if_splits)
qed

section \<open>Properties\<close>

text \<open>C18: when a node of the network has more than nine blocks, a round switches to a torrent node of the name, also where
  the lookup of the proxy fails then: it is
  less than ten blocks behind the longest chain any node reported, and no node answers faster that is less than
  ten blocks behind.\<close>

theorem best_node_chosen:
  assumes "sorts (ns_sort ns)" and "get_ip_addresses ns torName [] = Inr (True, found)"
    and "ask_counts Parse answer found 0 = (tors, max_blocks)" and "9 < max_blocks"
    and "lookup_round ns Parse answer torName proxyName (tor, proxy) = ((tor', proxy'), e)"
  shows "\<exists>i\<in>set tors. tor' = server i \<and> server i \<in> server ` set found \<and> unat max_blocks < unat (blocks_count i) + 10 \<and>
    (\<forall>j\<in>set tors. unat max_blocks < unat (blocks_count j) + 10 \<longrightarrow> ns_timeout i \<le> ns_timeout j)"
proof -
  have nodes: "sorted (map ns_timeout found)" "\<forall>i\<in>set found. blocks_count i = 0" using get_ip_addresses_sorted [OF assms(2,1)] by simp_all
  note servers = ask_counts_servers [OF assms(3)]
  have "max_blocks \<in> blocks_count ` set tors" using ask_counts_max [OF assms(3)] nodes(2) assms(4) by auto
  then obtain m where m: "m \<in> set tors" "blocks_count m = max_blocks" by auto
  have behind: "blocks_count i > max_blocks - 10 \<longleftrightarrow> unat max_blocks < unat (blocks_count i) + 10" for i :: NsResult
    using assms(4) by (auto simp: word_less_nat_alt unat_sub_if')
  have "find (\<lambda>i. blocks_count i > max_blocks - 10) tors \<noteq> None"
    using m behind [of m] by (auto simp: find_None_iff)
  then obtain i where i: "find (\<lambda>i. blocks_count i > max_blocks - 10) tors = Some i" by auto
  from find_first [OF i] obtain ys zs where split: "tors = ys @ i # zs" "blocks_count i > max_blocks - 10"
    "\<forall>y\<in>set ys. \<not> blocks_count y > max_blocks - 10" by blast
  have "ns_timeout i \<le> ns_timeout j" if "j \<in> set tors" "unat max_blocks < unat (blocks_count j) + 10" for j
    using sorted_before [of ns_timeout ys i zs j] servers nodes(1) split that behind [of j] by auto
  moreover have "tor' = server i" using assms(2-5) i by (auto simp: lookup_round_def choose_node_def Let_def split: sum.splits prod.splits)
  moreover have "i \<in> set tors" using split by simp
  moreover have "server i \<in> server ` set found" using servers calculation(3) by (metis image_eqI list.set_map)
  ultimately show ?thesis using behind [of i] split(2) by blast
qed

text \<open>In a network of at most nine blocks no node is ever chosen.\<close>

lemma young_chain_keeps_node:
  assumes "ask_counts Parse answer found 0 = (tors, max_blocks)" and "\<forall>i\<in>set found. blocks_count i = 0" and "max_blocks \<le> 9"
  shows "choose_node tors max_blocks = None"
  using ask_counts_max [OF assms(1)] assms(2,3) by (auto simp: choose_node_def find_None_iff not_less)

definition sample_ns :: name_service where
  "sample_ns = \<lparr>ns_is_ip = (\<lambda>_. False), ns_lookup = (\<lambda>_. Inr [''b'', ''a'']),
     ns_probe = [''http://a'' \<mapsto> 5, ''http://b'' \<mapsto> 9], ns_sort = sort_key ns_timeout\<rparr>"

definition sample_counts :: "string \<Rightarrow> json option" where
  "sample_counts txt = Some (JObject [(''result'', JObject [(''count_blocks'', JInt (int (length txt)))])])"

definition sample_answer :: "string \<Rightarrow> string option" where
  "sample_answer = [''http://a'' \<mapsto> ''three'', ''http://b'' \<mapsto> ''twenty characters, say'']"

lemma sample_ns_sorts: "sorts (ns_sort sample_ns)"
  by (simp add: sorts_def sample_ns_def)

lemma sample_addresses:
  "get_ip_addresses sample_ns ''http://n'' [] = Inr (True, [new_result ''http://a'' 5, new_result ''http://b'' 9])"
  by (simp add: get_ip_addresses_def sample_ns_def starts_with_def port_suffix_def Let_def) (simp add: new_result_def)

lemma sample_tors:
  "ask_counts sample_counts sample_answer [new_result ''http://a'' 5, new_result ''http://b'' 9] 0 =
    ([(new_result ''http://a'' 5)\<lparr>blocks_count := 5\<rparr>, (new_result ''http://b'' 9)\<lparr>blocks_count := 22\<rparr>], 22)"
  by (simp add: new_result_def count_of_def sample_answer_def sample_counts_def reader_parse_def get_result_def reader_get_def FindMember_def
      get_value_def as_uint_def max_def)

theorem best_node_chosen_witness:
  "\<exists>tor proxy. lookup_round sample_ns sample_counts sample_answer ''http://n'' ''http://n'' ([], []) = ((tor, proxy), None) \<and> tor = ''http://b''"
proof -
  obtain tor proxy where rd: "lookup_round sample_ns sample_counts sample_answer ''http://n'' ''http://n'' ([], []) = ((tor, proxy), None)"
    by (simp add: lookup_round_def sample_addresses)
  from best_node_chosen [OF sample_ns_sorts sample_addresses sample_tors _ rd] have "tor = ''http://b''" by (auto simp: new_result_def)
  with rd show ?thesis by blast
qed

end
