(* ===== verification/Ns_Resolver.thy ===== *)
theory Ns_Resolver
  imports Nslookup
begin

text \<open>
  The answers of a name server, \<^verbatim>\<open>parse_record\<close>, \<^verbatim>\<open>nsLookup\<close> and \<^verbatim>\<open>validateIpAddress\<close> of \<^verbatim>\<open>src/src/nslookup.cpp\<close>, with
  \<^verbatim>\<open>inet_ntoa\<close> and \<^verbatim>\<open>inet_pton\<close> of the C library.  The query and the parser of messages of the resolver library are a
  record.  The lemmas show that the text of every address record is recognised as an address, so that the two uses of
  names in \<open>Nslookup\<close> fit, and what other records become.
\<close>

section \<open>Addresses as text\<close>

definition inet_ntoa :: "byte list \<Rightarrow> string" where
  "inet_ntoa bs =
     to_string (unat (bs ! 0)) @ ''.'' @ to_string (unat (bs ! 1)) @ ''.'' @ to_string (unat (bs ! 2)) @ ''.'' @ to_string (unat (bs ! 3))"

text \<open>\<^verbatim>\<open>inet_pton(AF_INET)\<close>: four decimal numbers below 256 without leading zeros; the octets that are complete and the one
  that is being read.\<close>

fun pton_scan :: "string \<Rightarrow> nat list \<Rightarrow> nat option \<Rightarrow> nat list option" where
  "pton_scan [] octets cur = (case cur of Some v \<Rightarrow> if length octets = 3 then Some (octets @ [v]) else None | None \<Rightarrow> None)"
| "pton_scan (c # cs) octets cur =
     (if isdigit c then
        (case cur of
           None \<Rightarrow> pton_scan cs octets (Some (digit_val c))
         | Some v \<Rightarrow> if v = 0 \<or> 10 * v + digit_val c > 255 then None else pton_scan cs octets (Some (10 * v + digit_val c)))
      else if c = CHR ''.'' then
        (case cur of
           None \<Rightarrow> None
         | Some v \<Rightarrow> if length octets = 3 then None else pton_scan cs (octets @ [v]) None)
      else None)"

definition validateIpAddress :: "string \<Rightarrow> bool" where
  "validateIpAddress ipAddress \<longleftrightarrow> pton_scan (c_str ipAddress) [] None \<noteq> None"

section \<open>Answers\<close>

text \<open>The resolver: \<^verbatim>\<open>res_query\<close> with the length it reports and the buffer it fills, \<^verbatim>\<open>ns_initparse\<close>, the type and the data of an
  answer record with \<^verbatim>\<open>ns_parserr\<close>, and the text of a name in a message.\<close>

record resolver =
  res_query :: "string \<Rightarrow> (nat \<times> byte list) option"
  ns_initparse :: "byte list \<Rightarrow> bool"
  ns_parserr :: "byte list \<Rightarrow> nat \<Rightarrow> (nat \<times> byte list) option"
  ns_name :: "byte list \<Rightarrow> byte list \<Rightarrow> string"
  res_error :: string

definition ns_get16 :: "byte list \<Rightarrow> nat" where
  "ns_get16 bs = unat (bs ! 0) * 256 + unat (bs ! 1)"

definition parse_record :: "resolver \<Rightarrow> byte list \<Rightarrow> nat \<Rightarrow> string fallible" where
  "parse_record R msg idx =
     (case ns_parserr R msg idx of
        None \<Rightarrow> Inl (StringExc (''ns_parserr error '' @ res_error R))
      | Some (t, rdata) \<Rightarrow>
          if t = 15 then require (2 \<le> length rdata) OtherExc (Inr (to_string (ns_get16 rdata) @ '' '' @ ns_name R msg (drop 2 rdata)))
          else if t = 1 then require (4 \<le> length rdata) OtherExc (Inr (inet_ntoa rdata))
          else if t = 2 then Inr (ns_name R msg rdata)
          else Inr ''unhandled record'')"

fun parse_answers :: "resolver \<Rightarrow> byte list \<Rightarrow> nat list \<Rightarrow> string list fallible" where
  "parse_answers R msg [] = Inr []"
| "parse_answers R msg (i # is) = bindE (parse_record R msg i) (\<lambda>a. bindE (parse_answers R msg is) (\<lambda>as. Inr (a # as)))"

definition nsLookup :: "resolver \<Rightarrow> string \<Rightarrow> string list fallible" where
  "nsLookup R name =
     (case res_query R (c_str name) of
        None \<Rightarrow> Inl (StringExc (res_error R))
      | Some (r, buffer) \<Rightarrow>
          require (r \<le> 8192) (StringExc ''Buffer too small reply truncated'') (
          require (unat (buffer ! 3) mod 16 = 0) (StringExc (''ns error '' @ to_string (unat (buffer ! 3) mod 16))) (
          require (ns_initparse R (take r buffer)) (StringExc (''ns_initparse error '' @ res_error R)) (
          parse_answers R (take r buffer) [0..<ns_get16 (drop 6 buffer)]))))"

section \<open>Addresses are recognised\<close>

lemma not_digit_dot: "\<not> isdigit (CHR ''.'')"
  by (simp add: isdigit_def)

lemma pton_scan_number:
  assumes "n < 256"
  shows "pton_scan (to_string n @ rest) octets None = pton_scan rest octets (Some n)"
proof -
  consider "n < 10" | "10 \<le> n" "n < 100" | "100 \<le> n" by linarith
  then show ?thesis
  proof cases
    case 1
    then show ?thesis by (simp add: to_string.simps [of n])
  next
    case 2
    then have "n div 10 < 10" "n div 10 \<noteq> 0" "n mod 10 < 10" by auto
    then show ?thesis using 2 by (simp add: to_string.simps [of n] to_string.simps [of "n div 10"])
  next
    case 3
    have d: "n div 10 div 10 < 10" "n div 10 div 10 \<noteq> 0" "n div 10 mod 10 < 10" "n mod 10 < 10" "\<not> n div 10 < 10" "\<not> n < 10"
      using 3 assms by auto
    have s: "to_string n = [digit_char (n div 10 div 10), digit_char (n div 10 mod 10), digit_char (n mod 10)]"
      using d by (simp add: to_string.simps [of n] to_string.simps [of "n div 10"] to_string.simps [of "n div 10 div 10"])
    have "10 * (n div 10 div 10) + n div 10 mod 10 = n div 10" "10 * (n div 10) + n mod 10 = n" by simp_all
    moreover have "n div 10 < 256" using assms by simp
    ultimately show ?thesis unfolding s using d assms by (simp add: not_less)
  qed
qed

lemma pton_ntoa:
  "pton_scan (inet_ntoa [a, b, c, d]) [] None = Some [unat a, unat b, unat c, unat d]"
proof -
  have small: "unat x < 256" for x :: byte using unsigned_less [of x] by simp
  note scan = pton_scan_number [OF small]
  have "pton_scan (to_string (unat x)) octets None = pton_scan [] octets (Some (unat x))" for x :: byte and octets
    using scan [of x "[]"] by simp
  then show ?thesis by (simp add: inet_ntoa_def scan not_digit_dot)
qed

lemma to_string_chars: "c \<in> set (to_string n) \<Longrightarrow> isdigit c"
proof (induction n rule: to_string.induct)
  case (1 n)
  show ?case
  proof (cases "n < 10")
    case True
    then show ?thesis using 1 by (simp add: to_string.simps [of n])
  next
    case False
    then show ?thesis using 1 by (auto simp: to_string.simps [of n])
  qed
qed

lemma c_str_ntoa: "c_str (inet_ntoa bs) = inet_ntoa bs"
proof -
  have "c \<noteq> CHR 0x00" if "c \<in> set (inet_ntoa bs)" for c
    using that to_string_chars by (fastforce simp: inet_ntoa_def isdigit_def Let_def)
  then show ?thesis unfolding c_str_def by (simp add: takeWhile_eq_all_conv)
qed

text \<open>The text of an address record is an address.\<close>

lemma address_record_valid:
  assumes "ns_parserr R msg i = Some (1, rdata)" and "4 \<le> length rdata"
  shows "\<exists>a. parse_record R msg i = Inr a \<and> validateIpAddress a"
proof -
  obtain b0 b1 b2 b3 rest where "rdata = b0 # b1 # b2 # b3 # rest"
    using assms(2) by (auto simp: numeral_eq_Suc Suc_le_length_iff)
  then have "inet_ntoa rdata = inet_ntoa [b0, b1, b2, b3]" by (simp add: inet_ntoa_def numeral_eq_Suc)
  then have "validateIpAddress (inet_ntoa rdata)" by (simp add: validateIpAddress_def c_str_ntoa pton_ntoa)
  then show ?thesis using assms by (simp add: parse_record_def)
qed

text \<open>An answer of another type, such as the \<^verbatim>\<open>CNAME\<close> before the addresses of an alias, becomes an entry of its own.\<close>

lemma alias_is_an_entry: "ns_parserr R msg i = Some (5, rdata) \<Longrightarrow> parse_record R msg i = Inr ''unhandled record''"
  by (simp add: parse_record_def)

lemma unhandled_not_valid: "\<not> validateIpAddress ''unhandled record''"
  by code_simp

text \<open>A lookup of a name whose answers are all address records gives one address per record.\<close>

lemma parse_answers_valid:
  assumes "\<forall>i \<in> set is. \<exists>rdata. ns_parserr R msg i = Some (1, rdata) \<and> 4 \<le> length rdata"
  shows "\<exists>as. parse_answers R msg is = Inr as \<and> length as = length is \<and> list_all validateIpAddress as"
  using assms
proof (induction "is")
  case (Cons i "is")
  then obtain rdata where "ns_parserr R msg i = Some (1, rdata)" "4 \<le> length rdata" by auto
  from address_record_valid [OF this] obtain a where "parse_record R msg i = Inr a" "validateIpAddress a" by blast
  with Cons show ?case by auto
qed simp

text \<open>The program's own lookups: the names of \<open>Nslookup\<close> with this resolver.\<close>

definition name_service_of :: "resolver \<Rightarrow> (string \<Rightarrow> nat option) \<Rightarrow> (NsResult list \<Rightarrow> NsResult list) \<Rightarrow> name_service" where
  "name_service_of R probe sort_by =
     \<lparr>ns_is_ip = validateIpAddress, ns_lookup = nsLookup R, ns_probe = probe, ns_sort = sort_by\<rparr>"

end
