(* ===== verification/Utils_Timer.thy ===== *)
theory Utils_Timer
  imports Prelude
begin

text \<open>
  The timer of \<^verbatim>\<open>src/src/task_handlers/utils.{h,cpp}\<close> that limits how long a request to a node may take: \<^verbatim>\<open>start\<close> runs a
  thread that waits on a condition variable and then calls the handler with \<^verbatim>\<open>m_locker\<close> held, \<^verbatim>\<open>stop\<close> wakes the thread
  and joins it.  The thread of the timer and the one that calls its operations take their steps in any order.
  Waiting may end by a notification, by the timeout, or for no reason; the handler may call \<^verbatim>\<open>set_callback\<close> as
  \<^verbatim>\<open>http_json_rpc_request::on_timeout\<close> does, and returns.
\<close>

section \<open>State\<close>

datatype timer_side = Caller | Worker

text \<open>The thread of the timer: \<open>W_done\<close> is a thread that ended and can be joined.  The argument is \<^verbatim>\<open>status\<close>:
  whether the wait timed out.\<close>

datatype worker_pc = W_none | W_start | W_before | W_wait | W_woken bool | W_check bool | W_call | W_run | W_finish | W_done

datatype caller_pc = C_idle | C_start_lock bool | C_start_join | C_stop_lock | C_stop_join

text \<open>\<open>t_armed\<close> tells whether \<^verbatim>\<open>start\<close> was called after the last \<^verbatim>\<open>stop\<close> that returned, \<open>t_runs\<close> how often the thread called
  the handler.\<close>

record timer =
  m_locker :: "timer_side option"
  m_handler :: bool
  m_stop :: bool
  t_worker :: worker_pc
  t_caller :: caller_pc
  t_armed :: bool
  t_runs :: nat

definition Timer :: timer where
  "Timer = \<lparr>m_locker = None, m_handler = False, m_stop = True, t_worker = W_none, t_caller = C_idle, t_armed = False, t_runs = 0\<rparr>"

section \<open>Operations\<close>

definition set_callback :: "bool \<Rightarrow> timer \<Rightarrow> timer" where
  "set_callback handler s = s\<lparr>m_handler := handler\<rparr>"

text \<open>\<^verbatim>\<open>m_thr.joinable()\<close> and the end of \<^verbatim>\<open>join\<close>.\<close>

definition joined :: "timer \<Rightarrow> bool" where
  "joined s \<longleftrightarrow> t_worker s = W_none \<or> t_worker s = W_done"

definition notify_one :: "timer \<Rightarrow> timer" where
  "notify_one s = (if t_worker s = W_wait then s\<lparr>t_worker := W_woken False\<rparr> else s)"

text \<open>\<^verbatim>\<open>start\<close> up to \<^verbatim>\<open>run_once\<close>, which joins the last thread and starts a new one under the lock.\<close>

definition timer_start :: "bool \<Rightarrow> timer \<Rightarrow> timer" where
  "timer_start immediately s =
     (let s = set_callback True s; s = s\<lparr>m_stop := \<not> immediately\<rparr>
      in if immediately then s\<lparr>m_locker := Some Caller, t_caller := C_start_join\<rparr> else s\<lparr>t_caller := C_idle\<rparr>)"

definition run_once :: "timer \<Rightarrow> timer" where
  "run_once s = s\<lparr>m_stop := False, t_worker := W_start, t_runs := 0, m_locker := None, t_caller := C_idle\<rparr>"

definition timer_stop :: "timer \<Rightarrow> timer" where
  "timer_stop s =
     (if \<not> m_stop s then notify_one (s\<lparr>m_stop := True, t_caller := C_stop_join\<rparr>)
      else (set_callback False s)\<lparr>t_caller := C_idle, t_armed := False\<rparr>)"

definition timer_stopped :: "timer \<Rightarrow> timer" where
  "timer_stopped s = (set_callback False s)\<lparr>t_worker := W_none, t_caller := C_idle, t_armed := False\<rparr>"

text \<open>The body of the thread: \<^verbatim>\<open>wait_for\<close> gives the lock back and takes it again.\<close>

definition thread_step :: "timer \<Rightarrow> timer" where
  "thread_step s =
     (case t_worker s of
        W_start \<Rightarrow> if m_locker s = None then s\<lparr>m_locker := Some Worker, t_worker := W_before\<rparr> else s
      | W_before \<Rightarrow> s\<lparr>m_locker := None, t_worker := W_wait\<rparr>
      | W_woken b \<Rightarrow> if m_locker s = None then s\<lparr>m_locker := Some Worker, t_worker := W_check b\<rparr> else s
      | W_check b \<Rightarrow>
          if m_stop s then s\<lparr>m_locker := None, t_worker := W_done\<rparr>
          else s\<lparr>t_worker := (if b then W_call else W_before)\<rparr>
      | W_call \<Rightarrow> if m_handler s then s\<lparr>t_worker := W_run, t_runs := Suc (t_runs s)\<rparr> else s\<lparr>t_worker := W_finish\<rparr>
      | W_run \<Rightarrow> s\<lparr>t_worker := W_finish\<rparr>
      | W_finish \<Rightarrow> s\<lparr>m_stop := True, m_locker := None, t_worker := W_done\<rparr>
      | _ \<Rightarrow> s)"

datatype timer_event = Call_start bool | Call_stop | Caller_step | Thread_step | Wake bool | Handler_clears

inductive timer_step :: "timer \<Rightarrow> timer_event \<Rightarrow> timer \<Rightarrow> bool" where
  call_start: "t_caller s = C_idle \<Longrightarrow> timer_step s (Call_start r) (s\<lparr>t_caller := C_start_lock r, t_armed := True\<rparr>)"
| call_stop: "t_caller s = C_idle \<Longrightarrow> timer_step s Call_stop (s\<lparr>t_caller := C_stop_lock\<rparr>)"
| start_locks: "t_caller s = C_start_lock r \<Longrightarrow> m_locker s = None \<Longrightarrow> timer_step s Caller_step (timer_start r s)"
| start_joins: "t_caller s = C_start_join \<Longrightarrow> joined s \<Longrightarrow> timer_step s Caller_step (run_once s)"
| stop_locks: "t_caller s = C_stop_lock \<Longrightarrow> m_locker s = None \<Longrightarrow> timer_step s Caller_step (timer_stop s)"
| stop_joins: "t_caller s = C_stop_join \<Longrightarrow> joined s \<Longrightarrow> timer_step s Caller_step (timer_stopped s)"
| thread: "thread_step s \<noteq> s \<Longrightarrow> timer_step s Thread_step (thread_step s)"
| wakes: "t_worker s = W_wait \<Longrightarrow> timer_step s (Wake b) (s\<lparr>t_worker := W_woken b\<rparr>)"
| clears: "t_worker s = W_run \<Longrightarrow> timer_step s Handler_clears (set_callback False s)"

text \<open>A program that stops the timer before it starts it again.\<close>

inductive timer_use :: "timer \<Rightarrow> timer_event \<Rightarrow> timer \<Rightarrow> bool" where
  use: "timer_step s e s' \<Longrightarrow> (\<And>r. e = Call_start r \<Longrightarrow> \<not> t_armed s) \<Longrightarrow> timer_use s e s'"

section \<open>The invariant\<close>

definition thread_locks :: "worker_pc \<Rightarrow> bool" where
  "thread_locks w \<longleftrightarrow> (case w of W_before \<Rightarrow> True | W_check _ \<Rightarrow> True | W_call \<Rightarrow> True | W_run \<Rightarrow> True | W_finish \<Rightarrow> True | _ \<Rightarrow> False)"

definition timer_inv :: "timer \<Rightarrow> bool" where
  "timer_inv s \<longleftrightarrow>
     m_locker s = (if t_caller s = C_start_join then Some Caller else if thread_locks (t_worker s) then Some Worker else None) \<and>
     (m_stop s \<and> t_caller s \<noteq> C_stop_join \<longrightarrow> joined s) \<and>
     (t_caller s = C_stop_join \<longrightarrow> m_stop s) \<and>
     (t_caller s = C_start_join \<longrightarrow> joined s \<and> t_armed s) \<and>
     (\<forall>r. t_caller s = C_start_lock r \<longrightarrow> joined s \<and> t_armed s) \<and>
     (\<not> t_armed s \<longrightarrow> joined s \<and> m_stop s) \<and>
     (t_worker s \<in> {W_run, W_finish, W_done} \<or> t_runs s = 0 \<or> t_worker s = W_none) \<and> t_runs s \<le> 1"

lemma timer_inv_init: "timer_inv Timer"
  by (simp add: timer_inv_def Timer_def joined_def thread_locks_def)

lemmas timer_defs = timer_start_def run_once_def timer_stop_def timer_stopped_def set_callback_def notify_one_def Let_def

lemma thread_step_keeps: "timer_inv s \<Longrightarrow> timer_inv (thread_step s)"
  by (cases "t_worker s") (auto simp: thread_step_def timer_inv_def joined_def thread_locks_def split: if_splits)

lemma timer_use_keeps: "timer_use s e s' \<Longrightarrow> timer_inv s \<Longrightarrow> timer_inv s'"
proof (induction rule: timer_use.induct)
  case (use s e s')
  from use(1) show ?case
  proof cases
    case thread
    then show ?thesis using thread_step_keeps [OF use(3)] by simp
  qed (use use in \<open>auto simp: timer_inv_def joined_def thread_locks_def timer_defs split: if_splits\<close>)
qed

interpretation timer: stable timer_use timer_inv
  by unfold_locales (rule timer_use_keeps)

section \<open>Calls return\<close>

lemma timer_useI: "timer_step s e s' \<Longrightarrow> e = Caller_step \<or> e = Thread_step \<or> e = Wake True \<Longrightarrow> timer_use s e s'"
  by (rule timer_use.use) auto

abbreviation internal :: "timer_event set" where
  "internal \<equiv> {Caller_step, Thread_step, Wake True}"

text \<open>\<open>s\<close> may go on to a state with \<open>Q\<close>, without another call.\<close>

definition leads_to :: "timer \<Rightarrow> (timer \<Rightarrow> bool) \<Rightarrow> bool" where
  "leads_to s Q \<longleftrightarrow> (\<exists>es s'. run timer_use s es s' \<and> set es \<subseteq> internal \<and> Q s')"

lemma leads_to_now: "Q s \<Longrightarrow> leads_to s Q"
  unfolding leads_to_def by (rule exI [of _ "[]"]) (auto intro: run_Nil)

lemma leads_to_step: "timer_step s e s' \<Longrightarrow> e \<in> internal \<Longrightarrow> leads_to s' Q \<Longrightarrow> leads_to s Q"
  unfolding leads_to_def by (metis (no_types, lifting) timer_useI insert_iff list.simps(15) run_Cons empty_iff insert_subset)

lemma leads_to_thread: "thread_step s \<noteq> s \<Longrightarrow> leads_to (thread_step s) Q \<Longrightarrow> leads_to s Q"
  by (rule leads_to_step [OF thread]) auto

lemma leads_to_trans: "leads_to s P \<Longrightarrow> (\<And>t. P t \<Longrightarrow> leads_to t Q) \<Longrightarrow> leads_to s Q"
  unfolding leads_to_def by (metis (no_types, lifting) run_append set_append Un_subset_iff)

fun to_end :: "worker_pc \<Rightarrow> nat" where
  "to_end W_start = 8" | "to_end W_before = 7" | "to_end W_wait = 6" | "to_end (W_woken _) = 5" | "to_end (W_check _) = 4"
| "to_end W_call = 3" | "to_end W_run = 2" | "to_end W_finish = 1" | "to_end _ = 0"

text \<open>A thread that is to stop ends.\<close>

lemma thread_ends:
  "timer_inv s \<Longrightarrow> t_caller s = C_stop_join \<Longrightarrow> leads_to s (\<lambda>t. t_caller t = C_stop_join \<and> joined t)"
proof (induction "to_end (t_worker s)" arbitrary: s rule: less_induct)
  case less
  consider "joined s" | "t_worker s = W_wait" | "\<not> joined s" "t_worker s \<noteq> W_wait" by blast
  then show ?case
  proof cases
    case 2
    have woken: "leads_to (s\<lparr>t_worker := W_woken True\<rparr>) (\<lambda>t. t_caller t = C_stop_join \<and> joined t)"
      by (rule less(1)) (use 2 less(2,3) in \<open>auto simp: timer_inv_def joined_def thread_locks_def\<close>)
    show ?thesis by (rule leads_to_step [OF wakes [OF 2, of True] _ woken]) simp
  next
    case 3
    have next_step: "t_worker (thread_step s) \<noteq> t_worker s \<and> t_caller (thread_step s) = C_stop_join \<and>
        to_end (t_worker (thread_step s)) < to_end (t_worker s)"
      using 3 less(2,3) by (cases "t_worker s") (auto simp: timer_inv_def joined_def thread_step_def thread_locks_def)
    then have later: "leads_to (thread_step s) (\<lambda>t. t_caller t = C_stop_join \<and> joined t)"
      using less(1) thread_step_keeps [OF less(2)] by blast
    show ?thesis by (rule leads_to_thread [OF _ later]) (use next_step in auto)
  qed (use less in \<open>auto intro: leads_to_now\<close>)
qed

fun to_release :: "worker_pc \<Rightarrow> nat" where
  "to_release (W_check _) = 4" | "to_release W_call = 3" | "to_release W_run = 2" | "to_release W_finish = 1"
| "to_release W_before = 1" | "to_release _ = 0"

text \<open>The thread gives the lock back to a caller that waits for it.\<close>

lemma thread_releases:
  "timer_inv s \<Longrightarrow> t_caller s = C_stop_lock \<Longrightarrow>
     leads_to s (\<lambda>t. timer_inv t \<and> t_caller t = C_stop_lock \<and> m_locker t = None)"
proof (induction "to_release (t_worker s)" arbitrary: s rule: less_induct)
  case less
  show ?case
  proof (cases "thread_locks (t_worker s)")
    case True
    have next_step: "t_worker (thread_step s) \<noteq> t_worker s \<and> t_caller (thread_step s) = C_stop_lock \<and>
        to_release (t_worker (thread_step s)) < to_release (t_worker s)"
      using True less(2,3) by (cases "t_worker s") (auto simp: timer_inv_def thread_step_def thread_locks_def)
    then have later: "leads_to (thread_step s) (\<lambda>t. timer_inv t \<and> t_caller t = C_stop_lock \<and> m_locker t = None)"
      using less(1) thread_step_keeps [OF less(2)] by blast
    show ?thesis by (rule leads_to_thread [OF _ later]) (use next_step in auto)
  next
    case False
    then show ?thesis using less(2,3) by (intro leads_to_now) (auto simp: timer_inv_def)
  qed
qed

lemma joined_returns:
  assumes "t_caller s = C_stop_join \<and> joined s" shows "leads_to s (\<lambda>t. t_caller t = C_idle)"
  by (rule leads_to_step [OF stop_joins]) (use assms in \<open>auto intro!: leads_to_now simp: timer_defs\<close>)

lemma stop_join_returns: "timer_inv s \<Longrightarrow> t_caller s = C_stop_join \<Longrightarrow> leads_to s (\<lambda>t. t_caller t = C_idle)"
  using thread_ends joined_returns by (rule leads_to_trans)

lemma stop_lock_returns:
  assumes inv: "timer_inv s" and pc: "t_caller s = C_stop_lock" and free: "m_locker s = None"
  shows "leads_to s (\<lambda>t. t_caller t = C_idle)"
proof (rule leads_to_step [OF stop_locks [OF pc free]])
  have "timer_inv (timer_stop s)"
    using timer_use_keeps [OF timer_useI [OF stop_locks [OF pc free]] inv] by simp
  then show "leads_to (timer_stop s) (\<lambda>t. t_caller t = C_idle)"
    using stop_join_returns [of "timer_stop s"] by (cases "m_stop s") (auto simp: timer_defs intro: leads_to_now)
qed simp

lemma start_join_returns:
  assumes "t_caller s = C_start_join" and "joined s" shows "leads_to s (\<lambda>t. t_caller t = C_idle)"
  by (rule leads_to_step [OF start_joins]) (use assms in \<open>auto intro!: leads_to_now simp: timer_defs\<close>)

lemma start_lock_returns:
  assumes inv: "timer_inv s" and pc: "t_caller s = C_start_lock r"
  shows "leads_to s (\<lambda>t. t_caller t = C_idle)"
proof -
  have free: "m_locker s = None" "joined s" using inv pc by (auto simp: timer_inv_def joined_def thread_locks_def)
  show ?thesis
  proof (rule leads_to_step [OF start_locks [OF pc free(1)]])
    show "leads_to (timer_start r s) (\<lambda>t. t_caller t = C_idle)"
      using start_join_returns [of "timer_start r s"] free(2)
      by (cases r) (auto simp: timer_defs joined_def intro: leads_to_now)
  qed simp
qed

section \<open>A stopped timer\<close>

lemma disarmed_step:
  assumes "timer_use s e s'" and inv: "timer_inv s" and "\<not> t_armed s" and "\<forall>r. e \<noteq> Call_start r"
  shows "\<not> t_armed s' \<and> t_runs s' = t_runs s"
proof -
  from inv assms(3) have s: "joined s" "m_stop s" "t_caller s \<noteq> C_start_join" by (auto simp: timer_inv_def)
  from assms(1) have "timer_step s e s'" by (auto elim: timer_use.cases)
  then show ?thesis
    using assms(3,4) s inv
    by cases (auto simp: timer_defs joined_def thread_step_def timer_inv_def)
qed

lemma disarmed_run:
  "run timer_use s es s' \<Longrightarrow> timer_inv s \<Longrightarrow> \<not> t_armed s \<Longrightarrow> (\<forall>r. Call_start r \<notin> set es) \<Longrightarrow> \<not> t_armed s' \<and> t_runs s' = t_runs s"
proof (induction rule: run.induct)
  case (run_snoc s es t e u)
  then have "timer_inv t" by (blast intro: timer.run_keeps)
  moreover from run_snoc have "\<forall>r. e \<noteq> Call_start r" by auto
  ultimately show ?case using run_snoc disarmed_step [of t e u] by simp
qed simp

section \<open>Running a program\<close>

definition timer_do :: "timer \<Rightarrow> timer_event \<Rightarrow> timer option" where
  "timer_do s e =
     (case e of
        Call_start r \<Rightarrow>
          if t_caller s = C_idle \<and> \<not> t_armed s then Some (s\<lparr>t_caller := C_start_lock r, t_armed := True\<rparr>) else None
      | Call_stop \<Rightarrow> if t_caller s = C_idle then Some (s\<lparr>t_caller := C_stop_lock\<rparr>) else None
      | Caller_step \<Rightarrow>
          (case t_caller s of
             C_idle \<Rightarrow> None
           | C_start_lock r \<Rightarrow> if m_locker s = None then Some (timer_start r s) else None
           | C_start_join \<Rightarrow> if joined s then Some (run_once s) else None
           | C_stop_lock \<Rightarrow> if m_locker s = None then Some (timer_stop s) else None
           | C_stop_join \<Rightarrow> if joined s then Some (timer_stopped s) else None)
      | Thread_step \<Rightarrow> if thread_step s \<noteq> s then Some (thread_step s) else None
      | Wake b \<Rightarrow> if t_worker s = W_wait then Some (s\<lparr>t_worker := W_woken b\<rparr>) else None
      | Handler_clears \<Rightarrow> if t_worker s = W_run then Some (set_callback False s) else None)"

fun timer_exec :: "timer \<Rightarrow> timer_event list \<Rightarrow> timer option" where
  "timer_exec s [] = Some s"
| "timer_exec s (e # es) = (case timer_do s e of None \<Rightarrow> None | Some s' \<Rightarrow> timer_exec s' es)"

lemma timer_do_use: "timer_do s e = Some s' \<Longrightarrow> timer_use s e s'"
  by (cases e) (auto simp: timer_do_def intro!: timer_use.use timer_step.intros split: if_splits caller_pc.splits)

lemma timer_exec_run: "timer_exec s es = Some s' \<Longrightarrow> run timer_use s es s'"
  by (induction s es rule: timer_exec.induct) (auto intro: run_Nil run_Cons timer_do_use split: option.splits)

lemmas timer_run_simps = timer_do_def timer_defs thread_step_def joined_def Timer_def

text \<open>\<^verbatim>\<open>stop\<close> notifies a thread that does not wait yet: the notification is lost, the thread then waits for the whole interval,
  and \<^verbatim>\<open>stop\<close> with it.\<close>

lemma lost_notification:
  "\<exists>es s. run timer_use Timer es s \<and> t_caller s = C_stop_join \<and> (\<forall>e s'. timer_step s e s' \<longrightarrow> (\<exists>b. e = Wake b))"
proof -
  let ?es = "[Call_start True, Caller_step, Caller_step, Call_stop, Caller_step, Thread_step, Thread_step]"
  let ?s = "\<lparr>m_locker = None, m_handler = True, m_stop = True, t_worker = W_wait, t_caller = C_stop_join, t_armed = True, t_runs = 0\<rparr>"
  have "timer_exec Timer ?es = Some ?s" by (simp add: timer_run_simps)
  then have "run timer_use Timer ?es ?s" by (rule timer_exec_run)
  moreover have "timer_step ?s e s' \<Longrightarrow> \<exists>b. e = Wake b" for e s'
    by (erule timer_step.cases) (auto simp: thread_step_def joined_def)
  ultimately show ?thesis by (metis (no_types, lifting) timer.select_convs(5))
qed

text \<open>A second start while the thread still waits.\<close>

definition start_stuck :: "timer \<Rightarrow> bool" where
  "start_stuck s \<longleftrightarrow> t_caller s = C_start_join \<and> m_locker s = Some Caller \<and> (t_worker s = W_wait \<or> (\<exists>b. t_worker s = W_woken b))"

lemma start_stuck_step: "timer_step s e s' \<Longrightarrow> start_stuck s \<Longrightarrow> start_stuck s'"
  by (erule timer_step.cases) (auto simp: start_stuck_def joined_def thread_step_def set_callback_def)

interpretation stuck: stable timer_step start_stuck
  by unfold_locales (rule start_stuck_step)

section \<open>Properties\<close>

text \<open>C23: a timer that is stopped stays silent.  In every interleaving of a program that stops the timer before it starts
  it again, a start calls the handler at most once; and when \<^verbatim>\<open>stop\<close> has returned, the handler is not running, and it
  does not run before the next call of \<^verbatim>\<open>start\<close>.\<close>

theorem stopped_timer_silent:
  assumes "run timer_use Timer es s"
  shows "t_runs s \<le> 1 \<and>
    (t_caller s = C_idle \<and> \<not> t_armed s \<longrightarrow> t_worker s \<noteq> W_run \<and>
      (\<forall>es' s'. run timer_use s es' s' \<and> (\<forall>r. Call_start r \<notin> set es') \<longrightarrow> t_worker s' \<noteq> W_run \<and> t_runs s' = t_runs s))"
proof -
  have inv: "timer_inv s" using timer.run_keeps [OF assms timer_inv_init] .
  have "t_worker s' \<noteq> W_run \<and> t_runs s' = t_runs s"
    if "run timer_use s es' s'" "\<forall>r. Call_start r \<notin> set es'" "\<not> t_armed s" for es' s'
    using disarmed_run [OF that(1) inv that(3,2)] timer.run_keeps [OF that(1) inv] by (auto simp: timer_inv_def joined_def)
  then show ?thesis using inv by (auto simp: timer_inv_def joined_def)
qed

theorem stopped_timer_silent_witness:
  "\<exists>s. run timer_use Timer
     [Call_start True, Caller_step, Caller_step, Thread_step, Thread_step, Call_stop, Caller_step, Thread_step, Thread_step, Caller_step] s \<and>
     t_caller s = C_idle \<and> \<not> t_armed s \<and> t_worker s \<noteq> W_run"
    (is "\<exists>s. run timer_use Timer ?es s \<and> _")
proof -
  let ?s = "\<lparr>m_locker = None, m_handler = False, m_stop = True, t_worker = W_none, t_caller = C_idle, t_armed = False, t_runs = 0\<rparr>"
  have "timer_exec Timer ?es = Some ?s" by (simp add: timer_run_simps)
  then have "run timer_use Timer ?es ?s" by (rule timer_exec_run)
  with stopped_timer_silent [OF this] show ?thesis by auto
qed

text \<open>C24: calls of the timer return.  A program that stops the timer before it starts it again never waits for ever: from
  every state a call is in, the steps of the caller and of the thread can lead to its return.\<close>

theorem timer_calls_return:
  assumes "run timer_use Timer es s"
  shows "\<exists>es' s'. run timer_use s es' s' \<and> set es' \<subseteq> {Caller_step, Thread_step, Wake True} \<and> t_caller s' = C_idle"
proof -
  have inv: "timer_inv s" using timer.run_keeps [OF assms timer_inv_init] .
  have "leads_to s (\<lambda>t. t_caller t = C_idle)"
  proof (cases "t_caller s")
    case C_start_join
    then show ?thesis using start_join_returns inv by (simp add: timer_inv_def)
  next
    case C_stop_lock
    with thread_releases [OF inv] stop_lock_returns show ?thesis by (blast intro: leads_to_trans)
  qed (use inv in \<open>auto intro: leads_to_now start_lock_returns stop_join_returns\<close>)
  then show ?thesis by (simp add: leads_to_def)
qed

theorem timer_calls_return_witness:
  "\<exists>s. run timer_use Timer [Call_start True, Caller_step, Caller_step, Thread_step, Call_stop] s \<and> t_caller s = C_stop_lock \<and>
     (\<exists>es' s'. run timer_use s es' s' \<and> t_caller s' = C_idle)"
    (is "\<exists>s. run timer_use Timer ?es s \<and> _")
proof -
  let ?s = "\<lparr>m_locker = Some Worker, m_handler = True, m_stop = False, t_worker = W_before, t_caller = C_stop_lock, t_armed = True, t_runs = 0\<rparr>"
  have "timer_exec Timer ?es = Some ?s" by (simp add: timer_run_simps)
  then have "run timer_use Timer ?es ?s" by (rule timer_exec_run)
  with timer_calls_return [OF this] show ?thesis by (metis (no_types, lifting) timer.select_convs(5))
qed

text \<open>A timer must be stopped before it is started again.  A start while the thread of the last one waits joins this
  thread with the lock held the thread needs to go on: the call never returns.\<close>

lemma restart_hangs:
  assumes "run timer_use Timer es s" and "t_caller s = C_idle" and "t_worker s = W_wait"
    and "timer_step s (Call_start True) s1" and "timer_step s1 Caller_step s2" and "run timer_step s2 es' s3"
  shows "t_caller s3 = C_start_join"
proof -
  have "s1 = s\<lparr>t_caller := C_start_lock True, t_armed := True\<rparr>" using assms(4) by (auto elim: timer_step.cases)
  with assms(3,5) have "start_stuck s2"
    by (auto elim!: timer_step.cases simp: start_stuck_def timer_defs)
  with assms(6) have "start_stuck s3" by (rule stuck.run_keeps)
  then show ?thesis by (simp add: start_stuck_def)
qed

lemma restart_hangs_witness:
  "\<exists>s s1 s2. run timer_use Timer [Call_start True, Caller_step, Caller_step, Thread_step, Thread_step] s \<and>
     timer_step s (Call_start True) s1 \<and> timer_step s1 Caller_step s2 \<and> t_caller s2 = C_start_join"
    (is "\<exists>s s1 s2. run timer_use Timer ?es s \<and> _")
proof -
  let ?s = "\<lparr>m_locker = None, m_handler = True, m_stop = False, t_worker = W_wait, t_caller = C_idle, t_armed = True, t_runs = 0\<rparr>"
  let ?s1 = "?s\<lparr>t_caller := C_start_lock True, t_armed := True\<rparr>"
  have "timer_exec Timer ?es = Some ?s" by (simp add: timer_run_simps)
  then have r: "run timer_use Timer ?es ?s" by (rule timer_exec_run)
  have s1: "timer_step ?s (Call_start True) ?s1" by (rule call_start) simp
  have s2: "timer_step ?s1 Caller_step (timer_start True ?s1)" by (rule start_locks) simp_all
  have "t_caller (timer_start True ?s1) = C_start_join"
    by (rule restart_hangs [OF r _ _ s1 s2 run_Nil]) simp_all
  with r s1 s2 show ?thesis by blast
qed

end
