(* ===== verification/Request_Timer.thy ===== *)
theory Request_Timer
  imports Http_Request Utils_Timer
begin

text \<open>
  A request uses its timer as \<open>Utils_Timer\<close> asks for: \<^verbatim>\<open>on_connect\<close>, \<^verbatim>\<open>on_read\<close> and \<^verbatim>\<open>error_handler\<close> stop it before they start it
  again, and the two other places that start it find it disarmed: \<^verbatim>\<open>execute\<close>, which runs on a new request or behind
  \<^verbatim>\<open>error_handler\<close>, and \<^verbatim>\<open>on_resolve\<close>.
\<close>

definition disarmed_resolve :: "http_request \<Rightarrow> bool" where
  "disarmed_resolve r \<longleftrightarrow> (m_pending r = Some Resolve \<longrightarrow> m_timer r = None)"

lemma execute_disarmed:
  assumes "execute net cb (P, r) = (P', r')" and "m_timer r = None"
  shows "disarmed_resolve r'"
  using assms by (auto simp: execute_def use_pooled_def disarmed_resolve_def Let_def split: if_splits option.splits prod.splits)

lemma fail_disarmed:
  assumes "fail net e from (P, r) = (P', r')"
  shows "disarmed_resolve r' \<or> m_pending r' = m_pending r \<and> m_timer r' = None"
proof -
  let ?r = "r\<lparr>m_rerun := False, m_canceled := True, m_timer := None\<rparr>"
  obtain Q a b c where cl: "close net True (P, ?r) = (Q, ?r\<lparr>m_socket := a, m_ssl_socket := b, m_pool_obj := c\<rparr>)"
    by (rule close_frame)
  show ?thesis
  proof (cases "m_attempt r < m_attempts_count r")
    case True
    then show ?thesis using assms cl execute_disarmed [of net _ Q "?r\<lparr>m_socket := a, m_ssl_socket := b, m_pool_obj := c\<rparr>" P' r']
      by (simp add: fail_def)
  next
    case False
    then show ?thesis using assms cl
      by (auto simp: fail_def Let_def stop_ctx_def perform_callback_def)
  qed
qed

lemma error_handler_disarmed:
  assumes "error_handler net e from (P, r) = (b, P', r')" and "m_pending r = None"
  shows "if b then disarmed_resolve r' else r' = r"
proof -
  consider "b" "r' = r" | "\<not> b" "r' = r" | "b" "fail net e from (P, r) = (P', r')"
    using assms(1) by (auto simp: error_handler_def split: if_splits)
  then show ?thesis
  proof cases
    case 3
    then show ?thesis using fail_disarmed [OF 3(2)] assms(2) by (auto simp: disarmed_resolve_def)
  qed (use assms(2) in \<open>auto simp: disarmed_resolve_def\<close>)
qed

lemma timeout_disarmed:
  assumes "on_timeout net type (P, r) = (P', r')"
  shows "disarmed_resolve r'"
proof -
  obtain Q a b c where "close net True (P, r\<lparr>m_timer := None, m_canceled := True\<rparr>) =
      (Q, r\<lparr>m_timer := None, m_canceled := True, m_socket := a, m_ssl_socket := b, m_pool_obj := c\<rparr>)"
    by (rule close_frame)
  with assms show ?thesis
    by (auto simp: on_timeout_def Let_def disarmed_resolve_def stop_ctx_def perform_callback_def split: if_splits)
qed

lemma read_disarmed:
  assumes "on_read Parse net e res (P, r) = (P', r')" and "m_pending r = None"
  shows "disarmed_resolve r'"
proof (cases "error_handler net e ''on_read'' (P, r\<lparr>m_timer := None\<rparr>)")
  case (fields b P1 r1)
  note post = error_handler_disarmed [OF fields]
  show ?thesis
  proof (cases b)
    case True
    then show ?thesis using post fields assms by (simp add: on_read_def)
  next
    case False
    then have r1: "r1 = r\<lparr>m_timer := None\<rparr>" using post assms by simp
    obtain Q a b' c where "close net (\<not> keep_alive_of res) (P1, r1) = (Q, r1\<lparr>m_socket := a, m_ssl_socket := b', m_pool_obj := c\<rparr>)"
      by (rule close_frame)
    then show ?thesis using False fields assms r1
      by (auto simp: on_read_def disarmed_resolve_def stop_ctx_def perform_callback_def)
  qed
qed

lemma request_step_disarmed:
  assumes "request_step Parse r ev r'" shows "disarmed_resolve r'"
  using assms
proof (induction rule: request_step.induct)
  case (event ev r net P P' r')
  note ev = event(2) [unfolded request_event_def]
  show ?case
  proof (cases ev)
    case (On_resolve e h)
    then show ?thesis
      using ev error_handler_disarmed [of net e "''on_resolve''" P "r\<lparr>m_pending := None\<rparr>"]
      by (auto simp: on_resolve_def disarmed_resolve_def split: prod.splits bool.splits)
  next
    case (On_connect e h)
    then show ?thesis
      using ev error_handler_disarmed [of net e "''on_connect''" P "r\<lparr>m_pending := None, m_timer := None\<rparr>"]
      by (auto simp: on_connect_def disarmed_resolve_def split: prod.splits bool.splits if_splits)
  next
    case (On_handshake e)
    then show ?thesis
      using ev error_handler_disarmed [of net e "''on_handshake''" P "r\<lparr>m_pending := None\<rparr>"]
      by (auto simp: on_handshake_def disarmed_resolve_def split: prod.splits bool.splits)
  next
    case (On_write e)
    then show ?thesis
      using ev error_handler_disarmed [of net e "''on_write''" P "r\<lparr>m_pending := None\<rparr>"]
      by (auto simp: on_write_def disarmed_resolve_def split: prod.splits bool.splits)
  next
    case (On_read e res)
    then show ?thesis using ev read_disarmed [of Parse net e res P "r\<lparr>m_pending := None\<rparr>" P' r'] by simp
  next
    case On_timeout
    then show ?thesis using ev timeout_disarmed [of net "the (m_timer r)" P r P' r'] by simp
  qed
qed

interpretation disarmed: stable "request_step Parse" disarmed_resolve for Parse
  by unfold_locales (rule request_step_disarmed)

text \<open>Whenever \<^verbatim>\<open>on_resolve\<close> may run, the timer it starts is disarmed.\<close>

lemma on_resolve_starts_disarmed:
  assumes "execute net True (P, r) = (P', s)" and "m_timer r = None" and "run (request_step Parse) s es t"
    and "enabled (On_resolve e h) t"
  shows "m_timer t = None"
  using disarmed.run_keeps [OF assms(3) execute_disarmed [OF assms(1,2)]] assms(4)
  by (simp add: disarmed_resolve_def enabled_def)

end
