(* ===== verification/Spin_Lock.thy ===== *)
theory Spin_Lock
  imports Prelude
begin

text \<open>
  The recursive spin lock of \<^verbatim>\<open>src/src/sync/P2P/safe_ptr.h\<close>.  Every access to an atomic variable is one step, the
  steps of the threads are interleaved in any order, and the accesses are sequentially consistent.  A thread
  is a number.  How often a thread holds the lock is counted in its state: the count does not influence the
  steps, but says which calls a program may make.
\<close>

text \<open>A thread inside \<^verbatim>\<open>try_lock\<close> or \<^verbatim>\<open>unlock\<close>, before the access that is named.\<close>

datatype spin_pc =
    Spin_idle
  | Try_set
  | Try_store
  | Try_load
  | Try_count
  | Unlock_count
  | Unlock_store
  | Unlock_clear

record spin_thread =
  s_pc :: spin_pc
  s_held :: nat

record recursive_spinlock =
  lock_flag :: bool
  s_counter :: int
  s_owner :: "nat option"
  s_threads :: "nat \<Rightarrow> spin_thread"

definition recursive_spinlock_t :: recursive_spinlock where
  "recursive_spinlock_t = \<lparr>lock_flag = False, s_counter = 0, s_owner = None, s_threads = \<lambda>_. \<lparr>s_pc = Spin_idle, s_held = 0\<rparr>\<rparr>"

definition s_at :: "nat \<Rightarrow> spin_pc \<Rightarrow> recursive_spinlock \<Rightarrow> recursive_spinlock" where
  "s_at t p s = s\<lparr>s_threads := (s_threads s)(t := (s_threads s t)\<lparr>s_pc := p\<rparr>)\<rparr>"

definition s_hold :: "nat \<Rightarrow> (nat \<Rightarrow> nat) \<Rightarrow> recursive_spinlock \<Rightarrow> recursive_spinlock" where
  "s_hold t f s = s\<lparr>s_threads := (s_threads s)(t := (s_threads s t)\<lparr>s_held := f (s_held (s_threads s t))\<rparr>)\<rparr>"

text \<open>The next access of a thread: \<^verbatim>\<open>lock\<close> repeats \<^verbatim>\<open>try_lock\<close> until it succeeds.\<close>

definition spin_lock_step :: "nat \<Rightarrow> spin_pc \<Rightarrow> recursive_spinlock \<Rightarrow> recursive_spinlock" where
  "spin_lock_step t p s =
     (case p of
        Try_set \<Rightarrow> if lock_flag s then s_at t Try_load s else s_at t Try_store (s\<lparr>lock_flag := True\<rparr>)
      | Try_store \<Rightarrow> s_at t Try_count (s\<lparr>s_owner := Some t\<rparr>)
      | Try_load \<Rightarrow> if s_owner s \<noteq> Some t then s_at t Try_set s else s_at t Try_count s
      | Try_count \<Rightarrow> s_hold t Suc (s_at t Spin_idle (s\<lparr>s_counter := s_counter s + 1\<rparr>))
      | _ \<Rightarrow> s)"

definition spin_unlock_step :: "nat \<Rightarrow> spin_pc \<Rightarrow> recursive_spinlock \<Rightarrow> recursive_spinlock" where
  "spin_unlock_step t p s =
     (case p of
        Unlock_count \<Rightarrow>
          s_at t (if s_counter s - 1 = 0 then Unlock_store else Spin_idle) (s\<lparr>s_counter := s_counter s - 1\<rparr>)
      | Unlock_store \<Rightarrow> s_at t Unlock_clear (s\<lparr>s_owner := None\<rparr>)
      | Unlock_clear \<Rightarrow> s_at t Spin_idle (s\<lparr>lock_flag := False\<rparr>)
      | _ \<Rightarrow> s)"

datatype spin_event = Spin_lock nat | Spin_unlock nat | Spin_step nat

text \<open>A thread unlocks only what it holds.\<close>

inductive spin_step :: "recursive_spinlock \<Rightarrow> spin_event \<Rightarrow> recursive_spinlock \<Rightarrow> bool" where
  call_lock: "s_pc (s_threads s t) = Spin_idle \<Longrightarrow> spin_step s (Spin_lock t) (s_at t Try_set s)"
| call_unlock: "s_pc (s_threads s t) = Spin_idle \<Longrightarrow> s_held (s_threads s t) > 0 \<Longrightarrow>
    spin_step s (Spin_unlock t) (s_hold t (\<lambda>n. n - 1) (s_at t Unlock_count s))"
| lock_access: "s_pc (s_threads s t) = p \<Longrightarrow> p \<in> {Try_set, Try_store, Try_load, Try_count} \<Longrightarrow>
    spin_step s (Spin_step t) (spin_lock_step t p s)"
| unlock_access: "s_pc (s_threads s t) = p \<Longrightarrow> p \<in> {Unlock_count, Unlock_store, Unlock_clear} \<Longrightarrow>
    spin_step s (Spin_step t) (spin_unlock_step t p s)"

text \<open>A token one thread may have: when a thread takes a step, only its own claim to the token changes.\<close>

lemma token_upd:
  assumes "\<forall>u. own (th u) \<longleftrightarrow> ow = Some u" and "own x \<longleftrightarrow> ow' = Some t"
    and "ow' = ow \<or> ow \<in> {None, Some t} \<and> ow' \<in> {None, Some t}"
  shows "\<forall>u. own ((th(t := x)) u) \<longleftrightarrow> ow' = Some u"
  using assms by auto

text \<open>Who has set the flag, and how the counter and the owner agree with it.\<close>

definition s_owns :: "spin_thread \<Rightarrow> bool" where
  "s_owns th \<longleftrightarrow> s_held th > 0 \<or> s_pc th \<in> {Try_store, Try_count, Unlock_count, Unlock_store, Unlock_clear}"

definition s_owner_ok :: "nat \<Rightarrow> spin_thread \<Rightarrow> recursive_spinlock \<Rightarrow> bool" where
  "s_owner_ok t th s \<longleftrightarrow> lock_flag s \<and>
     s_counter s = int (s_held th) + (if s_pc th = Unlock_count then 1 else 0) \<and>
     (s_pc th \<in> {Try_store, Unlock_store, Unlock_clear} \<longrightarrow> s_held th = 0) \<and>
     s_owner s = (if s_pc th \<in> {Try_store, Unlock_clear} then None else Some t)"

definition spin_token :: "nat option \<Rightarrow> recursive_spinlock \<Rightarrow> bool" where
  "spin_token ow s \<longleftrightarrow>
     (\<forall>t. s_owns (s_threads s t) \<longleftrightarrow> ow = Some t) \<and>
     (case ow of None \<Rightarrow> s_counter s = 0 \<and> s_owner s = None | Some t \<Rightarrow> s_owner_ok t (s_threads s t) s)"

definition spin_inv :: "recursive_spinlock \<Rightarrow> bool" where
  "spin_inv s \<longleftrightarrow> (\<exists>ow. spin_token ow s)"

lemma spin_inv_init: "spin_inv recursive_spinlock_t"
  unfolding spin_inv_def by (rule exI [of _ None]) (simp add: spin_token_def recursive_spinlock_t_def s_owns_def)

text \<open>A step of a thread without the token, of one that takes or has it, and the step that gives it back.\<close>

lemma spin_token_other:
  assumes "spin_token ow s" and "ow \<noteq> Some t" and "s_threads s' = (s_threads s)(t := s_threads s' t)"
    and "\<not> s_owns (s_threads s' t)" and "lock_flag s' = lock_flag s" and "s_counter s' = s_counter s" and "s_owner s' = s_owner s"
  shows "spin_inv s'"
proof -
  have "\<forall>u. s_owns (((s_threads s)(t := s_threads s' t)) u) \<longleftrightarrow> ow = Some u"
    by (rule token_upd [of _ _ ow]) (use assms in \<open>simp_all add: spin_token_def\<close>)
  moreover have "u \<noteq> t \<Longrightarrow> s_threads s' u = s_threads s u" for u
    using assms(3) by (metis fun_upd_other)
  ultimately have "spin_token ow s'"
    using assms by (cases ow) (simp_all add: spin_token_def s_owner_ok_def)
  then show ?thesis by (auto simp: spin_inv_def)
qed

lemma spin_token_own:
  assumes "spin_token ow s" and "ow = None \<or> ow = Some t" and "s_threads s' = (s_threads s)(t := s_threads s' t)"
    and "s_owns (s_threads s' t)" and "s_owner_ok t (s_threads s' t) s'"
  shows "spin_inv s'"
proof -
  have "\<forall>u. s_owns (((s_threads s)(t := s_threads s' t)) u) \<longleftrightarrow> Some t = Some u"
    by (rule token_upd [of _ _ ow]) (use assms in \<open>auto simp: spin_token_def\<close>)
  with assms(3,5) have "spin_token (Some t) s'" by (simp add: spin_token_def)
  then show ?thesis by (auto simp: spin_inv_def)
qed

lemma spin_token_free:
  assumes "spin_token (Some t) s" and "s_threads s' = (s_threads s)(t := s_threads s' t)"
    and "\<not> s_owns (s_threads s' t)" and "s_counter s' = 0" and "s_owner s' = None"
  shows "spin_inv s'"
proof -
  have "\<forall>u. s_owns (((s_threads s)(t := s_threads s' t)) u) \<longleftrightarrow> None = Some u"
    by (rule token_upd [of _ _ "Some t"]) (use assms in \<open>auto simp: spin_token_def\<close>)
  with assms(2,4,5) have "spin_token None s'" by (simp add: spin_token_def)
  then show ?thesis by (auto simp: spin_inv_def)
qed

lemma spin_token_thread:
  assumes "spin_token ow s"
  shows "s_owns (s_threads s t) \<Longrightarrow> ow = Some t \<and> s_owner_ok t (s_threads s t) s"
    and "\<not> s_owns (s_threads s t) \<Longrightarrow> ow \<noteq> Some t \<and> s_owner s \<noteq> Some t"
  using assms by (auto simp: spin_token_def s_owner_ok_def split: option.splits if_splits)

lemma spin_token_flag: "spin_token ow s \<Longrightarrow> \<not> lock_flag s \<Longrightarrow> ow = None"
  by (auto simp: spin_token_def s_owner_ok_def split: option.splits)

lemmas spin_step_defs = spin_lock_step_def spin_unlock_step_def s_at_def s_hold_def s_owns_def s_owner_ok_def

lemma spin_step_keeps: "spin_step s e s' \<Longrightarrow> spin_inv s \<Longrightarrow> spin_inv s'"
proof (induction rule: spin_step.induct)
  case (call_lock s t)
  then obtain ow where ow: "spin_token ow s" by (auto simp: spin_inv_def)
  show ?case
  proof (cases "s_owns (s_threads s t)")
    case True
    then show ?thesis using spin_token_thread(1) [OF ow True] call_lock(1)
      by (intro spin_token_own [OF ow, of t]) (simp_all add: spin_step_defs)
  next
    case False
    then show ?thesis using spin_token_thread(2) [OF ow False]
      by (intro spin_token_other [OF ow, of t]) (simp_all add: spin_step_defs)
  qed
next
  case (call_unlock s t)
  then obtain ow where ow: "spin_token ow s" by (auto simp: spin_inv_def)
  from call_unlock have own: "s_owns (s_threads s t)" by (simp add: s_owns_def)
  show ?case using spin_token_thread(1) [OF ow own] call_unlock(1,2)
    by (intro spin_token_own [OF ow, of t]) (simp_all add: spin_step_defs of_nat_diff)
next
  case (lock_access s t p)
  then obtain ow where ow: "spin_token ow s" by (auto simp: spin_inv_def)
  show ?case
  proof (cases "s_owns (s_threads s t)")
    case True
    note own = spin_token_thread(1) [OF ow True]
    from lock_access(2) consider "p = Try_set" | "p = Try_store" | "p = Try_load" | "p = Try_count" by blast
    then show ?thesis
      by cases (use own True lock_access(1) in \<open>intro spin_token_own [OF ow, of t]; simp add: spin_step_defs\<close>)+
  next
    case False
    then have "p = Try_set \<or> p = Try_load" using lock_access(1,2) by (auto simp: s_owns_def)
    moreover have flag: "\<not> lock_flag s \<Longrightarrow> ow = None" using ow by (rule spin_token_flag)
    ultimately consider "p = Try_set" "\<not> lock_flag s" "ow = None" | "p = Try_set" "lock_flag s" | "p = Try_load" by blast
    then show ?thesis
    proof cases
      case 1
      then show ?thesis using False ow
        by (intro spin_token_own [OF ow, of t]) (simp_all add: spin_step_defs spin_token_def)
    qed (use spin_token_thread(2) [OF ow False] False in \<open>intro spin_token_other [OF ow, of t]; simp add: spin_step_defs\<close>)+
  qed
next
  case (unlock_access s t p)
  then obtain ow where ow: "spin_token ow s" by (auto simp: spin_inv_def)
  have own: "s_owns (s_threads s t)" using unlock_access by (auto simp: s_owns_def)
  note ok = spin_token_thread(1) [OF ow own]
  from unlock_access(2) consider "p = Unlock_clear" | "p = Unlock_store" | "p = Unlock_count" by blast
  then show ?case
  proof cases
    case 1
    then show ?thesis using ok ow unlock_access(1)
      by (intro spin_token_free [of t s]) (simp_all add: spin_step_defs)
  next
    case 2
    then show ?thesis using ok unlock_access(1)
      by (intro spin_token_own [OF ow, of t]) (simp_all add: spin_step_defs)
  next
    case 3
    then show ?thesis using ok unlock_access(1)
      by (intro spin_token_own [OF ow, of t]) (simp_all add: spin_step_defs)
  qed
qed

interpretation spin: stable spin_step spin_inv
  by unfold_locales (rule spin_step_keeps)

text \<open>At most one thread holds the recursive spin lock.\<close>

lemma spin_lock_exclusive:
  assumes "run spin_step recursive_spinlock_t es s" and "s_held (s_threads s t) > 0" and "s_held (s_threads s u) > 0"
  shows "t = u"
proof -
  obtain ow where "spin_token ow s"
    using spin.run_keeps [OF assms(1) spin_inv_init] by (auto simp: spin_inv_def)
  with assms(2,3) spin_token_thread(1) [of ow s] show ?thesis by (auto simp: s_owns_def)
qed

end
