(* ===== verification/Shared_Mutex.thy ===== *)
theory Shared_Mutex
  imports Spin_Lock
begin

text \<open>
  The class \<^verbatim>\<open>contention_free_shared_mutex\<close> of \<^verbatim>\<open>src/src/sync/P2P/safe_ptr.h\<close>.  A reader has a slot of an array of
  counters of its own and only looks at the flag of the writers; a writer sets the flag and then waits for every
  slot.  A reader that finds no slot takes the flag as a writer does.  As in \<^verbatim>\<open>recursive_spinlock_t\<close>, every access to a
  shared variable is one step and the steps of the threads are interleaved in any order; the accesses are
  sequentially consistent, which the source asks for where a slot and the flag are compared (the weaker orders are
  on variables only one thread writes at the time).  A failed \<^verbatim>\<open>assert\<close> is the program point \<open>Cf_abort\<close>.  The
  destructor, and slots kept for a mutex that is gone, are not part of the model.
\<close>

section \<open>State\<close>

text \<open>The program points are named after the access that comes next; an argument is the slot, a second one the
  \<^verbatim>\<open>recursion_depth\<close> that was read.\<close>

datatype cf_pc =
    Cf_idle
  | Cf_abort
  | Reg_load nat
  | Reg_cas nat
  | Reg_store nat
  | Sh_load nat
  | Sh_deeper nat int
  | Sh_enter nat int
  | Sh_check nat int
  | Sh_leave nat int
  | Sh_wait nat int
  | Sx_owner
  | Sx_cas
  | Sx_store
  | Sx_count
  | Ush_load nat
  | Ush_store nat int
  | Us_count
  | X_assert nat
  | X_owner
  | X_cas
  | X_store
  | X_scan nat
  | X_count
  | U_count
  | U_store
  | U_clear
  | Unreg_load nat
  | Unreg_dec nat

text \<open>A thread, with its entry in \<^verbatim>\<open>thread_local_index_hashmap\<close> and the locks it holds: shared ones through its slot
  and through the flag, and exclusive ones.\<close>

record cf_thread =
  c_pc :: cf_pc
  c_index :: "nat option"
  c_slot :: nat
  c_sx :: nat
  c_ex :: nat

text \<open>\<open>array_refs\<close> is the \<^verbatim>\<open>use_count\<close> of \<^verbatim>\<open>shared_locks_array_ptr\<close>: the mutex and the registered threads.\<close>

record cf_mutex =
  want_x_lock :: bool
  shared_locks_array :: "int list"
  array_refs :: nat
  owner_thread_id :: "nat option"
  recursive_xlock_count :: int
  c_threads :: "nat \<Rightarrow> cf_thread"

definition contention_free_shared_mutex :: "nat \<Rightarrow> cf_mutex" where
  "contention_free_shared_mutex contention_free_count =
     \<lparr>want_x_lock = False, shared_locks_array = replicate contention_free_count 0, array_refs = 1,
      owner_thread_id = None, recursive_xlock_count = 0,
      c_threads = \<lambda>_. \<lparr>c_pc = Cf_idle, c_index = None, c_slot = 0, c_sx = 0, c_ex = 0\<rparr>\<rparr>"

definition c_upd :: "nat \<Rightarrow> (cf_thread \<Rightarrow> cf_thread) \<Rightarrow> cf_mutex \<Rightarrow> cf_mutex" where
  "c_upd t f s = s\<lparr>c_threads := (c_threads s)(t := f (c_threads s t))\<rparr>"

abbreviation c_at :: "nat \<Rightarrow> cf_pc \<Rightarrow> cf_mutex \<Rightarrow> cf_mutex" where
  "c_at t p \<equiv> c_upd t (\<lambda>th. th\<lparr>c_pc := p\<rparr>)"

definition slot_store :: "nat \<Rightarrow> int \<Rightarrow> cf_mutex \<Rightarrow> cf_mutex" where
  "slot_store i v s = s\<lparr>shared_locks_array := (shared_locks_array s)[i := v]\<rparr>"

abbreviation slot_load :: "nat \<Rightarrow> cf_mutex \<Rightarrow> int" where
  "slot_load i s \<equiv> shared_locks_array s ! i"

section \<open>Operations\<close>

text \<open>\<^verbatim>\<open>register_thread\<close> looks for a free slot when the thread has none.\<close>

definition register_step :: "nat \<Rightarrow> cf_mutex \<Rightarrow> cf_mutex" where
  "register_step t s =
     (case c_pc (c_threads s t) of
        Reg_load i \<Rightarrow>
          if i \<ge> length (shared_locks_array s) then c_at t Sx_owner s
          else if slot_load i s = 0 then c_at t (Reg_cas i) s else c_at t (Reg_load (Suc i)) s
      | Reg_cas i \<Rightarrow>
          if slot_load i s = 0 then c_at t (Reg_store i) (slot_store i 1 s) else c_at t (Reg_load (Suc i)) s
      | Reg_store i \<Rightarrow>
          c_upd t (\<lambda>th. th\<lparr>c_index := Some i, c_pc := Sh_load i\<rparr>) (s\<lparr>array_refs := array_refs s + 1\<rparr>)
      | _ \<Rightarrow> s)"

definition unregister_thread :: "nat \<Rightarrow> nat \<Rightarrow> cf_mutex \<Rightarrow> cf_mutex" where
  "unregister_thread t i = c_at t (Unreg_load i)"

definition unregister_step :: "nat \<Rightarrow> cf_mutex \<Rightarrow> cf_mutex" where
  "unregister_step t s =
     (case c_pc (c_threads s t) of
        Unreg_load i \<Rightarrow> if slot_load i s = 1 then c_at t (Unreg_dec i) s else c_at t Cf_idle s
      | Unreg_dec i \<Rightarrow>
          c_upd t (\<lambda>th. th\<lparr>c_index := None, c_pc := Cf_idle\<rparr>)
            (slot_store i (slot_load i s - 1) (s\<lparr>array_refs := array_refs s - 1\<rparr>))
      | _ \<Rightarrow> s)"

definition lock_shared :: "nat \<Rightarrow> cf_mutex \<Rightarrow> cf_mutex" where
  "lock_shared t s =
     (case c_index (c_threads s t) of
        Some i \<Rightarrow> c_at t (Sh_load i) s
      | None \<Rightarrow>
          if array_refs s \<le> length (shared_locks_array s) then c_at t (Reg_load 0) s else c_at t Sx_owner s)"

text \<open>\<open>weak\<close> is a spurious failure of \<^verbatim>\<open>compare_exchange_weak\<close>.\<close>

definition lock_shared_step :: "nat \<Rightarrow> bool \<Rightarrow> cf_mutex \<Rightarrow> cf_mutex" where
  "lock_shared_step t weak s =
     (case c_pc (c_threads s t) of
        Sh_load i \<Rightarrow>
          let d = slot_load i s
          in if d < 1 then c_at t Cf_abort s
             else if d > 1 then c_at t (Sh_deeper i d) s else c_at t (Sh_enter i d) s
      | Sh_deeper i d \<Rightarrow> c_upd t (\<lambda>th. th\<lparr>c_slot := Suc (c_slot th), c_pc := Cf_idle\<rparr>) (slot_store i (d + 1) s)
      | Sh_enter i d \<Rightarrow> c_at t (Sh_check i d) (slot_store i (d + 1) s)
      | Sh_check i d \<Rightarrow>
          if want_x_lock s then c_at t (Sh_leave i d) s
          else c_upd t (\<lambda>th. th\<lparr>c_slot := Suc (c_slot th), c_pc := Cf_idle\<rparr>) s
      | Sh_leave i d \<Rightarrow> c_at t (Sh_wait i d) (slot_store i d s)
      | Sh_wait i d \<Rightarrow> if want_x_lock s then s else c_at t (Sh_enter i d) s
      | Sx_owner \<Rightarrow> if owner_thread_id s \<noteq> Some t then c_at t Sx_cas s else c_at t Sx_count s
      | Sx_cas \<Rightarrow> if weak \<or> want_x_lock s then s else c_at t Sx_store (s\<lparr>want_x_lock := True\<rparr>)
      | Sx_store \<Rightarrow> c_at t Sx_count (s\<lparr>owner_thread_id := Some t\<rparr>)
      | Sx_count \<Rightarrow>
          c_upd t (\<lambda>th. th\<lparr>c_sx := Suc (c_sx th), c_pc := Cf_idle\<rparr>)
            (s\<lparr>recursive_xlock_count := recursive_xlock_count s + 1\<rparr>)
      | _ \<Rightarrow> s)"

definition unlock_shared :: "nat \<Rightarrow> cf_mutex \<Rightarrow> cf_mutex" where
  "unlock_shared t s =
     (case c_index (c_threads s t) of
        Some i \<Rightarrow> c_upd t (\<lambda>th. th\<lparr>c_slot := c_slot th - 1, c_pc := Ush_load i\<rparr>) s
      | None \<Rightarrow> c_upd t (\<lambda>th. th\<lparr>c_sx := c_sx th - 1, c_pc := Us_count\<rparr>) s)"

text \<open>The last part of both \<^verbatim>\<open>unlock\<close> operations.\<close>

definition release_step :: "nat \<Rightarrow> cf_mutex \<Rightarrow> cf_mutex" where
  "release_step t s =
     (let c = recursive_xlock_count s - 1
      in c_at t (if c = 0 then U_store else Cf_idle) (s\<lparr>recursive_xlock_count := c\<rparr>))"

definition unlock_shared_step :: "nat \<Rightarrow> cf_mutex \<Rightarrow> cf_mutex" where
  "unlock_shared_step t s =
     (case c_pc (c_threads s t) of
        Ush_load i \<Rightarrow>
          let d = slot_load i s in if d \<le> 1 then c_at t Cf_abort s else c_at t (Ush_store i d) s
      | Ush_store i d \<Rightarrow> c_at t Cf_idle (slot_store i (d - 1) s)
      | Us_count \<Rightarrow> release_step t s
      | _ \<Rightarrow> s)"

definition lock_x :: "nat \<Rightarrow> cf_mutex \<Rightarrow> cf_mutex" where
  "lock_x t s = (case c_index (c_threads s t) of Some i \<Rightarrow> c_at t (X_assert i) s | None \<Rightarrow> c_at t X_owner s)"

definition lock_x_step :: "nat \<Rightarrow> bool \<Rightarrow> cf_mutex \<Rightarrow> cf_mutex" where
  "lock_x_step t weak s =
     (case c_pc (c_threads s t) of
        X_assert i \<Rightarrow> if slot_load i s \<noteq> 1 then c_at t Cf_abort s else c_at t X_owner s
      | X_owner \<Rightarrow> if owner_thread_id s \<noteq> Some t then c_at t X_cas s else c_at t X_count s
      | X_cas \<Rightarrow> if weak \<or> want_x_lock s then s else c_at t X_store (s\<lparr>want_x_lock := True\<rparr>)
      | X_store \<Rightarrow> c_at t (X_scan 0) (s\<lparr>owner_thread_id := Some t\<rparr>)
      | X_scan i \<Rightarrow>
          if i \<ge> length (shared_locks_array s) then c_at t X_count s
          else if slot_load i s > 1 then s else c_at t (X_scan (Suc i)) s
      | X_count \<Rightarrow>
          c_upd t (\<lambda>th. th\<lparr>c_ex := Suc (c_ex th), c_pc := Cf_idle\<rparr>)
            (s\<lparr>recursive_xlock_count := recursive_xlock_count s + 1\<rparr>)
      | _ \<Rightarrow> s)"

definition unlock_x :: "nat \<Rightarrow> cf_mutex \<Rightarrow> cf_mutex" where
  "unlock_x t = c_upd t (\<lambda>th. th\<lparr>c_ex := c_ex th - 1, c_pc := U_count\<rparr>)"

definition unlock_x_step :: "nat \<Rightarrow> cf_mutex \<Rightarrow> cf_mutex" where
  "unlock_x_step t s =
     (case c_pc (c_threads s t) of
        U_count \<Rightarrow> if recursive_xlock_count s \<le> 0 then c_at t Cf_abort s else release_step t s
      | U_store \<Rightarrow> c_at t U_clear (s\<lparr>owner_thread_id := None\<rparr>)
      | U_clear \<Rightarrow> c_at t Cf_idle (s\<lparr>want_x_lock := False\<rparr>)
      | _ \<Rightarrow> s)"

text \<open>The method a program point belongs to.\<close>

datatype cf_method = M_none | M_register | M_lock_shared | M_unlock_shared | M_lock | M_unlock | M_unregister

definition cf_method_of :: "cf_pc \<Rightarrow> cf_method" where
  "cf_method_of p =
     (case p of
        Cf_idle \<Rightarrow> M_none | Cf_abort \<Rightarrow> M_none
      | Reg_load _ \<Rightarrow> M_register | Reg_cas _ \<Rightarrow> M_register | Reg_store _ \<Rightarrow> M_register
      | Sh_load _ \<Rightarrow> M_lock_shared | Sh_deeper _ _ \<Rightarrow> M_lock_shared | Sh_enter _ _ \<Rightarrow> M_lock_shared
      | Sh_check _ _ \<Rightarrow> M_lock_shared | Sh_leave _ _ \<Rightarrow> M_lock_shared | Sh_wait _ _ \<Rightarrow> M_lock_shared
      | Sx_owner \<Rightarrow> M_lock_shared | Sx_cas \<Rightarrow> M_lock_shared | Sx_store \<Rightarrow> M_lock_shared | Sx_count \<Rightarrow> M_lock_shared
      | Ush_load _ \<Rightarrow> M_unlock_shared | Ush_store _ _ \<Rightarrow> M_unlock_shared | Us_count \<Rightarrow> M_unlock_shared
      | X_assert _ \<Rightarrow> M_lock | X_owner \<Rightarrow> M_lock | X_cas \<Rightarrow> M_lock | X_store \<Rightarrow> M_lock | X_scan _ \<Rightarrow> M_lock | X_count \<Rightarrow> M_lock
      | U_count \<Rightarrow> M_unlock | U_store \<Rightarrow> M_unlock | U_clear \<Rightarrow> M_unlock
      | Unreg_load _ \<Rightarrow> M_unregister | Unreg_dec _ \<Rightarrow> M_unregister)"

section \<open>Interleaved threads\<close>

datatype cf_event =
    Lock_shared nat | Unlock_shared nat | Lock_x nat | Unlock_x nat | Unregister nat
  | Access nat bool

text \<open>A thread calls an operation when it is in none.  It unlocks what it holds, does not ask for an exclusive lock
  while it holds a shared one (``forbidden upgrade S-lock to X-lock''), and unregisters only when registered.\<close>

inductive cf_step :: "cf_mutex \<Rightarrow> cf_event \<Rightarrow> cf_mutex \<Rightarrow> bool" where
  cf_lock_shared: "c_pc (c_threads s t) = Cf_idle \<Longrightarrow> cf_step s (Lock_shared t) (lock_shared t s)"
| cf_unlock_shared: "c_pc (c_threads s t) = Cf_idle \<Longrightarrow> c_slot (c_threads s t) > 0 \<or> c_sx (c_threads s t) > 0 \<Longrightarrow>
    cf_step s (Unlock_shared t) (unlock_shared t s)"
| cf_lock: "c_pc (c_threads s t) = Cf_idle \<Longrightarrow> c_slot (c_threads s t) = 0 \<Longrightarrow> c_sx (c_threads s t) = 0 \<Longrightarrow>
    cf_step s (Lock_x t) (lock_x t s)"
| cf_unlock: "c_pc (c_threads s t) = Cf_idle \<Longrightarrow> c_ex (c_threads s t) > 0 \<Longrightarrow>
    cf_step s (Unlock_x t) (unlock_x t s)"
| cf_unregister: "c_pc (c_threads s t) = Cf_idle \<Longrightarrow> c_index (c_threads s t) = Some i \<Longrightarrow>
    cf_step s (Unregister t) (unregister_thread t i s)"
| cf_register_access: "cf_method_of (c_pc (c_threads s t)) = M_register \<Longrightarrow> cf_step s (Access t w) (register_step t s)"
| cf_lock_shared_access: "cf_method_of (c_pc (c_threads s t)) = M_lock_shared \<Longrightarrow> cf_step s (Access t w) (lock_shared_step t w s)"
| cf_unlock_shared_access: "cf_method_of (c_pc (c_threads s t)) = M_unlock_shared \<Longrightarrow> cf_step s (Access t w) (unlock_shared_step t s)"
| cf_lock_access: "cf_method_of (c_pc (c_threads s t)) = M_lock \<Longrightarrow> cf_step s (Access t w) (lock_x_step t w s)"
| cf_unlock_access: "cf_method_of (c_pc (c_threads s t)) = M_unlock \<Longrightarrow> cf_step s (Access t w) (unlock_x_step t s)"
| cf_unregister_access: "cf_method_of (c_pc (c_threads s t)) = M_unregister \<Longrightarrow> cf_step s (Access t w) (unregister_step t s)"

section \<open>The invariant\<close>

subsection \<open>Slots\<close>

text \<open>The slot a thread has, also when it is about to note it, and the value it keeps there.\<close>

definition my_slot :: "cf_thread \<Rightarrow> nat option" where
  "my_slot th = (case c_pc th of Reg_store i \<Rightarrow> Some i | _ \<Rightarrow> c_index th)"

definition slot_value :: "cf_thread \<Rightarrow> int" where
  "slot_value th =
     (case c_pc th of
        Reg_store _ \<Rightarrow> 1 | Sh_check _ _ \<Rightarrow> 2 | Sh_leave _ _ \<Rightarrow> 2
      | Ush_load _ \<Rightarrow> 2 + int (c_slot th) | Ush_store _ _ \<Rightarrow> 2 + int (c_slot th)
      | _ \<Rightarrow> 1 + int (c_slot th))"

text \<open>What a thread knows at its program point.\<close>

definition pc_ok :: "cf_thread \<Rightarrow> bool" where
  "pc_ok th \<longleftrightarrow>
     (case c_pc th of
        Cf_idle \<Rightarrow> True | Cf_abort \<Rightarrow> False
      | Reg_load _ \<Rightarrow> c_index th = None | Reg_cas _ \<Rightarrow> c_index th = None | Reg_store _ \<Rightarrow> c_index th = None
      | Sh_load i \<Rightarrow> c_index th = Some i
      | Sh_deeper i d \<Rightarrow> c_index th = Some i \<and> c_slot th > 0 \<and> d = 1 + int (c_slot th)
      | Sh_enter i d \<Rightarrow> c_index th = Some i \<and> c_slot th = 0 \<and> d = 1
      | Sh_check i d \<Rightarrow> c_index th = Some i \<and> c_slot th = 0 \<and> d = 1
      | Sh_leave i d \<Rightarrow> c_index th = Some i \<and> c_slot th = 0 \<and> d = 1
      | Sh_wait i d \<Rightarrow> c_index th = Some i \<and> c_slot th = 0 \<and> d = 1
      | Sx_owner \<Rightarrow> c_index th = None | Sx_cas \<Rightarrow> c_index th = None
      | Sx_store \<Rightarrow> c_index th = None | Sx_count \<Rightarrow> c_index th = None
      | Ush_load i \<Rightarrow> c_index th = Some i
      | Ush_store i d \<Rightarrow> c_index th = Some i \<and> d = 2 + int (c_slot th)
      | Us_count \<Rightarrow> c_index th = None
      | X_assert i \<Rightarrow> c_index th = Some i \<and> c_slot th = 0 \<and> c_sx th = 0
      | X_owner \<Rightarrow> c_slot th = 0 \<and> c_sx th = 0 | X_cas \<Rightarrow> c_slot th = 0 \<and> c_sx th = 0
      | X_store \<Rightarrow> c_slot th = 0 \<and> c_sx th = 0 | X_scan _ \<Rightarrow> c_slot th = 0 \<and> c_sx th = 0
      | X_count \<Rightarrow> c_slot th = 0 \<and> c_sx th = 0
      | U_count \<Rightarrow> True | U_store \<Rightarrow> True | U_clear \<Rightarrow> True
      | Unreg_load i \<Rightarrow> c_index th = Some i
      | Unreg_dec i \<Rightarrow> c_index th = Some i \<and> c_slot th = 0) \<and>
     (c_index th = None \<longrightarrow> c_slot th = 0) \<and>
     (c_sx th > 0 \<longrightarrow> c_slot th = 0 \<and>
        (c_index th = None \<or>
           (case c_pc th of Sh_load _ \<Rightarrow> True | Sh_enter _ _ \<Rightarrow> True | Sh_check _ _ \<Rightarrow> True | Sh_leave _ _ \<Rightarrow> True
            | Sh_wait _ _ \<Rightarrow> True | _ \<Rightarrow> False)))"

definition slot_ok :: "int list \<Rightarrow> cf_thread \<Rightarrow> bool" where
  "slot_ok arr th \<longleftrightarrow> pc_ok th \<and> (\<forall>i. my_slot th = Some i \<longrightarrow> i < length arr \<and> arr ! i = slot_value th) \<and>
     (\<forall>i. c_pc th = Reg_cas i \<longrightarrow> i < length arr)"

definition slots_ok :: "cf_mutex \<Rightarrow> bool" where
  "slots_ok s \<longleftrightarrow> (\<forall>t. slot_ok (shared_locks_array s) (c_threads s t)) \<and>
     (\<forall>t u i. my_slot (c_threads s t) = Some i \<longrightarrow> my_slot (c_threads s u) = Some i \<longrightarrow> t = u)"

lemma slot_value_pos: "slot_value th \<ge> 1"
  by (simp add: slot_value_def split: cf_pc.split)

text \<open>A thread changes its own slot or one that is free.\<close>

lemma slots_ok_step:
  assumes ok: "slots_ok s" and thr: "c_threads s' = (c_threads s)(t := c_threads s' t)"
    and len: "length (shared_locks_array s') = length (shared_locks_array s)"
    and mine: "slot_ok (shared_locks_array s') (c_threads s' t)"
    and arr: "\<And>i. slot_load i s' \<noteq> slot_load i s \<Longrightarrow> my_slot (c_threads s t) = Some i \<or> slot_load i s = 0"
    and slot: "\<And>i. my_slot (c_threads s' t) = Some i \<Longrightarrow> my_slot (c_threads s t) = Some i \<or> slot_load i s = 0"
  shows "slots_ok s'"
proof -
  have other: "c_threads s' u = c_threads s u" if "u \<noteq> t" for u
    using thr that by (metis fun_upd_other)
  have taken: "slot_load i s \<noteq> 0" if "my_slot (c_threads s u) = Some i" for u i
    using ok that slot_value_pos [of "c_threads s u"] by (auto simp: slots_ok_def slot_ok_def)
  have distinct: "t = u" if "my_slot (c_threads s t) = Some i" "my_slot (c_threads s u) = Some i" for t u i
    using ok that by (auto simp: slots_ok_def)
  have kept: "slot_load i s' = slot_load i s" if "u \<noteq> t" "my_slot (c_threads s u) = Some i" for u i
    using arr [of i] taken distinct that by blast
  have "slot_ok (shared_locks_array s') (c_threads s' u)" for u
  proof (cases "u = t")
    case False
    moreover from ok have "slot_ok (shared_locks_array s) (c_threads s u)" by (simp add: slots_ok_def)
    ultimately show ?thesis using other [OF False] kept [OF False] len by (simp add: slot_ok_def)
  qed (simp add: mine)
  moreover have "u = v" if "my_slot (c_threads s' u) = Some i" "my_slot (c_threads s' v) = Some i" for u v i
    using that slot [of i] taken distinct other by metis
  ultimately show ?thesis by (auto simp: slots_ok_def)
qed

subsection \<open>The flag of the writers\<close>

definition c_owns :: "cf_thread \<Rightarrow> bool" where
  "c_owns th \<longleftrightarrow> c_sx th > 0 \<or> c_ex th > 0 \<or>
     (case c_pc th of
        Sx_store \<Rightarrow> True | Sx_count \<Rightarrow> True | Us_count \<Rightarrow> True | X_store \<Rightarrow> True | X_scan _ \<Rightarrow> True | X_count \<Rightarrow> True
      | U_count \<Rightarrow> True | U_store \<Rightarrow> True | U_clear \<Rightarrow> True | _ \<Rightarrow> False)"

definition c_fresh :: "cf_pc \<Rightarrow> bool" where
  "c_fresh p \<longleftrightarrow> (case p of Sx_store \<Rightarrow> True | X_store \<Rightarrow> True | X_scan _ \<Rightarrow> True | U_store \<Rightarrow> True | U_clear \<Rightarrow> True | _ \<Rightarrow> False)"

definition c_owner_ok :: "nat \<Rightarrow> cf_thread \<Rightarrow> cf_mutex \<Rightarrow> bool" where
  "c_owner_ok t th s \<longleftrightarrow> want_x_lock s \<and>
     recursive_xlock_count s = int (c_sx th) + int (c_ex th) + (if c_pc th = Us_count \<or> c_pc th = U_count then 1 else 0) \<and>
     (c_fresh (c_pc th) \<longrightarrow> c_sx th = 0 \<and> c_ex th = 0) \<and>
     owner_thread_id s = (if c_pc th = Sx_store \<or> c_pc th = X_store \<or> c_pc th = U_clear then None else Some t)"

definition cf_token :: "nat option \<Rightarrow> cf_mutex \<Rightarrow> bool" where
  "cf_token ow s \<longleftrightarrow> (\<forall>t. c_owns (c_threads s t) \<longleftrightarrow> ow = Some t) \<and>
     (case ow of
        None \<Rightarrow> recursive_xlock_count s = 0 \<and> owner_thread_id s = None
      | Some t \<Rightarrow> c_owner_ok t (c_threads s t) s)"

definition same_flag :: "cf_mutex \<Rightarrow> cf_mutex \<Rightarrow> bool" where
  "same_flag s s' \<longleftrightarrow> want_x_lock s' = want_x_lock s \<and> recursive_xlock_count s' = recursive_xlock_count s \<and>
     owner_thread_id s' = owner_thread_id s"

lemma cf_token_other:
  assumes "cf_token ow s" and "ow \<noteq> Some t" and "c_threads s' = (c_threads s)(t := c_threads s' t)"
    and "\<not> c_owns (c_threads s' t)" and "same_flag s s'"
  shows "cf_token ow s'"
proof -
  have "\<forall>u. c_owns (((c_threads s)(t := c_threads s' t)) u) \<longleftrightarrow> ow = Some u"
    by (rule token_upd [of _ _ ow]) (use assms in \<open>simp_all add: cf_token_def\<close>)
  moreover have "u \<noteq> t \<Longrightarrow> c_threads s' u = c_threads s u" for u
    using assms(3) by (metis fun_upd_other)
  ultimately show ?thesis
    using assms by (cases ow) (simp_all add: cf_token_def c_owner_ok_def same_flag_def)
qed

lemma cf_token_own:
  assumes "cf_token ow s" and "ow = None \<or> ow = Some t" and "c_threads s' = (c_threads s)(t := c_threads s' t)"
    and "c_owns (c_threads s' t)" and "c_owner_ok t (c_threads s' t) s'"
  shows "cf_token (Some t) s'"
proof -
  have "\<forall>u. c_owns (((c_threads s)(t := c_threads s' t)) u) \<longleftrightarrow> Some t = Some u"
    by (rule token_upd [of _ _ ow]) (use assms in \<open>auto simp: cf_token_def\<close>)
  with assms(3,5) show ?thesis by (simp add: cf_token_def)
qed

lemma cf_token_free:
  assumes "cf_token (Some t) s" and "c_threads s' = (c_threads s)(t := c_threads s' t)"
    and "\<not> c_owns (c_threads s' t)" and "recursive_xlock_count s' = 0" and "owner_thread_id s' = None"
  shows "cf_token None s'"
proof -
  have "\<forall>u. c_owns (((c_threads s)(t := c_threads s' t)) u) \<longleftrightarrow> None = Some u"
    by (rule token_upd [of _ _ "Some t"]) (use assms in \<open>auto simp: cf_token_def\<close>)
  with assms(2,4,5) show ?thesis by (simp add: cf_token_def)
qed

lemma cf_token_thread:
  assumes "cf_token ow s"
  shows "c_owns (c_threads s t) \<Longrightarrow> ow = Some t \<and> c_owner_ok t (c_threads s t) s"
    and "\<not> c_owns (c_threads s t) \<Longrightarrow> ow \<noteq> Some t \<and> owner_thread_id s \<noteq> Some t"
  using assms by (auto simp: cf_token_def c_owner_ok_def split: option.splits if_splits)

lemma cf_token_flag: "cf_token ow s \<Longrightarrow> \<not> want_x_lock s \<Longrightarrow> ow = None"
  by (auto simp: cf_token_def c_owner_ok_def split: option.splits)

text \<open>A step that leaves the flag as it is, of a thread whose claim to it does not change.\<close>

lemma cf_token_same:
  assumes "cf_token ow s" and "c_threads s' = (c_threads s)(t := c_threads s' t)" and "same_flag s s'"
    and "c_owns (c_threads s' t) = c_owns (c_threads s t)"
    and "c_owns (c_threads s t) \<Longrightarrow> c_owner_ok t (c_threads s t) s \<Longrightarrow> c_owner_ok t (c_threads s' t) s'"
  shows "cf_token ow s'"
proof (cases "c_owns (c_threads s t)")
  case True
  with cf_token_own [OF assms(1) _ assms(2)] cf_token_thread(1) [OF assms(1) True] assms(4,5) show ?thesis by simp
next
  case False
  with cf_token_other [OF assms(1) _ assms(2) _ assms(3)] cf_token_thread(2) [OF assms(1) False] assms(4) show ?thesis by simp
qed

subsection \<open>Writers and readers\<close>

text \<open>A writer has the lock, or has looked at the slots below some number.\<close>

definition excludes :: "cf_thread \<Rightarrow> nat \<Rightarrow> bool" where
  "excludes th i \<longleftrightarrow> c_ex th > 0 \<or> (case c_pc th of X_count \<Rightarrow> True | X_scan k \<Rightarrow> i < k | _ \<Rightarrow> False)"

definition readers_out :: "cf_mutex \<Rightarrow> bool" where
  "readers_out s \<longleftrightarrow> (\<forall>t u i. c_index (c_threads s u) = Some i \<longrightarrow> excludes (c_threads s t) i \<longrightarrow> c_slot (c_threads s u) = 0)"

lemma excludes_owns: "excludes th i \<Longrightarrow> c_owns th"
  by (auto simp: excludes_def c_owns_def split: cf_pc.splits)

lemma readers_out_step:
  assumes ok: "readers_out s" and thr: "c_threads s' = (c_threads s)(t := c_threads s' t)"
    and inside: "\<And>i. c_index (c_threads s' t) = Some i \<Longrightarrow> c_slot (c_threads s' t) > 0 \<Longrightarrow>
       c_slot (c_threads s t) > 0 \<and> c_index (c_threads s t) = Some i \<or> (\<forall>u. \<not> c_owns (c_threads s' u))"
    and out: "\<And>u i. excludes (c_threads s' t) i \<Longrightarrow> \<not> excludes (c_threads s t) i \<Longrightarrow>
       c_index (c_threads s' u) = Some i \<Longrightarrow> c_slot (c_threads s' u) = 0"
  shows "readers_out s'"
proof -
  have other: "c_threads s' u = c_threads s u" if "u \<noteq> t" for u
    using thr that by (metis fun_upd_other)
  have "c_slot (c_threads s' u) = 0" if index: "c_index (c_threads s' u) = Some i" and ex: "excludes (c_threads s' v) i" for u v i
  proof (rule ccontr)
    assume "c_slot (c_threads s' u) \<noteq> 0"
    then have pos: "c_slot (c_threads s' u) > 0" by simp
    have own: "c_owns (c_threads s' v)" using ex by (rule excludes_owns)
    have before: "c_slot (c_threads s u) > 0 \<and> c_index (c_threads s u) = Some i"
      using inside [of i] index pos own other [of u] by (cases "u = t") auto
    have "excludes (c_threads s v) i"
      using out [of i u] index pos ex other [of v] by (cases "v = t") auto
    with ok before show False by (auto simp: readers_out_def)
  qed
  then show ?thesis by (auto simp: readers_out_def)
qed

definition cf_inv :: "cf_mutex \<Rightarrow> bool" where
  "cf_inv s \<longleftrightarrow> slots_ok s \<and> readers_out s \<and> (\<exists>ow. cf_token ow s)"

lemma cf_inv_init: "cf_inv (contention_free_shared_mutex n)"
  unfolding cf_inv_def
  by (auto simp: contention_free_shared_mutex_def slots_ok_def slot_ok_def pc_ok_def my_slot_def readers_out_def cf_token_def
      c_owns_def intro!: exI [of _ None])

section \<open>Every step keeps the invariant\<close>

lemmas cf_simps = c_upd_def slot_store_def slot_ok_def my_slot_def slot_value_def pc_ok_def c_owns_def c_owner_ok_def c_fresh_def
  excludes_def same_flag_def

lemma cf_inv_slot: "cf_inv s \<Longrightarrow> slot_ok (shared_locks_array s) (c_threads s t)"
  by (simp add: cf_inv_def slots_ok_def)

text \<open>A step that leaves the flag, the counter and the owner alone.\<close>

lemma cf_plain_step:
  assumes "cf_inv s" and thr: "c_threads s' = (c_threads s)(t := c_threads s' t)" and flag: "same_flag s s'"
    and len: "length (shared_locks_array s') = length (shared_locks_array s)"
    and mine: "slot_ok (shared_locks_array s') (c_threads s' t)"
    and arr: "\<And>i. slot_load i s' \<noteq> slot_load i s \<Longrightarrow> my_slot (c_threads s t) = Some i \<or> slot_load i s = 0"
    and slot: "\<And>i. my_slot (c_threads s' t) = Some i \<Longrightarrow> my_slot (c_threads s t) = Some i \<or> slot_load i s = 0"
    and own: "c_owns (c_threads s' t) = c_owns (c_threads s t)"
    and owner: "c_owns (c_threads s t) \<Longrightarrow> c_owner_ok t (c_threads s t) s \<Longrightarrow> c_owner_ok t (c_threads s' t) s'"
    and inside: "\<And>i. c_index (c_threads s' t) = Some i \<Longrightarrow> c_slot (c_threads s' t) > 0 \<Longrightarrow>
       c_slot (c_threads s t) > 0 \<and> c_index (c_threads s t) = Some i \<or> \<not> want_x_lock s'"
    and out: "\<And>u i. excludes (c_threads s' t) i \<Longrightarrow> \<not> excludes (c_threads s t) i \<Longrightarrow>
       c_index (c_threads s' u) = Some i \<Longrightarrow> c_slot (c_threads s' u) = 0"
  shows "cf_inv s'"
proof -
  from assms(1) obtain ow where ow: "slots_ok s" "readers_out s" "cf_token ow s" by (auto simp: cf_inv_def)
  have tok: "cf_token ow s'" using ow(3) thr flag own owner by (rule cf_token_same)
  have "\<forall>u. \<not> c_owns (c_threads s' u)" if "\<not> want_x_lock s'"
    using cf_token_flag [OF tok that] tok by (simp add: cf_token_def)
  then have "readers_out s'"
    using inside by (intro readers_out_step [OF ow(2) thr _ out]) blast+
  moreover have "slots_ok s'" by (rule slots_ok_step [OF ow(1) thr len mine arr slot])
  ultimately show ?thesis using tok by (auto simp: cf_inv_def)
qed

lemma nth_list_update_neq': "xs[i := v] ! j \<noteq> xs ! j \<Longrightarrow> j = i"
  by (metis nth_list_update_neq)

text \<open>A step that only moves a thread to another program point.\<close>

lemma cf_goto:
  assumes inv: "cf_inv s" and th: "c_threads s t = th"
    and ok: "slot_ok (shared_locks_array s) (th\<lparr>c_pc := q\<rparr>)" and slot: "my_slot (th\<lparr>c_pc := q\<rparr>) = my_slot th"
    and own: "c_owns (th\<lparr>c_pc := q\<rparr>) = c_owns th"
    and owner: "c_owns th \<Longrightarrow> c_owner_ok t th s \<Longrightarrow> c_owner_ok t (th\<lparr>c_pc := q\<rparr>) s"
    and out: "\<And>i. excludes (th\<lparr>c_pc := q\<rparr>) i \<Longrightarrow> excludes th i"
  shows "cf_inv (c_at t q s)"
  by (intro cf_plain_step [OF inv, of _ t])
     (use assms in \<open>auto simp: c_upd_def same_flag_def c_owner_ok_def\<close>)

lemma register_keeps:
  assumes inv: "cf_inv s" and m: "cf_method_of (c_pc (c_threads s t)) = M_register"
  shows "cf_inv (register_step t s)"
proof -
  note ok = cf_inv_slot [OF inv, of t]
  from m consider i where "c_pc (c_threads s t) = Reg_load i" | i where "c_pc (c_threads s t) = Reg_cas i"
    | i where "c_pc (c_threads s t) = Reg_store i" by (cases "c_pc (c_threads s t)") (simp_all add: cf_method_of_def)
  then show ?thesis
  proof cases
    case (1 i)
    have goto: "cf_inv (c_at t q s)"
      if "q = Sx_owner \<or> q = Reg_cas i \<and> i < length (shared_locks_array s) \<or> q = Reg_load (Suc i)" for q
      by (intro cf_goto [OF inv refl]) (use ok 1 that in \<open>auto simp: cf_simps\<close>)
    then show ?thesis using 1 by (simp add: register_step_def)
  next
    case (2 i)
    have "cf_inv (c_at t (Reg_load (Suc i)) s)"
      by (intro cf_goto [OF inv refl]) (use ok 2 in \<open>auto simp: cf_simps\<close>)
    moreover have "cf_inv (c_at t (Reg_store i) (slot_store i 1 s))" if "slot_load i s = 0"
      by (intro cf_plain_step [OF inv, of _ t]) (use ok 2 that in \<open>auto simp: cf_simps dest!: nth_list_update_neq'\<close>)
    ultimately show ?thesis using 2 by (simp add: register_step_def)
  next
    case (3 i)
    then show ?thesis using ok
      by (intro cf_plain_step [OF inv, of _ t]) (auto simp: register_step_def cf_simps)
  qed
qed

lemma unregister_keeps:
  assumes inv: "cf_inv s" and m: "cf_method_of (c_pc (c_threads s t)) = M_unregister"
  shows "cf_inv (unregister_step t s)"
proof -
  note ok = cf_inv_slot [OF inv, of t]
  from m consider i where "c_pc (c_threads s t) = Unreg_load i" | i where "c_pc (c_threads s t) = Unreg_dec i"
    by (cases "c_pc (c_threads s t)") (simp_all add: cf_method_of_def)
  then show ?thesis
  proof cases
    case (1 i)
    have "cf_inv (c_at t q s)" if "q = Cf_idle \<or> q = Unreg_dec i \<and> slot_load i s = 1" for q
      by (intro cf_goto [OF inv refl]) (use ok 1 that in \<open>auto simp: cf_simps\<close>)
    then show ?thesis using 1 by (simp add: unregister_step_def)
  next
    case (2 i)
    then show ?thesis using ok
      by (intro cf_plain_step [OF inv, of _ t]) (auto simp: unregister_step_def cf_simps dest!: nth_list_update_neq')
  qed
qed

lemma unlock_shared_keeps:
  assumes inv: "cf_inv s" and m: "cf_method_of (c_pc (c_threads s t)) = M_unlock_shared" and "c_pc (c_threads s t) \<noteq> Us_count"
  shows "cf_inv (unlock_shared_step t s)"
proof -
  note ok = cf_inv_slot [OF inv, of t]
  from m assms(3) consider i where "c_pc (c_threads s t) = Ush_load i" | i d where "c_pc (c_threads s t) = Ush_store i d"
    by (cases "c_pc (c_threads s t)") (simp_all add: cf_method_of_def)
  then show ?thesis
  proof cases
    case (1 i)
    have "cf_inv (c_at t (Ush_store i (slot_load i s)) s)"
      by (intro cf_goto [OF inv refl]) (use ok 1 in \<open>auto simp: cf_simps\<close>)
    then show ?thesis using 1 ok by (auto simp: unlock_shared_step_def cf_simps)
  next
    case (2 i d)
    then show ?thesis using ok
      by (intro cf_plain_step [OF inv, of _ t]) (auto simp: unlock_shared_step_def cf_simps dest!: nth_list_update_neq')
  qed
qed

text \<open>A step that changes the flag, the counter or the owner and leaves the slots alone.\<close>

lemma cf_flag_step:
  assumes inv: "cf_inv s" and thr: "c_threads s' = (c_threads s)(t := c_threads s' t)"
    and arr: "shared_locks_array s' = shared_locks_array s" and mine: "slot_ok (shared_locks_array s) (c_threads s' t)"
    and slot: "my_slot (c_threads s' t) = my_slot (c_threads s t)"
    and index: "c_index (c_threads s' t) = c_index (c_threads s t)" "c_slot (c_threads s' t) = c_slot (c_threads s t)"
    and tok: "\<And>ow. cf_token ow s \<Longrightarrow> \<exists>ow'. cf_token ow' s'"
    and out: "\<And>i. excludes (c_threads s' t) i \<Longrightarrow> excludes (c_threads s t) i"
  shows "cf_inv s'"
proof -
  from inv obtain ow where ow: "slots_ok s" "readers_out s" "cf_token ow s" by (auto simp: cf_inv_def)
  have "slots_ok s'" by (rule slots_ok_step [OF ow(1) thr]) (use arr mine slot in simp_all)
  moreover have "readers_out s'" by (rule readers_out_step [OF ow(2) thr]) (use index out in auto)
  ultimately show ?thesis using tok [OF ow(3)] by (simp add: cf_inv_def)
qed

text \<open>The flag is taken, a lock is counted, and the flag is given back.\<close>

lemma flag_taken:
  assumes inv: "cf_inv s" and "\<not> want_x_lock s" and "c_pc (c_threads s t) = Sx_cas \<and> q = Sx_store \<or> c_pc (c_threads s t) = X_cas \<and> q = X_store"
  shows "cf_inv (c_at t q (s\<lparr>want_x_lock := True\<rparr>))"
proof (rule cf_flag_step [OF inv, of _ t])
  fix ow assume ow: "cf_token ow s"
  have None: "ow = None" using ow assms(2) by (rule cf_token_flag)
  with ow have "\<not> c_owns (c_threads s t)" "recursive_xlock_count s = 0" "owner_thread_id s = None" by (simp_all add: cf_token_def)
  with assms(3) have "cf_token (Some t) (c_at t q (s\<lparr>want_x_lock := True\<rparr>))"
    by (intro cf_token_own [OF ow, of t]) (use None in \<open>auto simp: cf_simps\<close>)
  then show "\<exists>ow'. cf_token ow' (c_at t q (s\<lparr>want_x_lock := True\<rparr>))" ..
qed (use cf_inv_slot [OF inv, of t] assms(3) in \<open>auto simp: cf_simps\<close>)

lemma owner_stored:
  assumes inv: "cf_inv s" and "c_pc (c_threads s t) = Sx_store \<and> q = Sx_count \<or> c_pc (c_threads s t) = X_store \<and> q = X_scan 0"
  shows "cf_inv (c_at t q (s\<lparr>owner_thread_id := Some t\<rparr>))"
proof (rule cf_flag_step [OF inv, of _ t])
  fix ow assume ow: "cf_token ow s"
  have own: "c_owns (c_threads s t)" using assms(2) by (auto simp: c_owns_def)
  note tok = cf_token_thread(1) [OF ow own]
  with assms(2) have "cf_token (Some t) (c_at t q (s\<lparr>owner_thread_id := Some t\<rparr>))"
    by (intro cf_token_own [OF ow, of t]) (auto simp: cf_simps)
  then show "\<exists>ow'. cf_token ow' (c_at t q (s\<lparr>owner_thread_id := Some t\<rparr>))" ..
qed (use cf_inv_slot [OF inv, of t] assms(2) in \<open>auto simp: cf_simps\<close>)

lemma shared_counted:
  assumes inv: "cf_inv s" and pc: "c_pc (c_threads s t) = Sx_count"
  shows "cf_inv (c_upd t (\<lambda>th. th\<lparr>c_sx := Suc (c_sx th), c_pc := Cf_idle\<rparr>)
           (s\<lparr>recursive_xlock_count := recursive_xlock_count s + 1\<rparr>))" (is "cf_inv ?s'")
proof (rule cf_flag_step [OF inv, of _ t])
  fix ow assume ow: "cf_token ow s"
  have own: "c_owns (c_threads s t)" using pc by (auto simp: c_owns_def)
  note tok = cf_token_thread(1) [OF ow own]
  with pc have "cf_token (Some t) ?s'"
    by (intro cf_token_own [OF ow, of t]) (auto simp: cf_simps)
  then show "\<exists>ow'. cf_token ow' ?s'" ..
qed (use cf_inv_slot [OF inv, of t] pc in \<open>auto simp: cf_simps\<close>)

lemma exclusive_counted:
  assumes inv: "cf_inv s" and pc: "c_pc (c_threads s t) = X_count"
  shows "cf_inv (c_upd t (\<lambda>th. th\<lparr>c_ex := Suc (c_ex th), c_pc := Cf_idle\<rparr>)
           (s\<lparr>recursive_xlock_count := recursive_xlock_count s + 1\<rparr>))" (is "cf_inv ?s'")
proof (rule cf_flag_step [OF inv, of _ t])
  fix ow assume ow: "cf_token ow s"
  have own: "c_owns (c_threads s t)" using pc by (auto simp: c_owns_def)
  note tok = cf_token_thread(1) [OF ow own]
  with pc have "cf_token (Some t) ?s'"
    by (intro cf_token_own [OF ow, of t]) (auto simp: cf_simps)
  then show "\<exists>ow'. cf_token ow' ?s'" ..
qed (use cf_inv_slot [OF inv, of t] pc in \<open>auto simp: cf_simps\<close>)

lemma release_keeps:
  assumes inv: "cf_inv s" and pc: "c_pc (c_threads s t) = Us_count \<or> c_pc (c_threads s t) = U_count"
  shows "cf_inv (release_step t s)" and "recursive_xlock_count s > 0"
proof -
  from inv obtain ow where ow: "cf_token ow s" by (auto simp: cf_inv_def)
  have own: "c_owns (c_threads s t)" using pc by (auto simp: c_owns_def)
  have ok: "c_owner_ok t (c_threads s t) s" using cf_token_thread(1) [OF ow own] by simp
  then show "recursive_xlock_count s > 0" using pc by (auto simp: c_owner_ok_def)
  show "cf_inv (release_step t s)"
  proof (rule cf_flag_step [OF inv, of _ t])
    fix ow assume ow: "cf_token ow s"
    note tok = cf_token_thread(1) [OF ow own]
    with pc have "cf_token (Some t) (release_step t s)"
      by (intro cf_token_own [OF ow, of t]) (auto simp: release_step_def Let_def cf_simps)
    then show "\<exists>ow'. cf_token ow' (release_step t s)" ..
  qed (use cf_inv_slot [OF inv, of t] pc in \<open>auto simp: release_step_def Let_def cf_simps split: if_splits\<close>)
qed

lemma unlock_x_keeps:
  assumes inv: "cf_inv s" and m: "cf_method_of (c_pc (c_threads s t)) = M_unlock"
  shows "cf_inv (unlock_x_step t s)"
proof -
  from m consider "c_pc (c_threads s t) = U_count" | "c_pc (c_threads s t) = U_store" | "c_pc (c_threads s t) = U_clear"
    by (cases "c_pc (c_threads s t)") (simp_all add: cf_method_of_def)
  then show ?thesis
  proof cases
    case 1
    then show ?thesis using release_keeps [OF inv, of t] by (simp add: unlock_x_step_def)
  next
    case 2
    then have own: "c_owns (c_threads s t)" by (simp add: c_owns_def)
    show ?thesis
    proof (rule cf_flag_step [OF inv, of _ t])
      fix ow assume ow: "cf_token ow s"
      note tok = cf_token_thread(1) [OF ow own]
      with 2 have "cf_token (Some t) (unlock_x_step t s)"
        by (intro cf_token_own [OF ow, of t]) (auto simp: unlock_x_step_def cf_simps)
      then show "\<exists>ow'. cf_token ow' (unlock_x_step t s)" ..
    qed (use cf_inv_slot [OF inv, of t] 2 in \<open>auto simp: unlock_x_step_def cf_simps\<close>)
  next
    case 3
    then have own: "c_owns (c_threads s t)" by (simp add: c_owns_def)
    show ?thesis
    proof (rule cf_flag_step [OF inv, of _ t])
      fix ow assume ow: "cf_token ow s"
      note tok = cf_token_thread(1) [OF ow own]
      with 3 ow have "cf_token None (unlock_x_step t s)"
        by (intro cf_token_free [of t s]) (auto simp: unlock_x_step_def cf_simps)
      then show "\<exists>ow'. cf_token ow' (unlock_x_step t s)" ..
    qed (use cf_inv_slot [OF inv, of t] 3 in \<open>auto simp: unlock_x_step_def cf_simps\<close>)
  qed
qed

lemma reader_enters:
  assumes inv: "cf_inv s" and pc: "c_pc (c_threads s t) = Sh_check i d" and free: "\<not> want_x_lock s"
  shows "cf_inv (c_upd t (\<lambda>th. th\<lparr>c_slot := Suc (c_slot th), c_pc := Cf_idle\<rparr>) s)"
proof -
  from inv obtain ow where ow: "cf_token ow s" by (auto simp: cf_inv_def)
  then have "\<not> c_owns (c_threads s t)" using cf_token_flag [OF ow free] by (simp add: cf_token_def)
  then show ?thesis
    by (intro cf_plain_step [OF inv, of _ t]) (use cf_inv_slot [OF inv, of t] pc free in \<open>auto simp: cf_simps\<close>)
qed

lemma owner_seen: "cf_inv s \<Longrightarrow> owner_thread_id s = Some t \<Longrightarrow> c_owns (c_threads s t)"
  using cf_token_thread(2) by (auto simp: cf_inv_def)

lemma lock_shared_keeps:
  assumes inv: "cf_inv s" and m: "cf_method_of (c_pc (c_threads s t)) = M_lock_shared"
  shows "cf_inv (lock_shared_step t w s)"
proof -
  note ok = cf_inv_slot [OF inv, of t]
  from m consider i where "c_pc (c_threads s t) = Sh_load i" | i d where "c_pc (c_threads s t) = Sh_deeper i d"
    | i d where "c_pc (c_threads s t) = Sh_enter i d" | i d where "c_pc (c_threads s t) = Sh_check i d"
    | i d where "c_pc (c_threads s t) = Sh_leave i d" | i d where "c_pc (c_threads s t) = Sh_wait i d"
    | "c_pc (c_threads s t) = Sx_owner" | "c_pc (c_threads s t) = Sx_cas" | "c_pc (c_threads s t) = Sx_store"
    | "c_pc (c_threads s t) = Sx_count"
    by (cases "c_pc (c_threads s t)") (simp_all add: cf_method_of_def)
  then show ?thesis
  proof cases
    case (1 i)
    have "cf_inv (c_at t q s)"
      if "q = Sh_deeper i (slot_load i s) \<and> slot_load i s > 1 \<or> q = Sh_enter i (slot_load i s) \<and> slot_load i s = 1" for q
      by (intro cf_goto [OF inv refl]) (use ok 1 that in \<open>auto simp: cf_simps\<close>)
    moreover have "slot_load i s \<ge> 1" using ok 1 by (auto simp: cf_simps)
    ultimately show ?thesis using 1 by (simp add: lock_shared_step_def Let_def)
  next
    case (2 i d)
    then show ?thesis using ok
      by (intro cf_plain_step [OF inv, of _ t]) (auto simp: lock_shared_step_def cf_simps dest!: nth_list_update_neq')
  next
    case (3 i d)
    then show ?thesis using ok
      by (intro cf_plain_step [OF inv, of _ t]) (auto simp: lock_shared_step_def cf_simps dest!: nth_list_update_neq')
  next
    case (4 i d)
    have "cf_inv (c_at t (Sh_leave i d) s)"
      by (intro cf_goto [OF inv refl]) (use ok 4 in \<open>auto simp: cf_simps\<close>)
    then show ?thesis using 4 reader_enters [OF inv 4] by (simp add: lock_shared_step_def)
  next
    case (5 i d)
    then show ?thesis using ok
      by (intro cf_plain_step [OF inv, of _ t]) (auto simp: lock_shared_step_def cf_simps dest!: nth_list_update_neq')
  next
    case (6 i d)
    have "cf_inv (c_at t (Sh_enter i d) s)"
      by (intro cf_goto [OF inv refl]) (use ok 6 in \<open>auto simp: cf_simps\<close>)
    then show ?thesis using 6 inv by (simp add: lock_shared_step_def)
  next
    case 7
    have "cf_inv (c_at t q s)" if "q = Sx_cas \<or> q = Sx_count \<and> c_owns (c_threads s t)" for q
      by (intro cf_goto [OF inv refl]) (use ok 7 that in \<open>auto simp: cf_simps\<close>)
    then show ?thesis using 7 owner_seen [OF inv] by (simp add: lock_shared_step_def)
  next
    case 8
    then show ?thesis using inv flag_taken [OF inv] by (simp add: lock_shared_step_def)
  next
    case 9
    then show ?thesis using owner_stored [OF inv] by (simp add: lock_shared_step_def)
  next
    case 10
    then show ?thesis using shared_counted [OF inv] by (simp add: lock_shared_step_def)
  qed
qed

text \<open>A slot the writer finds free has no reader inside.\<close>

lemma slot_scanned:
  assumes "cf_inv s" and "c_index (c_threads s u) = Some i" and "slot_load i s \<le> 1"
  shows "c_slot (c_threads s u) = 0"
  using cf_inv_slot [OF assms(1), of u] assms(2,3) by (auto simp: cf_simps split: cf_pc.splits)

lemma lock_x_keeps:
  assumes inv: "cf_inv s" and m: "cf_method_of (c_pc (c_threads s t)) = M_lock"
  shows "cf_inv (lock_x_step t w s)"
proof -
  note ok = cf_inv_slot [OF inv, of t]
  from m consider i where "c_pc (c_threads s t) = X_assert i" | "c_pc (c_threads s t) = X_owner"
    | "c_pc (c_threads s t) = X_cas" | "c_pc (c_threads s t) = X_store" | i where "c_pc (c_threads s t) = X_scan i"
    | "c_pc (c_threads s t) = X_count"
    by (cases "c_pc (c_threads s t)") (simp_all add: cf_method_of_def)
  then show ?thesis
  proof cases
    case (1 i)
    have "cf_inv (c_at t X_owner s)"
      by (intro cf_goto [OF inv refl]) (use ok 1 in \<open>auto simp: cf_simps\<close>)
    then show ?thesis using 1 ok by (auto simp: lock_x_step_def cf_simps)
  next
    case 2
    have "cf_inv (c_at t q s)" if "q = X_cas \<or> q = X_count \<and> c_owns (c_threads s t)" for q
      by (intro cf_goto [OF inv refl]) (use ok 2 that in \<open>auto simp: cf_simps\<close>)
    then show ?thesis using 2 owner_seen [OF inv] by (simp add: lock_x_step_def)
  next
    case 3
    then show ?thesis using inv flag_taken [OF inv] by (simp add: lock_x_step_def)
  next
    case 4
    then show ?thesis using owner_stored [OF inv] by (simp add: lock_x_step_def)
  next
    case (5 i)
    have "cf_inv (c_at t X_count s)" if "i \<ge> length (shared_locks_array s)"
    proof (rule cf_plain_step [OF inv, of _ t])
      fix u j assume "\<not> excludes (c_threads s t) j" "c_index (c_threads (c_at t X_count s) u) = Some j"
      with 5 that show "c_slot (c_threads (c_at t X_count s) u) = 0"
        using cf_inv_slot [OF inv, of u] ok by (auto simp: cf_simps split: if_splits cf_pc.splits)
    qed (use ok 5 in \<open>auto simp: cf_simps\<close>)
    moreover have "cf_inv (c_at t (X_scan (Suc i)) s)" if "slot_load i s \<le> 1"
    proof (rule cf_plain_step [OF inv, of _ t])
      fix u j assume "excludes (c_threads (c_at t (X_scan (Suc i)) s) t) j" "\<not> excludes (c_threads s t) j"
        "c_index (c_threads (c_at t (X_scan (Suc i)) s) u) = Some j"
      with 5 that show "c_slot (c_threads (c_at t (X_scan (Suc i)) s) u) = 0"
        using slot_scanned [OF inv, of u i] ok by (auto simp: cf_simps less_Suc_eq split: if_splits)
    qed (use ok 5 in \<open>auto simp: cf_simps\<close>)
    ultimately show ?thesis using 5 inv by (simp add: lock_x_step_def)
  next
    case 6
    then show ?thesis using exclusive_counted [OF inv] by (simp add: lock_x_step_def)
  qed
qed

lemma cf_calls_keep:
  assumes inv: "cf_inv s" and pc: "c_pc (c_threads s t) = Cf_idle"
  shows "cf_inv (lock_shared t s)"
    and "c_slot (c_threads s t) > 0 \<or> c_sx (c_threads s t) > 0 \<Longrightarrow> cf_inv (unlock_shared t s)"
    and "c_slot (c_threads s t) = 0 \<Longrightarrow> c_sx (c_threads s t) = 0 \<Longrightarrow> cf_inv (lock_x t s)"
    and "c_ex (c_threads s t) > 0 \<Longrightarrow> cf_inv (unlock_x t s)"
    and "c_index (c_threads s t) = Some i \<Longrightarrow> cf_inv (unregister_thread t i s)"
proof -
  note ok = cf_inv_slot [OF inv, of t]
  have "cf_inv (c_at t q s)" if "(\<exists>i. c_index (c_threads s t) = Some i \<and> q = Sh_load i) \<or>
      c_index (c_threads s t) = None \<and> (q = Reg_load 0 \<or> q = Sx_owner)" for q
    by (intro cf_goto [OF inv refl]) (use ok pc that in \<open>auto simp: cf_simps\<close>)
  then show "cf_inv (lock_shared t s)" by (auto simp: lock_shared_def split: option.split)
  show "cf_inv (lock_x t s)" if "c_slot (c_threads s t) = 0" "c_sx (c_threads s t) = 0"
  proof -
    have "cf_inv (c_at t q s)" if "(\<exists>i. c_index (c_threads s t) = Some i \<and> q = X_assert i) \<or> q = X_owner" for q
      by (intro cf_goto [OF inv refl]) (use ok pc \<open>c_slot _ = 0\<close> \<open>c_sx _ = 0\<close> that in \<open>auto simp: cf_simps\<close>)
    then show ?thesis by (auto simp: lock_x_def split: option.split)
  qed
  show "cf_inv (unregister_thread t i s)" if "c_index (c_threads s t) = Some i"
    unfolding unregister_thread_def by (intro cf_goto [OF inv refl]) (use ok pc that in \<open>auto simp: cf_simps\<close>)
  show "cf_inv (unlock_x t s)" if ex: "c_ex (c_threads s t) > 0"
  proof (rule cf_flag_step [OF inv, of _ t])
    fix ow assume ow: "cf_token ow s"
    have own: "c_owns (c_threads s t)" using ex by (simp add: c_owns_def)
    note tok = cf_token_thread(1) [OF ow own]
    with ex pc have "cf_token (Some t) (unlock_x t s)"
      by (intro cf_token_own [OF ow, of t]) (auto simp: unlock_x_def cf_simps of_nat_diff)
    then show "\<exists>ow'. cf_token ow' (unlock_x t s)" ..
  qed (use ok pc ex in \<open>auto simp: unlock_x_def cf_simps\<close>)
  show "cf_inv (unlock_shared t s)" if held: "c_slot (c_threads s t) > 0 \<or> c_sx (c_threads s t) > 0"
  proof (cases "c_index (c_threads s t)")
    case (Some i)
    then have "c_slot (c_threads s t) > 0" using held ok pc by (auto simp: cf_simps)
    then show ?thesis using Some ok pc
      by (intro cf_plain_step [OF inv, of _ t]) (auto simp: unlock_shared_def cf_simps)
  next
    case None
    then have sx: "c_sx (c_threads s t) > 0" using held ok by (auto simp: cf_simps)
    show ?thesis
    proof (rule cf_flag_step [OF inv, of _ t])
      fix ow assume ow: "cf_token ow s"
      have own: "c_owns (c_threads s t)" using sx by (simp add: c_owns_def)
      note tok = cf_token_thread(1) [OF ow own]
      with sx pc None have "cf_token (Some t) (unlock_shared t s)"
        by (intro cf_token_own [OF ow, of t]) (auto simp: unlock_shared_def cf_simps of_nat_diff)
      then show "\<exists>ow'. cf_token ow' (unlock_shared t s)" ..
    qed (use ok pc sx None in \<open>auto simp: unlock_shared_def cf_simps\<close>)
  qed
qed

lemma cf_step_keeps: "cf_step s e s' \<Longrightarrow> cf_inv s \<Longrightarrow> cf_inv s'"
proof (induction rule: cf_step.induct)
  case (cf_unlock_shared_access s t w)
  then show ?case
    using unlock_shared_keeps [of s t] release_keeps(1) [of s t]
    by (cases "c_pc (c_threads s t) = Us_count") (simp_all add: unlock_shared_step_def)
qed (blast intro: cf_calls_keep register_keeps lock_shared_keeps lock_x_keeps unlock_x_keeps unregister_keeps)+

interpretation cf: stable cf_step cf_inv
  by unfold_locales (rule cf_step_keeps)

lemma cf_exclusive:
  assumes "cf_inv s" and "c_ex (c_threads s t) > 0"
  shows "u \<noteq> t \<Longrightarrow> c_ex (c_threads s u) = 0 \<and> c_sx (c_threads s u) = 0" and "c_slot (c_threads s u) = 0"
    and "want_x_lock s"
proof -
  from assms(1) obtain ow where ow: "cf_token ow s" "readers_out s" by (auto simp: cf_inv_def)
  have own: "c_owns (c_threads s t)" using assms(2) by (simp add: c_owns_def)
  then show "want_x_lock s" using cf_token_thread(1) [OF ow(1)] by (simp add: c_owner_ok_def)
  have "\<not> c_owns (c_threads s u)" if "u \<noteq> t"
    using cf_token_thread(1) [OF ow(1)] own that by blast
  then show "u \<noteq> t \<Longrightarrow> c_ex (c_threads s u) = 0 \<and> c_sx (c_threads s u) = 0"
    by (simp add: c_owns_def)
  have "c_index (c_threads s u) = None \<Longrightarrow> c_slot (c_threads s u) = 0"
    using cf_inv_slot [OF assms(1), of u] by (auto simp: slot_ok_def pc_ok_def)
  then show "c_slot (c_threads s u) = 0"
    using ow(2) assms(2) by (cases "c_index (c_threads s u)") (auto simp: readers_out_def excludes_def)
qed

text \<open>A registered thread that has the mutex exclusively and asks for a shared lock waits for itself.\<close>

definition waits_for_itself :: "nat \<Rightarrow> cf_mutex \<Rightarrow> bool" where
  "waits_for_itself t s \<longleftrightarrow> cf_inv s \<and> c_ex (c_threads s t) > 0 \<and>
     (case c_pc (c_threads s t) of
        Sh_load _ \<Rightarrow> True | Sh_enter _ _ \<Rightarrow> True | Sh_check _ _ \<Rightarrow> True | Sh_leave _ _ \<Rightarrow> True | Sh_wait _ _ \<Rightarrow> True
      | _ \<Rightarrow> False)"

lemma cf_step_others: "cf_step s e s' \<Longrightarrow> (\<And>w. e \<noteq> Access t w) \<Longrightarrow> c_pc (c_threads s t) \<noteq> Cf_idle \<Longrightarrow> c_threads s' t = c_threads s t"
  by (erule cf_step.cases)
     (auto simp: lock_shared_def unlock_shared_def lock_x_def unlock_x_def unregister_thread_def register_step_def
       lock_shared_step_def unlock_shared_step_def release_step_def lock_x_step_def unlock_x_step_def unregister_step_def
       c_upd_def slot_store_def Let_def split: option.split cf_pc.split)

lemma waits_for_itself_step: "cf_step s e s' \<Longrightarrow> waits_for_itself t s \<Longrightarrow> waits_for_itself t s'"
proof (cases "\<exists>w. e = Access t w")
  case True
  assume st: "cf_step s e s'" and w: "waits_for_itself t s"
  then have inv: "cf_inv s" "c_ex (c_threads s t) > 0" by (auto simp: waits_for_itself_def)
  have free: "c_slot (c_threads s t) = 0" "want_x_lock s" using cf_exclusive(2,3) [OF inv] by blast+
  note ok = cf_inv_slot [OF inv(1), of t]
  from w have m: "cf_method_of (c_pc (c_threads s t)) = M_lock_shared"
    by (auto simp: waits_for_itself_def cf_method_of_def split: cf_pc.splits)
  with st True obtain v where "s' = lock_shared_step t v s" by (auto elim: cf_step.cases)
  with w free ok have "c_ex (c_threads s' t) > 0 \<and> (case c_pc (c_threads s' t) of
        Sh_load _ \<Rightarrow> True | Sh_enter _ _ \<Rightarrow> True | Sh_check _ _ \<Rightarrow> True | Sh_leave _ _ \<Rightarrow> True | Sh_wait _ _ \<Rightarrow> True
      | _ \<Rightarrow> False)"
    by (cases "c_pc (c_threads s t)") (auto simp: waits_for_itself_def lock_shared_step_def Let_def cf_simps)
  with cf_step_keeps [OF st inv(1)] show ?thesis by (simp add: waits_for_itself_def)
next
  case False
  assume st: "cf_step s e s'" and w: "waits_for_itself t s"
  then have "c_pc (c_threads s t) \<noteq> Cf_idle" by (auto simp: waits_for_itself_def)
  with cf_step_others [OF st] False have "c_threads s' t = c_threads s t" by blast
  with w cf_step_keeps [OF st] show ?thesis by (simp add: waits_for_itself_def)
qed

interpretation waiting: stable cf_step "waits_for_itself t" for t
  by unfold_locales (rule waits_for_itself_step)

section \<open>Runs of one thread\<close>

definition cf_access :: "nat \<Rightarrow> cf_mutex \<Rightarrow> cf_mutex" where
  "cf_access t s =
     (case cf_method_of (c_pc (c_threads s t)) of
        M_none \<Rightarrow> s | M_register \<Rightarrow> register_step t s | M_lock_shared \<Rightarrow> lock_shared_step t False s
      | M_unlock_shared \<Rightarrow> unlock_shared_step t s | M_lock \<Rightarrow> lock_x_step t False s | M_unlock \<Rightarrow> unlock_x_step t s
      | M_unregister \<Rightarrow> unregister_step t s)"

fun accesses :: "nat \<Rightarrow> nat \<Rightarrow> cf_mutex \<Rightarrow> cf_mutex option" where
  "accesses t 0 s = Some s"
| "accesses t (Suc k) s = (if cf_method_of (c_pc (c_threads s t)) = M_none then None else accesses t k (cf_access t s))"

lemma cf_access_step: "cf_method_of (c_pc (c_threads s t)) \<noteq> M_none \<Longrightarrow> cf_step s (Access t False) (cf_access t s)"
  by (cases "cf_method_of (c_pc (c_threads s t))") (auto simp: cf_access_def intro: cf_step.intros)

lemma accesses_run: "accesses t k s = Some s' \<Longrightarrow> run cf_step s (replicate k (Access t False)) s'"
  by (induction t k s rule: accesses.induct)
     (auto intro: run_Nil run_Cons cf_access_step split: if_splits)

lemmas cf_run_simps = contention_free_shared_mutex_def cf_access_def cf_method_of_def register_step_def lock_shared_def
  lock_shared_step_def unlock_shared_def unlock_shared_step_def lock_x_def lock_x_step_def c_upd_def slot_store_def

text \<open>A mutex with one slot that only thread 0 has used: it takes a shared lock, gives it back, and takes the mutex.\<close>

definition solo :: "bool \<Rightarrow> int \<Rightarrow> nat \<Rightarrow> nat option \<Rightarrow> int \<Rightarrow> cf_thread \<Rightarrow> cf_mutex" where
  "solo want v refs own cnt th =
     \<lparr>want_x_lock = want, shared_locks_array = [v], array_refs = refs, owner_thread_id = own, recursive_xlock_count = cnt,
      c_threads = (\<lambda>_. \<lparr>c_pc = Cf_idle, c_index = None, c_slot = 0, c_sx = 0, c_ex = 0\<rparr>)(0 := th)\<rparr>"

lemma solo_reads:
  "accesses 0 6 (lock_shared 0 (contention_free_shared_mutex 1)) =
     Some (solo False 2 2 None 0 \<lparr>c_pc = Cf_idle, c_index = Some 0, c_slot = 1, c_sx = 0, c_ex = 0\<rparr>)"
  by (simp add: cf_run_simps solo_def eval_nat_numeral)

lemma solo_leaves:
  "accesses 0 2 (unlock_shared 0 (solo False 2 2 None 0 \<lparr>c_pc = Cf_idle, c_index = Some 0, c_slot = 1, c_sx = 0, c_ex = 0\<rparr>)) =
     Some (solo False 1 2 None 0 \<lparr>c_pc = Cf_idle, c_index = Some 0, c_slot = 0, c_sx = 0, c_ex = 0\<rparr>)"
  by (simp add: cf_run_simps solo_def eval_nat_numeral)

lemma solo_writes:
  "accesses 0 7 (lock_x 0 (solo False 1 2 None 0 \<lparr>c_pc = Cf_idle, c_index = Some 0, c_slot = 0, c_sx = 0, c_ex = 0\<rparr>)) =
     Some (solo True 1 2 (Some 0) 1 \<lparr>c_pc = Cf_idle, c_index = Some 0, c_slot = 0, c_sx = 0, c_ex = 1\<rparr>)"
  by (simp add: cf_run_simps solo_def eval_nat_numeral)

lemma registered_writer:
  "\<exists>es s. run cf_step (contention_free_shared_mutex 1) es s \<and> c_ex (c_threads s 0) = 1 \<and> c_index (c_threads s 0) = Some 0 \<and>
     c_pc (c_threads s 0) = Cf_idle"
proof -
  have "run cf_step (contention_free_shared_mutex 1) (Lock_shared 0 # replicate 6 (Access 0 False))
      (solo False 2 2 None 0 \<lparr>c_pc = Cf_idle, c_index = Some 0, c_slot = 1, c_sx = 0, c_ex = 0\<rparr>)" (is "run _ _ _ ?s1")
    by (rule run_Cons [OF cf_lock_shared accesses_run [OF solo_reads]]) (simp add: contention_free_shared_mutex_def)
  moreover have "run cf_step ?s1 (Unlock_shared 0 # replicate 2 (Access 0 False))
      (solo False 1 2 None 0 \<lparr>c_pc = Cf_idle, c_index = Some 0, c_slot = 0, c_sx = 0, c_ex = 0\<rparr>)" (is "run _ _ _ ?s2")
    by (rule run_Cons [OF cf_unlock_shared accesses_run [OF solo_leaves]]) (simp_all add: solo_def)
  moreover have "run cf_step ?s2 (Lock_x 0 # replicate 7 (Access 0 False))
      (solo True 1 2 (Some 0) 1 \<lparr>c_pc = Cf_idle, c_index = Some 0, c_slot = 0, c_sx = 0, c_ex = 1\<rparr>)" (is "run _ _ _ ?s3")
    by (rule run_Cons [OF cf_lock accesses_run [OF solo_writes]]) (simp_all add: solo_def)
  ultimately have "\<exists>es. run cf_step (contention_free_shared_mutex 1) es ?s3" by (blast intro: run_append)
  moreover have "c_threads ?s3 0 = \<lparr>c_pc = Cf_idle, c_index = Some 0, c_slot = 0, c_sx = 0, c_ex = 1\<rparr>" by (simp add: solo_def)
  ultimately show ?thesis by (metis cf_thread.select_convs)
qed

section \<open>Properties\<close>

text \<open>C19: the shared mutex excludes.  In every interleaving of any number of threads over a mutex with any number of
  slots, a thread that holds the mutex exclusively is the only one that holds it: no other thread has an exclusive
  lock, nor a shared one through a slot or through the flag; and no assertion of the class fails.\<close>

theorem shared_mutex_excludes:
  assumes "run cf_step (contention_free_shared_mutex n) es s"
  shows "(\<forall>t. c_pc (c_threads s t) \<noteq> Cf_abort) \<and>
    (\<forall>t u. c_ex (c_threads s t) > 0 \<and> u \<noteq> t \<longrightarrow>
       c_ex (c_threads s u) = 0 \<and> c_slot (c_threads s u) = 0 \<and> c_sx (c_threads s u) = 0)"
proof -
  have inv: "cf_inv s" using cf.run_keeps [OF assms cf_inv_init] .
  have "c_pc (c_threads s t) \<noteq> Cf_abort" for t
    using cf_inv_slot [OF inv, of t] by (auto simp: slot_ok_def pc_ok_def)
  then show ?thesis using cf_exclusive [OF inv] by blast
qed

theorem shared_mutex_excludes_witness:
  "\<exists>es s. run cf_step (contention_free_shared_mutex 1) es s \<and> c_ex (c_threads s 0) = 1 \<and> c_ex (c_threads s 1) = 0"
proof -
  obtain es s where s: "run cf_step (contention_free_shared_mutex 1) es s" "c_ex (c_threads s 0) = 1"
    using registered_writer by blast
  with shared_mutex_excludes [OF s(1)] have "c_ex (c_threads s 1) = 0" by (metis zero_less_one zero_neq_one)
  with s show ?thesis by blast
qed

text \<open>C28: the class says of itself that a lock is recursive \<open>for X->X, X->S or S->S locks\<close>.  A thread that has a slot, holds
  the mutex exclusively and calls \<^verbatim>\<open>lock_shared\<close> never returns from the call, whatever the other threads do.\<close>

theorem exclusive_then_shared_hangs:
  assumes "run cf_step (contention_free_shared_mutex n) es s"
    and "c_ex (c_threads s t) > 0" and "c_index (c_threads s t) = Some i"
    and "cf_step s (Lock_shared t) s'" and "run cf_step s' es' s''"
  shows "c_pc (c_threads s'' t) \<noteq> Cf_idle \<and> want_x_lock s''"
proof -
  have inv: "cf_inv s" using cf.run_keeps [OF assms(1) cf_inv_init] .
  have "s' = lock_shared t s" using assms(4) by (auto elim: cf_step.cases)
  with assms(2,3) cf_step_keeps [OF assms(4) inv] have "waits_for_itself t s'"
    by (simp add: waits_for_itself_def lock_shared_def c_upd_def)
  with assms(5) have "waits_for_itself t s''" by (rule waiting.run_keeps)
  then show ?thesis using cf_exclusive(3) [of s'' t] by (auto simp: waits_for_itself_def)
qed

theorem exclusive_then_shared_hangs_witness:
  "\<exists>es s s'. run cf_step (contention_free_shared_mutex 1) es s \<and> cf_step s (Lock_shared 0) s' \<and>
     c_pc (c_threads s' 0) \<noteq> Cf_idle"
proof -
  obtain es s where s: "run cf_step (contention_free_shared_mutex 1) es s" "c_ex (c_threads s 0) = 1"
    "c_index (c_threads s 0) = Some 0" "c_pc (c_threads s 0) = Cf_idle"
    using registered_writer by blast
  have st: "cf_step s (Lock_shared 0) (lock_shared 0 s)" using s(4) by (rule cf_lock_shared)
  from exclusive_then_shared_hangs [OF s(1) _ s(3) st run_Nil] s(1,2) st show ?thesis by auto
qed

end
