(* ===== verification/Partitioned_Map.thy ===== *)
theory Partitioned_Map
  imports Prelude
begin

text \<open>
  The class \<^verbatim>\<open>safe_map_partitioned_t\<close> of \<^verbatim>\<open>src/src/sync/P2P/safe_ptr.h\<close>: a map whose entries are spread over several maps, each
  with a lock of its own, by the first boundary that is not below the key.  A \<^verbatim>\<open>std::map\<close> is the list of its entries in
  the order of the keys, an iterator a position in it.  The locks are left out: an operation is one step.  The lemmas
  show that the whole behaves as one map.
\<close>

section \<open>Ordered maps\<close>

type_synonym ('k, 'v) std_map = "('k \<times> 'v) list"

abbreviation ordered :: "('k :: linorder \<times> 'v) list \<Rightarrow> bool" where
  "ordered xs \<equiv> sorted_wrt (\<lambda>a b. fst a < fst b) xs"

definition lower_bound :: "'k :: linorder \<Rightarrow> ('k, 'v) std_map \<Rightarrow> nat" where
  "lower_bound k xs = length (takeWhile (\<lambda>e. fst e < k) xs)"

definition upper_bound :: "'k :: linorder \<Rightarrow> ('k, 'v) std_map \<Rightarrow> nat" where
  "upper_bound k xs = length (takeWhile (\<lambda>e. fst e \<le> k) xs)"

definition map_emplace :: "'k :: linorder \<Rightarrow> 'v \<Rightarrow> ('k, 'v) std_map \<Rightarrow> ('k, 'v) std_map" where
  "map_emplace k v xs =
     (let i = lower_bound k xs
      in if i < length xs \<and> fst (xs ! i) = k then xs else take i xs @ (k, v) # drop i xs)"

definition map_erase :: "'k :: linorder \<Rightarrow> ('k, 'v) std_map \<Rightarrow> nat \<times> ('k, 'v) std_map" where
  "map_erase k xs =
     (let i = lower_bound k xs
      in if i < length xs \<and> fst (xs ! i) = k then (1, take i xs @ drop (Suc i) xs) else (0, xs))"

text \<open>The entries between \<^verbatim>\<open>lower_bound(low)\<close> and \<^verbatim>\<open>upper_bound(up)\<close>, and the map without them.\<close>

definition map_range :: "'k :: linorder \<Rightarrow> 'k \<Rightarrow> ('k, 'v) std_map \<Rightarrow> ('k \<times> 'v) list" where
  "map_range low up xs = take (upper_bound up xs - lower_bound low xs) (drop (lower_bound low xs) xs)"

definition map_erase_range :: "'k :: linorder \<Rightarrow> 'k \<Rightarrow> ('k, 'v) std_map \<Rightarrow> ('k, 'v) std_map" where
  "map_erase_range low up xs = take (lower_bound low xs) xs @ drop (upper_bound up xs) xs"

section \<open>The partitioned map\<close>

type_synonym ('k, 'v) part_t = "('k, ('k, 'v) std_map) std_map"

definition safe_map_partitioned_t :: "'k :: linorder list \<Rightarrow> ('k, 'v) part_t" where
  "safe_map_partitioned_t il = fold (\<lambda>i. map_emplace i []) il []"

definition part_it :: "('k :: linorder, 'v) part_t \<Rightarrow> 'k \<Rightarrow> nat" where
  "part_it P k = (let i = lower_bound k P in if i = length P then i - 1 else i)"

definition part :: "('k :: linorder, 'v) part_t \<Rightarrow> 'k \<Rightarrow> ('k, 'v) std_map" where
  "part P k = snd (P ! part_it P k)"

definition set_part :: "('k :: linorder, 'v) part_t \<Rightarrow> nat \<Rightarrow> ('k, 'v) std_map \<Rightarrow> ('k, 'v) part_t" where
  "set_part P i c = P[i := (fst (P ! i), c)]"

definition part_emplace :: "'k :: linorder \<Rightarrow> 'v \<Rightarrow> ('k, 'v) part_t \<Rightarrow> ('k, 'v) part_t" where
  "part_emplace k v P = set_part P (part_it P k) (map_emplace k v (part P k))"

definition part_erase :: "'k :: linorder \<Rightarrow> ('k, 'v) part_t \<Rightarrow> nat \<times> ('k, 'v) part_t" where
  "part_erase k P = (let (n, c) = map_erase k (part P k) in (n, set_part P (part_it P k) c))"

definition get_range_equal :: "'k :: linorder \<Rightarrow> ('k, 'v) part_t \<Rightarrow> ('k \<times> 'v) list" where
  "get_range_equal key P = map_range key key (part P key)"

text \<open>The partition behind the last one that is looked at.\<close>

definition range_end :: "'k :: linorder \<Rightarrow> ('k, 'v) part_t \<Rightarrow> nat" where
  "range_end up P = (if upper_bound up P = length P then length P else upper_bound up P + 1)"

definition get_range_lower_upper :: "'k :: linorder \<Rightarrow> 'k \<Rightarrow> ('k, 'v) part_t \<Rightarrow> ('k \<times> 'v) list" where
  "get_range_lower_upper low up P =
     concat (map (\<lambda>p. map_range low up (snd p)) (drop (part_it P low) (take (range_end up P) P)))"

definition erase_lower_upper :: "'k :: linorder \<Rightarrow> 'k \<Rightarrow> ('k, 'v) part_t \<Rightarrow> ('k, 'v) part_t" where
  "erase_lower_upper low up P =
     map (\<lambda>i. if part_it P low \<le> i \<and> i < range_end up P then (fst (P ! i), map_erase_range low up (snd (P ! i))) else P ! i)
       [0..<length P]"

definition part_size :: "('k :: linorder, 'v) part_t \<Rightarrow> nat" where
  "part_size P = fold (\<lambda>p n. n + length (snd p)) P 0"

definition part_clear :: "('k :: linorder, 'v) part_t \<Rightarrow> ('k, 'v) part_t" where
  "part_clear P = map (\<lambda>p. (fst p, [])) P"

section \<open>Ordered maps as sets of entries\<close>

lemma bounds_simps [simp]:
  "lower_bound k [] = 0" "lower_bound k (e # xs) = (if fst e < k then Suc (lower_bound k xs) else 0)"
  "upper_bound k [] = 0" "upper_bound k (e # xs) = (if fst e \<le> k then Suc (upper_bound k xs) else 0)"
  by (simp_all add: lower_bound_def upper_bound_def)

lemma lower_bound_le: "lower_bound k xs \<le> length xs"
  by (simp add: lower_bound_def length_takeWhile_le)

lemma lower_bound_least: "\<forall>e \<in> set xs. k \<le> fst e \<Longrightarrow> lower_bound k xs = 0"
  by (cases xs) auto

lemma map_range_filter: "ordered xs \<Longrightarrow> map_range low up xs = filter (\<lambda>e. low \<le> fst e \<and> fst e \<le> up) xs"
proof (induction xs)
  case (Cons e xs)
  then have IH: "map_range low up xs = filter (\<lambda>e. low \<le> fst e \<and> fst e \<le> up) xs" and above: "\<forall>x \<in> set xs. fst e < fst x" by auto
  consider "fst e < low" "fst e \<le> up" | "up < fst e" | "low \<le> fst e" "fst e \<le> up" by force
  then show ?case
  proof cases
    case 2
    with above have "filter (\<lambda>e. low \<le> fst e \<and> fst e \<le> up) xs = []" by (fastforce simp: filter_empty_conv)
    with 2 show ?thesis by (auto simp: map_range_def)
  next
    case 3
    with above have "lower_bound low xs = 0" by (intro lower_bound_least) fastforce
    with IH 3 show ?thesis by (simp add: map_range_def)
  qed (use IH in \<open>simp add: map_range_def\<close>)
qed (simp add: map_range_def)

lemma map_erase_range_filter:
  "ordered xs \<Longrightarrow> low \<le> up \<Longrightarrow> map_erase_range low up xs = filter (\<lambda>e. \<not> (low \<le> fst e \<and> fst e \<le> up)) xs"
proof (induction xs)
  case (Cons e xs)
  then have IH: "map_erase_range low up xs = filter (\<lambda>e. \<not> (low \<le> fst e \<and> fst e \<le> up)) xs" and above: "\<forall>x \<in> set xs. fst e < fst x" by auto
  consider "fst e < low" "fst e \<le> up" | "up < fst e" "low \<le> fst e" | "low \<le> fst e" "fst e \<le> up" using Cons(3) by force
  then show ?case
  proof cases
    case 2
    with above have "filter (\<lambda>e. \<not> (low \<le> fst e \<and> fst e \<le> up)) xs = xs" by (fastforce simp: filter_id_conv)
    with 2 show ?thesis by (auto simp: map_erase_range_def)
  next
    case 3
    with above have "lower_bound low xs = 0" by (intro lower_bound_least) fastforce
    with IH 3 show ?thesis by (simp add: map_erase_range_def)
  qed (use IH in \<open>simp add: map_erase_range_def\<close>)
qed (simp add: map_erase_range_def)

lemma map_emplace_Cons:
  "map_emplace k v (e # xs) = (if fst e < k then e # map_emplace k v xs else if fst e = k then e # xs else (k, v) # e # xs)"
  by (simp add: map_emplace_def Let_def)

lemma map_emplace_set:
  "ordered xs \<Longrightarrow> set (map_emplace k v xs) = (if k \<in> fst ` set xs then set xs else insert (k, v) (set xs))"
proof (induction xs)
  case (Cons e xs)
  then show ?case by (force simp: map_emplace_Cons)
qed (simp add: map_emplace_def)

lemma map_emplace_ordered: "ordered xs \<Longrightarrow> ordered (map_emplace k v xs)"
proof (induction xs)
  case (Cons e xs)
  then have "set (map_emplace k v xs) \<subseteq> insert (k, v) (set xs)" by (auto simp: map_emplace_set split: if_splits)
  then have "\<forall>x \<in> set (map_emplace k v xs). fst e < fst x" if "fst e < k" using Cons that by auto
  then show ?case using Cons by (auto simp: map_emplace_Cons)
qed (simp add: map_emplace_def)

lemma map_erase_Cons:
  "map_erase k (e # xs) = (if fst e < k then map_prod id ((#) e) (map_erase k xs) else if fst e = k then (1, xs) else (0, e # xs))"
  by (simp add: map_erase_def Let_def)

lemma map_erase_filter:
  "ordered xs \<Longrightarrow> map_erase k xs = (if k \<in> fst ` set xs then 1 else 0, filter (\<lambda>e. fst e \<noteq> k) xs)"
proof (induction xs)
  case (Cons e xs)
  then have above: "\<forall>x \<in> set xs. fst e < fst x" by simp
  show ?case
  proof (cases "fst e < k")
    case True
    then show ?thesis using Cons by (auto simp: map_erase_Cons)
  next
    case False
    with above have "filter (\<lambda>e. fst e \<noteq> k) xs = xs" "k \<notin> fst ` set xs" by (fastforce simp: filter_id_conv)+
    with False show ?thesis by (auto simp: map_erase_Cons)
  qed
qed (simp add: map_erase_def)

text \<open>Two ordered maps with the same entries are the same.\<close>

lemma ordered_unique: "ordered xs \<Longrightarrow> ordered ys \<Longrightarrow> set xs = set ys \<Longrightarrow> xs = ys"
proof (induction xs arbitrary: ys)
  case (Cons e xs)
  then obtain f zs where ys: "ys = f # zs" by (cases ys) auto
  have "e = f"
  proof (rule ccontr)
    assume "e \<noteq> f"
    with Cons.prems ys have "f \<in> set xs" "e \<in> set zs" by auto
    with Cons.prems ys have "fst e < fst f" "fst f < fst e" by auto
    then show False by simp
  qed
  moreover have "e \<notin> set xs" "f \<notin> set zs" using Cons.prems ys by auto
  ultimately have "set xs = set zs" using Cons.prems(3) ys by auto
  with Cons ys \<open>e = f\<close> show ?case by auto
qed simp

section \<open>One map\<close>

text \<open>All entries in order; every key is in the part it is looked for in.\<close>

definition entries :: "('k :: linorder, 'v) part_t \<Rightarrow> ('k, 'v) std_map" where
  "entries P = concat (map snd P)"

definition part_inv :: "('k :: linorder, 'v) part_t \<Rightarrow> bool" where
  "part_inv P \<longleftrightarrow> P \<noteq> [] \<and> (\<forall>i < length P. ordered (snd (P ! i)) \<and> (\<forall>e \<in> set (snd (P ! i)). part_it P (fst e) = i))"

lemma part_it_less: "P \<noteq> [] \<Longrightarrow> part_it P k < length P"
  using lower_bound_le [of k P] by (auto simp: part_it_def Let_def)

lemma lower_bound_mono: "k \<le> k' \<Longrightarrow> lower_bound k xs \<le> lower_bound k' xs"
  by (induction xs) auto

lemma part_it_mono: "k \<le> k' \<Longrightarrow> part_it P k \<le> part_it P k'"
  using lower_bound_mono [of k k' P] lower_bound_le [of k' P] by (auto simp: part_it_def Let_def)

lemma lower_le_upper: "k \<le> k' \<Longrightarrow> lower_bound k xs \<le> upper_bound k' xs"
  by (induction xs) auto

text \<open>The bounds depend on the boundaries only.\<close>

lemma bounds_keys: "map fst P = map fst Q \<Longrightarrow> lower_bound k P = lower_bound k Q \<and> upper_bound k P = upper_bound k Q"
  by (induction P arbitrary: Q) auto

lemma part_it_keys: "map fst P = map fst Q \<Longrightarrow> part_it P = part_it Q"
  using bounds_keys [of P Q] map_eq_imp_length_eq [of fst P fst Q] by (auto simp: part_it_def fun_eq_iff)

lemma ordered_concat:
  "(\<forall>i < length xss. ordered (xss ! i)) \<Longrightarrow>
   (\<forall>i j. i < j \<longrightarrow> j < length xss \<longrightarrow> (\<forall>a \<in> set (xss ! i). \<forall>b \<in> set (xss ! j). fst a < fst b)) \<Longrightarrow> ordered (concat xss)"
proof (induction xss)
  case (Cons xs xss)
  have less: "fst a < fst b" if "i < j" "j < length (xs # xss)" "a \<in> set ((xs # xss) ! i)" "b \<in> set ((xs # xss) ! j)" for i j a b
    using Cons.prems(2) that by blast
  have ord: "ordered ((xs # xss) ! i)" if "i < length (xs # xss)" for i
    using Cons.prems(1) that by blast
  have "\<forall>i < length xss. ordered (xss ! i)" using ord [of "Suc _"] by simp
  moreover have "\<forall>i j. i < j \<longrightarrow> j < length xss \<longrightarrow> (\<forall>a \<in> set (xss ! i). \<forall>b \<in> set (xss ! j). fst a < fst b)"
    using less [of "Suc _" "Suc _"] by simp
  ultimately have "ordered (concat xss)" by (rule Cons.IH)
  moreover have "fst a < fst b" if ab: "a \<in> set xs" "b \<in> set (concat xss)" for a b
  proof -
    from ab(2) obtain ys where "ys \<in> set xss" "b \<in> set ys" by auto
    then obtain j where "j < length xss" "b \<in> set (xss ! j)" by (metis in_set_conv_nth)
    with ab(1) less [of 0 "Suc j" a b] show ?thesis by simp
  qed
  ultimately show ?case using ord [of 0] by (auto simp: sorted_wrt_append)
qed simp

lemma in_entries: "e \<in> set (entries P) \<longleftrightarrow> (\<exists>j < length P. e \<in> set (snd (P ! j)))"
  unfolding entries_def by simp (metis in_set_conv_nth)

lemma part_inv_at: "part_inv P \<Longrightarrow> j < length P \<Longrightarrow> e \<in> set (snd (P ! j)) \<Longrightarrow> part_it P (fst e) = j"
  by (simp add: part_inv_def)

lemma entries_ordered:
  assumes "part_inv P" shows "ordered (entries P)"
proof -
  have "fst a < fst b" if "i < j" "j < length P" "a \<in> set (snd (P ! i))" "b \<in> set (snd (P ! j))" for i j a b
    using part_it_mono [of "fst b" "fst a" P] part_inv_at [OF assms, of i a] part_inv_at [OF assms, of j b] that
    by (metis leD leI order.strict_trans)
  then show ?thesis using assms unfolding entries_def by (intro ordered_concat) (simp_all add: part_inv_def)
qed

lemma entries_part:
  assumes "part_inv P"
  shows "e \<in> set (entries P) \<longleftrightarrow> e \<in> set (part P (fst e))"
proof -
  have "part_it P (fst e) < length P" using assms by (intro part_it_less) (simp add: part_inv_def)
  then show ?thesis using part_inv_at [OF assms, of _ e] by (auto simp: in_entries part_def)
qed

lemma part_ordered: "part_inv P \<Longrightarrow> ordered (part P k)"
  using part_it_less [of P k] by (auto simp: part_inv_def part_def)

text \<open>An operation on the part of a key is one on the whole.\<close>

lemma set_part_keys: "i < length P \<Longrightarrow> map fst (set_part P i c) = map fst P"
  by (simp add: set_part_def map_update list_update_same_conv)

lemma set_part_inv:
  assumes inv: "part_inv P" and c: "ordered c" and keys: "\<And>e. e \<in> set c \<Longrightarrow> e \<in> set (part P k) \<or> fst e = k"
  shows "part_inv (set_part P (part_it P k) c)"
proof -
  have i: "part_it P k < length P" using inv part_it_less by (auto simp: part_inv_def)
  have it: "part_it (set_part P (part_it P k) c) = part_it P"
    using set_part_keys [OF i] by (rule part_it_keys)
  have "part_it P (fst e) = part_it P k" if "e \<in> set c" for e
    using keys [OF that] inv i by (auto simp: part_inv_def part_def)
  with inv c i show ?thesis unfolding part_inv_def it by (auto simp: set_part_def nth_list_update)
qed

lemma set_part_entries:
  assumes inv: "part_inv P"
  shows "set (entries (set_part P (part_it P k) c)) = {e \<in> set (entries P). part_it P (fst e) \<noteq> part_it P k} \<union> set c"
proof -
  have i: "part_it P k < length P" using inv part_it_less by (auto simp: part_inv_def)
  have at: "part_it P (fst e) = j" if "j < length P" "e \<in> set (snd (P ! j))" for e j
    using inv that by (auto simp: part_inv_def)
  have "e \<in> set (entries (set_part P (part_it P k) c)) \<longleftrightarrow>
      e \<in> set (entries P) \<and> part_it P (fst e) \<noteq> part_it P k \<or> e \<in> set c" for e
  proof
    assume "e \<in> set (entries (set_part P (part_it P k) c))"
    then obtain j where "j < length P" "e \<in> set (snd (set_part P (part_it P k) c ! j))" by (auto simp: in_entries set_part_def)
    then show "e \<in> set (entries P) \<and> part_it P (fst e) \<noteq> part_it P k \<or> e \<in> set c"
      using at [of j e] by (cases "j = part_it P k") (auto simp: in_entries set_part_def)
  next
    assume "e \<in> set (entries P) \<and> part_it P (fst e) \<noteq> part_it P k \<or> e \<in> set c"
    then consider "e \<in> set c" | j where "j < length P" "e \<in> set (snd (P ! j))" "j \<noteq> part_it P k"
      using at [of _ e] by (auto simp: in_entries)
    then show "e \<in> set (entries (set_part P (part_it P k) c))"
    proof cases
      case 1
      then show ?thesis using i by (auto simp: in_entries set_part_def intro!: exI [of _ "part_it P k"])
    next
      case (2 j)
      then show ?thesis by (auto simp: in_entries set_part_def intro!: exI [of _ j])
    qed
  qed
  then show ?thesis by blast
qed

lemma part_entries:
  assumes "part_inv P"
  shows "e \<in> set (part P k) \<longleftrightarrow> e \<in> set (entries P) \<and> part_it P (fst e) = part_it P k"
proof -
  have "part_it P k < length P" using assms by (intro part_it_less) (simp add: part_inv_def)
  then show ?thesis unfolding in_entries part_def using part_inv_at [OF assms] by metis
qed

lemma part_key: "part_inv P \<Longrightarrow> k \<in> fst ` set (part P k) \<longleftrightarrow> k \<in> fst ` set (entries P)"
  unfolding image_iff Bex_def by (simp only: part_entries) metis

lemma part_emplace_refines:
  assumes inv: "part_inv P"
  shows "part_inv (part_emplace k v P)" and "entries (part_emplace k v P) = map_emplace k v (entries P)"
proof -
  have o: "ordered (part P k)" using inv by (rule part_ordered)
  show inv': "part_inv (part_emplace k v P)"
    unfolding part_emplace_def using inv map_emplace_ordered [OF o]
    by (rule set_part_inv) (auto simp: map_emplace_set [OF o] split: if_splits)
  have "{e \<in> set (entries P). part_it P (fst e) \<noteq> part_it P k} \<union> set (part P k) = set (entries P)"
    using part_entries [OF inv, of _ k] by blast
  then have "set (entries (part_emplace k v P)) = set (map_emplace k v (entries P))"
    unfolding part_emplace_def set_part_entries [OF inv] map_emplace_set [OF o] map_emplace_set [OF entries_ordered [OF inv]] part_key [OF inv]
    by simp
  with inv inv' show "entries (part_emplace k v P) = map_emplace k v (entries P)"
    by (intro ordered_unique entries_ordered map_emplace_ordered)
qed

lemma part_erase_refines:
  assumes inv: "part_inv P"
  shows "part_inv (snd (part_erase k P))" and "entries (snd (part_erase k P)) = snd (map_erase k (entries P))"
    and "fst (part_erase k P) = fst (map_erase k (entries P))"
proof -
  have o: "ordered (part P k)" using inv by (rule part_ordered)
  note er = map_erase_filter [OF o, of k] map_erase_filter [OF entries_ordered [OF inv], of k]
  have eq: "snd (part_erase k P) = set_part P (part_it P k) (filter (\<lambda>e. fst e \<noteq> k) (part P k))"
    by (simp add: part_erase_def er)
  have "ordered (filter (\<lambda>e. fst e \<noteq> k) (part P k))" using o by (rule sorted_wrt_filter)
  then show inv': "part_inv (snd (part_erase k P))"
    unfolding eq by (rule set_part_inv [OF inv]) simp
  have "e \<in> set (entries P) \<and> part_it P (fst e) \<noteq> part_it P k \<or> e \<in> set (part P k) \<and> fst e \<noteq> k \<longleftrightarrow> e \<in> set (entries P) \<and> fst e \<noteq> k" for e
    unfolding part_entries [OF inv, of e k] by (cases "fst e = k") auto
  then have "set (entries (snd (part_erase k P))) = set (snd (map_erase k (entries P)))"
    unfolding eq set_part_entries [OF inv] er snd_conv set_filter by blast
  moreover have "ordered (snd (map_erase k (entries P)))" using entries_ordered [OF inv] by (simp add: er sorted_wrt_filter)
  ultimately show "entries (snd (part_erase k P)) = snd (map_erase k (entries P))"
    by (intro ordered_unique entries_ordered inv')
  show "fst (part_erase k P) = fst (map_erase k (entries P))"
    using part_key [OF inv, of k] by (simp add: part_erase_def er)
qed

text \<open>The parts outside of the range have no key in it.\<close>

lemma range_parts:
  assumes inv: "part_inv P" and j: "j < length P" and e: "e \<in> set (snd (P ! j))" and "low \<le> fst e" and "fst e \<le> up"
  shows "part_it P low \<le> j \<and> j < range_end up P"
proof -
  have at: "part_it P (fst e) = j" using inv j e by (rule part_inv_at)
  then have "part_it P low \<le> j" using part_it_mono [OF assms(4), of P] by simp
  moreover have "j \<le> upper_bound up P"
    using at lower_le_upper [OF assms(5), of P] by (auto simp: part_it_def Let_def split: if_splits)
  ultimately show ?thesis using j by (auto simp: range_end_def)
qed

lemma concat_outside:
  assumes "b \<le> e" and "e \<le> n" and "\<And>j. j < n \<Longrightarrow> \<not> (b \<le> j \<and> j < e) \<Longrightarrow> f j = []"
  shows "concat (map f [b..<e]) = concat (map f [0..<n])"
proof -
  obtain p q where pq: "e = b + p" "n = b + p + q" using assms(1,2) by (metis le_Suc_ex)
  have "[0..<n] = [0..<b] @ [b..<e] @ [e..<n]"
    unfolding pq using upt_add_eq_append [of 0 "b + p" q] upt_add_eq_append [of 0 b p] by simp
  moreover have "concat (map f [0..<b]) = []" "concat (map f [e..<n]) = []" using assms by auto
  ultimately show ?thesis by (simp only: map_append concat_append append_Nil append_Nil2)
qed

lemma entries_nth: "entries P = concat (map (\<lambda>j. snd (P ! j)) [0..<length P])"
  unfolding entries_def by (rule arg_cong [of _ _ concat]) (rule nth_equalityI; simp)

lemma range_end_le: "low \<le> up \<Longrightarrow> part_it P low \<le> range_end up P \<and> range_end up P \<le> length P"
  using lower_le_upper [of low up P] length_takeWhile_le [of "\<lambda>e. fst e \<le> up" P]
  by (auto simp: part_it_def range_end_def Let_def upper_bound_def)

lemma get_range_refines:
  assumes inv: "part_inv P" and le: "low \<le> up"
  shows "get_range_lower_upper low up P = map_range low up (entries P)"
proof -
  let ?Q = "\<lambda>e. low \<le> fst e \<and> fst e \<le> up" and ?b = "part_it P low" and ?e = "range_end up P"
  have ranges: "map_range low up (snd (P ! j)) = filter ?Q (snd (P ! j))" if "j < length P" for j
    using inv that by (intro map_range_filter) (simp add: part_inv_def)
  have out: "filter ?Q (snd (P ! j)) = []" if "j < length P" "\<not> (?b \<le> j \<and> j < ?e)" for j
    unfolding filter_empty_conv using range_parts [OF inv that(1), of _ low up] that(2) by blast
  have "drop ?b (take ?e P) = map ((!) P) [?b..<?e]"
    by (rule nth_equalityI) (use range_end_le [OF le, of P] in auto)
  then have "get_range_lower_upper low up P = concat (map (\<lambda>j. map_range low up (snd (P ! j))) [?b..<?e])"
    by (simp add: get_range_lower_upper_def comp_def)
  also have "\<dots> = concat (map (\<lambda>j. filter ?Q (snd (P ! j))) [?b..<?e])"
    using ranges range_end_le [OF le, of P] by (intro arg_cong [of _ _ concat] map_cong) auto
  also have "\<dots> = concat (map (\<lambda>j. filter ?Q (snd (P ! j))) [0..<length P])"
    using range_end_le [OF le, of P] out by (intro concat_outside) auto
  also have "\<dots> = filter ?Q (entries P)" by (simp add: entries_nth filter_concat comp_def)
  finally show ?thesis using entries_ordered [OF inv] by (simp add: map_range_filter)
qed

lemma get_equal_refines:
  assumes inv: "part_inv P" shows "get_range_equal k P = map_range k k (entries P)"
proof (rule ordered_unique)
  have o: "ordered (part P k)" "ordered (entries P)" using inv by (rule part_ordered, rule entries_ordered)
  show "ordered (get_range_equal k P)" "ordered (map_range k k (entries P))"
    using o by (simp_all add: get_range_equal_def map_range_filter sorted_wrt_filter)
  have "e \<in> set (part P k) \<and> k = fst e \<longleftrightarrow> e \<in> set (entries P) \<and> k = fst e" for e
    unfolding part_entries [OF inv, of e k] by blast
  then show "set (get_range_equal k P) = set (map_range k k (entries P))"
    unfolding get_range_equal_def map_range_filter [OF o(1)] map_range_filter [OF o(2)] set_filter eq_iff [symmetric]
    by blast
qed

lemma erase_range_refines:
  assumes inv: "part_inv P" and le: "low \<le> up"
  shows "part_inv (erase_lower_upper low up P)" and "entries (erase_lower_upper low up P) = map_erase_range low up (entries P)"
proof -
  let ?N = "\<lambda>e. \<not> (low \<le> fst e \<and> fst e \<le> up)"
  have part: "snd (erase_lower_upper low up P ! j) = filter ?N (snd (P ! j))" if j: "j < length P" for j
  proof -
    have "filter ?N (snd (P ! j)) = snd (P ! j)" if "\<not> (part_it P low \<le> j \<and> j < range_end up P)"
      unfolding filter_id_conv using range_parts [OF inv j, of _ low up] that by blast
    moreover have "map_erase_range low up (snd (P ! j)) = filter ?N (snd (P ! j))"
      using inv j le by (intro map_erase_range_filter) (simp_all add: part_inv_def)
    ultimately show ?thesis using j by (auto simp: erase_lower_upper_def)
  qed
  have len: "length (erase_lower_upper low up P) = length P" by (simp add: erase_lower_upper_def)
  have keys: "map fst (erase_lower_upper low up P) = map fst P"
    by (rule nth_equalityI) (auto simp: erase_lower_upper_def)
  have "ordered (filter ?N (snd (P ! j)))" if "j < length P" for j
    using inv that by (intro sorted_wrt_filter) (simp add: part_inv_def)
  moreover have "erase_lower_upper low up P \<noteq> []" using inv len by (metis length_0_conv part_inv_def)
  moreover have "part_it P (fst e) = j" if "j < length P" "e \<in> set (filter ?N (snd (P ! j)))" for j e
    using part_inv_at [OF inv that(1)] that(2) by simp
  ultimately show "part_inv (erase_lower_upper low up P)"
    unfolding part_inv_def len part_it_keys [OF keys] by (simp add: part)
  have "entries (erase_lower_upper low up P) = filter ?N (entries P)"
    unfolding entries_nth len filter_concat map_map
    by (intro arg_cong [of _ _ concat] map_cong) (auto simp: part)
  then show "entries (erase_lower_upper low up P) = map_erase_range low up (entries P)"
    using entries_ordered [OF inv] le by (simp add: map_erase_range_filter)
qed

lemma part_size_refines: "part_size P = length (entries P)"
proof -
  have "fold (\<lambda>p n. n + length (snd p)) P n = n + length (entries P)" for n
    by (induction P arbitrary: n) (simp_all add: entries_def)
  then show ?thesis by (simp add: part_size_def)
qed

lemma part_clear_refines: "part_inv P \<Longrightarrow> part_inv (part_clear P)" "entries (part_clear P) = []"
  by (auto simp: part_inv_def part_clear_def entries_def)

lemma emplace_empty:
  "(\<forall>p \<in> set P. snd p = []) \<Longrightarrow> (\<forall>p \<in> set (map_emplace i [] P). snd p = []) \<and> map_emplace i [] P \<noteq> []"
  by (auto simp: map_emplace_def Let_def dest: in_set_takeD in_set_dropD)

lemma new_partitions_empty:
  "(\<forall>p \<in> set P. snd p = []) \<Longrightarrow> (\<forall>p \<in> set (fold (\<lambda>i. map_emplace i []) il P). snd p = []) \<and>
     (P \<noteq> [] \<or> il \<noteq> [] \<longrightarrow> fold (\<lambda>i. map_emplace i []) il P \<noteq> [])"
proof (induction il arbitrary: P)
  case (Cons i il)
  show ?case using Cons.IH [of "map_emplace i [] P"] emplace_empty [OF Cons.prems, of i] by simp
qed simp

lemma new_partitions: "il \<noteq> [] \<Longrightarrow> part_inv (safe_map_partitioned_t il)" "entries (safe_map_partitioned_t il) = []"
  using new_partitions_empty [of "[]" il] by (auto simp: safe_map_partitioned_t_def part_inv_def entries_def)

section \<open>Sequences of operations\<close>

datatype ('k, 'v) map_op = Op_emplace 'k 'v | Op_erase 'k | Op_erase_range 'k 'k | Op_clear

inductive part_step :: "('k :: linorder, 'v) part_t \<Rightarrow> ('k, 'v) map_op \<Rightarrow> ('k, 'v) part_t \<Rightarrow> bool" where
  "part_step P (Op_emplace k v) (part_emplace k v P)"
| "part_step P (Op_erase k) (snd (part_erase k P))"
| "low \<le> up \<Longrightarrow> part_step P (Op_erase_range low up) (erase_lower_upper low up P)"
| "part_step P Op_clear (part_clear P)"

text \<open>The same operations on one map.\<close>

inductive map_step :: "('k :: linorder, 'v) std_map \<Rightarrow> ('k, 'v) map_op \<Rightarrow> ('k, 'v) std_map \<Rightarrow> bool" where
  "map_step m (Op_emplace k v) (map_emplace k v m)"
| "map_step m (Op_erase k) (snd (map_erase k m))"
| "map_step m (Op_erase_range low up) (map_erase_range low up m)"
| "map_step m Op_clear []"

interpretation parts: refining part_step part_inv map_step entries
proof
  fix P e and Q :: "('a :: linorder, 'b) part_t"
  assume "part_step P e Q" "part_inv P"
  then show "part_inv Q"
    by cases (auto intro: part_emplace_refines part_erase_refines erase_range_refines part_clear_refines)
next
  fix P e and Q :: "('a :: linorder, 'b) part_t"
  assume "part_step P e Q" "part_inv P"
  then show "map_step (entries P) e (entries Q)"
    by cases (simp_all add: part_emplace_refines part_erase_refines erase_range_refines part_clear_refines map_step.intros)
qed

text \<open>C25: the partitioned map is one ordered map.  For any boundaries and any sequence of operations, the entries of the parts
  in order are the map the same operations give without a partition; and looking for a key, for a range of keys, erasing a
  key and the size give what they give on this map.\<close>

theorem partitioned_map_refines:
  fixes il :: "'k :: linorder list"
  assumes "il \<noteq> []" and "run part_step (safe_map_partitioned_t il) es P"
  shows "run map_step [] es (entries P) \<and> get_range_equal k P = map_range k k (entries P) \<and>
    (low \<le> up \<longrightarrow> get_range_lower_upper low up P = map_range low up (entries P)) \<and>
    fst (part_erase k P) = fst (map_erase k (entries P)) \<and> part_size P = length (entries P)"
proof -
  have inv: "part_inv P" using parts.run_keeps [OF assms(2) new_partitions(1) [OF assms(1)]] .
  have "run map_step [] es (entries P)"
    using parts.run_refines [OF assms(2) new_partitions(1) [OF assms(1)]] by (simp add: new_partitions(2))
  then show ?thesis
    by (intro conjI impI get_equal_refines [OF inv] get_range_refines [OF inv] part_erase_refines(3) [OF inv] part_size_refines)
qed

theorem partitioned_map_refines_witness:
  "\<exists>P. run part_step (safe_map_partitioned_t [10, 20 :: nat]) [Op_emplace 15 ''a'', Op_emplace 5 ''b''] P \<and>
     get_range_lower_upper 0 30 P = [(5, ''b''), (15, ''a'')] \<and> map_range 0 30 (entries P) = [(5, ''b''), (15, ''a'')]"
proof -
  let ?P = "part_emplace 5 ''b'' (part_emplace 15 ''a'' (safe_map_partitioned_t [10, 20 :: nat]))"
  have r: "run part_step (safe_map_partitioned_t [10, 20 :: nat]) [Op_emplace 15 ''a'', Op_emplace 5 ''b''] ?P"
    by (rule run_Cons [OF _ run_Cons [OF _ run_Nil]]) (rule part_step.intros)+
  have "get_range_lower_upper 0 30 ?P = [(5, ''b''), (15, ''a'')]" by code_simp
  with r partitioned_map_refines [OF _ r, of 0 0 30] show ?thesis by auto
qed

end
