(* ===== verification/Common_Utils.thy ===== *)
theory Common_Utils
  imports Json_Rpc "HOL-Library.Sublist" "HOL-Library.Signed_Division"
begin

text \<open>
  Small tools of \<^verbatim>\<open>src/src/common\<close> and \<^verbatim>\<open>src/src/sync/P2P\<close>: \<^verbatim>\<open>parallelFor\<close> (\<^verbatim>\<open>parallel_for.h\<close>), trimming (\<^verbatim>\<open>stringUtils.h\<close>), numbers of
  hours and days (\<^verbatim>\<open>duration.h\<close>), typed members of JSON objects (\<^verbatim>\<open>jsonUtils.h\<close>) and the window of the last elements
  (\<^verbatim>\<open>LimitArray.h\<close>).  The lemmas show that the threads of \<^verbatim>\<open>parallelFor\<close> share the elements without gap and overlap.
\<close>

section \<open>parallelFor\<close>

text \<open>The elements from one position up to another, for \<open>k\<close> threads with the numbers from \<open>i\<close>.\<close>

fun thread_ranges :: "nat \<Rightarrow> nat \<Rightarrow> nat \<Rightarrow> nat \<Rightarrow> 'a list \<Rightarrow> (nat \<times> 'a list) list" where
  "thread_ranges 0 i prevPosition step xs = [(0, drop prevPosition xs)]"
| "thread_ranges (Suc k) i prevPosition step xs =
     (let nextPosition = min (prevPosition + step) (length xs)
      in (i, take (nextPosition - prevPosition) (drop prevPosition xs)) # thread_ranges k (Suc i) nextPosition step xs)"

text \<open>The number of threads: an \<^verbatim>\<open>int\<close> that is compared as a \<^verbatim>\<open>size_t\<close> and becomes an \<^verbatim>\<open>int\<close> again.\<close>

definition count_threads :: "int \<Rightarrow> nat \<Rightarrow> int" where
  "count_threads countThreads countElements =
     (let m = min (nat (countThreads mod 2 ^ 64)) countElements in (int m + 2 ^ 31) mod 2 ^ 32 - 2 ^ 31)"

text \<open>The ranges of the threads; \<open>None\<close> stands for the division by zero.\<close>

definition parallel_ranges :: "int \<Rightarrow> 'a list \<Rightarrow> (nat \<times> 'a list) list fallible option" where
  "parallel_ranges countThreads xs =
     (if xs = [] then Some (Inr [])
      else let c = count_threads countThreads (length xs)
           in if c = 0 then None
              else let step = length xs div nat (c mod 2 ^ 64)
                   in Some (require (step \<noteq> 0) (StringExc ''step == 0'') (Inr (thread_ranges (nat (c - 1)) 1 0 step xs))))"

text \<open>What one thread works on: up to the first exception, which is kept unless it is a \<^verbatim>\<open>StopException\<close>.\<close>

fun throw_wrapper :: "('a \<Rightarrow> exc option) \<Rightarrow> 'a list \<Rightarrow> 'a list \<times> exc option" where
  "throw_wrapper worker [] = ([], None)"
| "throw_wrapper worker (x # xs) =
     (case worker x of
        None \<Rightarrow> (let (ys, e) = throw_wrapper worker xs in (x # ys, e))
      | Some e \<Rightarrow> ([x], if e = StopExc then None else Some e))"

text \<open>The elements every thread has worked on, and the exceptions, one of which is thrown when there are any.\<close>

definition run_threads :: "(nat \<Rightarrow> 'a \<Rightarrow> exc option) \<Rightarrow> (nat \<times> 'a list) list \<Rightarrow> (nat \<times> 'a list) list \<times> exc list" where
  "run_threads worker rs =
     (map (\<lambda>p. (fst p, fst (throw_wrapper (worker (fst p)) (snd p)))) rs,
      List.map_filter (\<lambda>p. snd (throw_wrapper (worker (fst p)) (snd p))) rs)"

definition parallelFor ::
    "(nat \<Rightarrow> 'a \<Rightarrow> exc option) \<Rightarrow> int \<Rightarrow> 'a list \<Rightarrow> ((nat \<times> 'a list) list \<times> exc list) fallible option" where
  "parallelFor worker countThreads xs =
     map_option (\<lambda>r. bindE r (\<lambda>rs. Inr (run_threads worker rs))) (parallel_ranges countThreads xs)"

lemma thread_ranges_cover:
  "p \<le> length xs \<Longrightarrow> concat (map snd (thread_ranges k i p step xs)) = drop p xs"
proof (induction k arbitrary: i p)
  case (Suc k)
  let ?n = "min (p + step) (length xs)"
  have "take (?n - p) (drop p xs) @ drop (?n - p) (drop p xs) = drop p xs" by (rule append_take_drop_id)
  moreover have "drop (?n - p) (drop p xs) = drop ?n xs" using Suc.prems by (simp add: drop_drop)
  ultimately show ?case using Suc.IH [of ?n] by (simp add: Let_def)
qed simp

lemma thread_ranges_numbers: "map fst (thread_ranges k i p step xs) = [i..<i + k] @ [0]"
  by (induction k arbitrary: i p) (simp_all add: Let_def upt_conv_Cons del: upt_Suc)

lemma throw_wrapper_prefix: "\<exists>zs. xs = fst (throw_wrapper worker xs) @ zs"
  by (induction xs) (auto split: option.splits prod.splits)

lemma throw_wrapper_complete:
  "snd (throw_wrapper worker xs) = None \<Longrightarrow> (\<forall>x \<in> set xs. worker x \<noteq> Some StopExc) \<Longrightarrow> fst (throw_wrapper worker xs) = xs"
  by (induction xs) (auto split: option.splits prod.splits if_splits)

lemma throw_wrapper_error: "snd (throw_wrapper worker xs) = Some e \<Longrightarrow> e \<noteq> StopExc \<and> (\<exists>x \<in> set xs. worker x = Some e)"
  by (induction xs) (auto split: option.splits prod.splits if_splits)

lemma count_threads_small:
  assumes "countThreads > 0" and "0 < n" and "n < 2 ^ 31" and "countThreads < 2 ^ 31"
  shows "count_threads countThreads n = min countThreads (int n)"
proof -
  have "countThreads mod 2 ^ 64 = countThreads" using assms by (intro mod_pos_pos_trivial) auto
  then have "int (min (nat (countThreads mod 2 ^ 64)) n) = min countThreads (int n)" using assms by (simp add: min_def nat_le_iff)
  moreover have "(min countThreads (int n) + 2 ^ 31) mod 2 ^ 32 = min countThreads (int n) + 2 ^ 31"
    using assms by (intro mod_pos_pos_trivial) auto
  ultimately show ?thesis by (simp add: count_threads_def Let_def)
qed

lemma parallel_ranges_total:
  assumes "0 < countThreads" and "countThreads < 2 ^ 31" and "xs \<noteq> []" and "length xs < 2 ^ 31"
  defines "c \<equiv> min countThreads (int (length xs))"
  shows "parallel_ranges countThreads xs = Some (Inr (thread_ranges (nat (c - 1)) 1 0 (length xs div nat c) xs))"
proof -
  have c: "count_threads countThreads (length xs) = c" using assms by (simp add: count_threads_small)
  have "0 < c" "c < 2 ^ 31" "c \<le> int (length xs)" using assms by auto
  then have m: "c mod 2 ^ 64 = c" by (intro mod_pos_pos_trivial) auto
  have "nat c \<le> length xs" "0 < nat c" using \<open>0 < c\<close> \<open>c \<le> int (length xs)\<close> by linarith+
  then have "length xs div nat c \<noteq> 0" by (metis div_greater_zero_iff less_not_refl)
  with \<open>0 < c\<close> assms(3) show ?thesis unfolding parallel_ranges_def Let_def c m by simp
qed

lemma subseq_concat_prefixes:
  "(\<And>p. p \<in> set rs \<Longrightarrow> \<exists>zs. g p = f p @ zs) \<Longrightarrow> subseq (concat (map f rs)) (concat (map g rs))"
proof (induction rs)
  case (Cons p rs)
  then obtain zs where "g p = f p @ zs" by fastforce
  then have "subseq (f p) (g p)" by (simp add: prefix_imp_subseq)
  moreover have "subseq (concat (map f rs)) (concat (map g rs))" using Cons by simp
  ultimately show ?case by (simp add: list_emb_append_mono)
qed simp

lemma run_threads_numbers: "map fst (fst (run_threads worker rs)) = map fst rs"
  by (simp add: run_threads_def)

lemma run_threads_subseq: "subseq (concat (map snd (fst (run_threads worker rs)))) (concat (map snd rs))"
proof -
  have "map snd (fst (run_threads worker rs)) = map (\<lambda>p. fst (throw_wrapper (worker (fst p)) (snd p))) rs"
    by (simp add: run_threads_def)
  moreover have "subseq (concat (map (\<lambda>p. fst (throw_wrapper (worker (fst p)) (snd p))) rs)) (concat (map snd rs))"
    by (rule subseq_concat_prefixes) (rule throw_wrapper_prefix)
  ultimately show ?thesis by simp
qed

lemma run_threads_complete:
  assumes "snd (run_threads worker rs) = []" and "\<forall>x \<in> set (concat (map snd rs)). \<forall>t. worker t x \<noteq> Some StopExc"
  shows "map snd (fst (run_threads worker rs)) = map snd rs"
proof -
  have "fst (throw_wrapper (worker (fst p)) (snd p)) = snd p" if p: "p \<in> set rs" for p
  proof (rule throw_wrapper_complete)
    show "snd (throw_wrapper (worker (fst p)) (snd p)) = None"
      using assms(1) p by (auto simp: run_threads_def map_filter_def filter_empty_conv)
    show "\<forall>x \<in> set (snd p). worker (fst p) x \<noteq> Some StopExc" using assms(2) p by auto
  qed
  then show ?thesis by (simp add: run_threads_def)
qed

lemma run_threads_error:
  assumes "e \<in> set (snd (run_threads worker rs))"
  shows "e \<noteq> StopExc \<and> (\<exists>t. \<exists>x \<in> set (concat (map snd rs)). worker t x = Some e)"
proof -
  obtain p where p: "p \<in> set rs" "snd (throw_wrapper (worker (fst p)) (snd p)) = Some e"
    using assms by (auto simp: run_threads_def map_filter_def)
  from throw_wrapper_error [OF p(2)] obtain x where "e \<noteq> StopExc" "x \<in> set (snd p)" "worker (fst p) x = Some e" by blast
  with p(1) show ?thesis by auto
qed

text \<open>\<^verbatim>\<open>parallelFor\<close> over a positive number of threads divides the elements between at most that many threads with
  different numbers, without gap and overlap: no element is worked on twice, and when no exception is kept and no element
  stops its thread, every element has been worked on, in order along the threads.  An exception that is kept was thrown
  for one of the elements and is not the one that stops.\<close>

lemma parallelFor_covers:
  assumes "0 < countThreads" and "countThreads < 2 ^ 31" and "length xs < 2 ^ 31"
  shows "\<exists>rs es. parallelFor worker countThreads xs = Some (Inr (rs, es))
    \<and> distinct (map fst rs) \<and> int (length rs) \<le> countThreads \<and> subseq (concat (map snd rs)) xs
    \<and> (es = [] \<and> (\<forall>x \<in> set xs. \<forall>t. worker t x \<noteq> Some StopExc) \<longrightarrow> concat (map snd rs) = xs)
    \<and> (\<forall>e \<in> set es. e \<noteq> StopExc \<and> (\<exists>t. \<exists>x \<in> set xs. worker t x = Some e))"
proof (cases "xs = []")
  case True
  with assms show ?thesis by (simp add: parallelFor_def parallel_ranges_def run_threads_def map_filter_simps)
next
  case False
  define c where "c = min countThreads (int (length xs))"
  define rs where "rs = thread_ranges (nat (c - 1)) 1 0 (length xs div nat c) xs"
  have r: "parallel_ranges countThreads xs = Some (Inr rs)"
    unfolding rs_def c_def by (rule parallel_ranges_total [OF assms(1,2) False assms(3)])
  have numbers: "map fst rs = [1..<1 + nat (c - 1)] @ [0]" unfolding rs_def by (rule thread_ranges_numbers)
  have cover: "concat (map snd rs) = xs" unfolding rs_def by (simp add: thread_ranges_cover)
  obtain out es where res: "run_threads worker rs = (out, es)" by (cases "run_threads worker rs")
  have out: "map fst out = [1..<1 + nat (c - 1)] @ [0]" using run_threads_numbers [of worker rs] numbers res by simp
  have "length out = nat (c - 1) + 1" using arg_cong [OF out, of length] by simp
  then have "int (length out) \<le> countThreads" using assms(1) by (simp add: c_def)
  moreover have "parallelFor worker countThreads xs = Some (Inr (out, es))" by (simp add: parallelFor_def r res)
  moreover have "distinct (map fst out)" unfolding out by auto
  moreover have "subseq (concat (map snd out)) xs" using run_threads_subseq [of worker rs] unfolding cover res by simp
  moreover have "es = [] \<and> (\<forall>x \<in> set xs. \<forall>t. worker t x \<noteq> Some StopExc) \<longrightarrow> concat (map snd out) = xs"
  proof
    assume none: "es = [] \<and> (\<forall>x \<in> set xs. \<forall>t. worker t x \<noteq> Some StopExc)"
    then have "map snd out = map snd rs" using run_threads_complete [of worker rs] unfolding cover res by simp
    then show "concat (map snd out) = xs" using cover by simp
  qed
  moreover have "\<forall>e \<in> set es. e \<noteq> StopExc \<and> (\<exists>t. \<exists>x \<in> set xs. worker t x = Some e)"
    using run_threads_error [of _ worker rs] unfolding cover res snd_conv by blast
  ultimately show ?thesis by (intro exI [of _ out] exI [of _ es] conjI)
qed

lemma parallelFor_covers_witness:
  "\<exists>rs es. parallelFor (\<lambda>t x. if x = (3::nat) then Some OtherExc else None) 2 [1, 2, 3, 4, 5] = Some (Inr (rs, es))
    \<and> distinct (map fst rs) \<and> subseq (concat (map snd rs)) [1, 2, 3, 4, 5]"
proof -
  have "(0::int) < 2" "(2::int) < 2 ^ 31" "length [1, 2, 3, 4, 5::nat] < 2 ^ 31" by simp_all
  from parallelFor_covers [OF this, of "\<lambda>t x. if x = 3 then Some OtherExc else None"] show ?thesis by blast
qed

text \<open>With no thread at all the division fails.\<close>

lemma parallelFor_no_threads: "xs \<noteq> [] \<Longrightarrow> parallelFor worker 0 xs = None"
  by (simp add: parallelFor_def parallel_ranges_def count_threads_def)

section \<open>Strings\<close>

definition ltrim :: "string \<Rightarrow> string" where
  "ltrim s = dropWhile isspace s"

definition rtrim :: "string \<Rightarrow> string" where
  "rtrim s = rev (dropWhile isspace (rev s))"

definition trim :: "string \<Rightarrow> string" where
  "trim s = ltrim (rtrim s)"

definition beginWith :: "string \<Rightarrow> string \<Rightarrow> bool" where
  "beginWith first second \<longleftrightarrow> str_find second first = Some 0"

definition toLower_string :: "string \<Rightarrow> string" where
  "toLower_string = map to_lower_char"

definition toUpper_string :: "string \<Rightarrow> string" where
  "toUpper_string = map to_upper_char"

text \<open>Trimming leaves no space at an end and takes only spaces away.\<close>

lemma trim_parts: "\<exists>l r. s = l @ trim s @ r \<and> list_all isspace l \<and> list_all isspace r"
proof -
  have "rtrim s @ rev (takeWhile isspace (rev s)) = s"
    unfolding rtrim_def by (metis rev_append rev_rev_ident takeWhile_dropWhile_id)
  moreover have "takeWhile isspace (rtrim s) @ trim s = rtrim s"
    unfolding trim_def ltrim_def by simp
  ultimately have "s = takeWhile isspace (rtrim s) @ trim s @ rev (takeWhile isspace (rev s))" by (metis append_assoc)
  moreover have "list_all isspace (takeWhile isspace xs)" for xs by (auto simp: list_all_iff dest: set_takeWhileD)
  ultimately show ?thesis by (metis list_all_rev)
qed

lemma trim_ends: "trim s \<noteq> [] \<Longrightarrow> \<not> isspace (hd (trim s)) \<and> \<not> isspace (last (trim s))"
proof -
  assume "trim s \<noteq> []"
  then have ne: "dropWhile isspace (rtrim s) \<noteq> []" by (simp add: trim_def ltrim_def)
  then have "\<not> isspace (hd (trim s))" by (simp add: trim_def ltrim_def hd_dropWhile)
  moreover have "last (trim s) = last (rtrim s)"
    using ne unfolding trim_def ltrim_def by (metis last_appendR takeWhile_dropWhile_id)
  moreover have "dropWhile isspace (rev s) \<noteq> []" using ne unfolding rtrim_def by (metis dropWhile.simps(1) rev.simps(1))
  then have "\<not> isspace (last (rtrim s))" unfolding rtrim_def by (simp add: last_rev hd_dropWhile)
  ultimately show ?thesis by simp
qed

section \<open>Days\<close>

text \<open>The numbers are \<^verbatim>\<open>size_t\<close>, the durations between count in a signed number of 64 bits.\<close>

definition getSecondNumber :: "u64 \<Rightarrow> u64" where
  "getSecondNumber millisecond = word_of_int (sint millisecond sdiv 1000)"

definition getHourNumber :: "u64 \<Rightarrow> u64" where
  "getHourNumber millisecond = word_of_int (sint millisecond sdiv 3600000)"

definition getDayNumber :: "u64 \<Rightarrow> u64" where
  "getDayNumber millisecond = getHourNumber millisecond div 24"

definition getTimestampForDay :: "u64 \<Rightarrow> u64" where
  "getTimestampForDay dayNumber = word_of_int (sint (dayNumber * 24) * 3600000)"

text \<open>Every millisecond of a day is found to be of that day.\<close>

lemma day_roundtrip:
  assumes "d * 86400000 + r < 2 ^ 63" and "r < 86400000"
  shows "getDayNumber (getTimestampForDay (of_nat d) + of_nat r) = of_nat d"
proof -
  have small: "sint (of_nat n :: u64) = int n" if "n < 2 ^ 63" for n
    using that by (simp add: signed_of_nat signed_take_bit_int_eq_self)
  have "getTimestampForDay (of_nat d) = of_nat (d * 86400000)"
    using assms small [of "d * 24"] by (simp add: getTimestampForDay_def)
  then have t: "getTimestampForDay (of_nat d) + of_nat r = of_nat (d * 86400000 + r)" by simp
  have "int n sdiv 3600000 = int (n div 3600000)" for n
    by (cases n) (simp_all add: signed_divide_int_def zdiv_int)
  then have "getHourNumber (of_nat (d * 86400000 + r)) = of_nat ((d * 86400000 + r) div 3600000)"
    unfolding getHourNumber_def small [OF assms(1)] by (simp only: of_int_of_nat_eq)
  then have "getDayNumber (of_nat (d * 86400000 + r)) = of_nat ((d * 86400000 + r) div 3600000 div 24)"
    using assms by (simp add: getDayNumber_def word_arith_nat_div unat_of_nat take_bit_nat_eq_self)
  moreover have "(d * 86400000 + r) div 3600000 div 24 = d" using assms(2) by (simp add: div_mult2_eq [symmetric])
  ultimately show ?thesis unfolding t by simp
qed

section \<open>Members of JSON objects\<close>

text \<open>\<^verbatim>\<open>getOpt<T>\<close> for the types it is defined for: unsigned numbers are read as signed ones of the same width, a string up
  to its first NUL.\<close>

definition getOpt_string :: "json \<Rightarrow> string option" where "getOpt_string j = map_option c_str (as_string j)"
definition getOpt_int :: "json \<Rightarrow> int option" where "getOpt_int = as_int"
definition getOpt_uint :: "json \<Rightarrow> nat option" where
  "getOpt_uint j = map_option (\<lambda>i. nat (i mod 2 ^ 32)) (as_int j)"
definition getOpt_int64 :: "json \<Rightarrow> int option" where "getOpt_int64 = as_int64"
definition getOpt_uint64 :: "json \<Rightarrow> nat option" where
  "getOpt_uint64 j = map_option (\<lambda>i. nat (i mod 2 ^ 64)) (as_int64 j)"
definition getOpt_double :: "json \<Rightarrow> u64 option" where
  "getOpt_double j = (case j of JDouble d \<Rightarrow> Some d | _ \<Rightarrow> None)"
definition getOpt_bool :: "json \<Rightarrow> bool option" where "getOpt_bool = as_bool"
definition getOpt_array :: "json \<Rightarrow> json list option" where "getOpt_array = as_array"
definition getOpt_object :: "json \<Rightarrow> (string \<times> json) list option" where
  "getOpt_object j = (if IsObject j then Some (members j) else None)"

definition getOpt_member :: "(json \<Rightarrow> 'a option) \<Rightarrow> json \<Rightarrow> string \<Rightarrow> 'a option" where
  "getOpt_member get_opt obj name = Option.bind (FindMember name obj) get_opt"

definition getOpt_document :: "(json \<Rightarrow> 'a option) \<Rightarrow> json \<Rightarrow> string \<Rightarrow> 'a option fallible" where
  "getOpt_document get_opt obj name =
     require (IsObject obj) (UserExc ''Json document not object'') (Inr (getOpt_member get_opt obj name))"

definition getOpt_default :: "(json \<Rightarrow> 'a option) \<Rightarrow> json \<Rightarrow> string \<Rightarrow> 'a \<Rightarrow> 'a" where
  "getOpt_default get_opt obj name defaultValue =
     (case getOpt_member get_opt obj name of Some v \<Rightarrow> v | None \<Rightarrow> defaultValue)"

definition get_member :: "(json \<Rightarrow> 'a option) \<Rightarrow> json \<Rightarrow> string \<Rightarrow> 'a fallible" where
  "get_member get_opt obj name =
     (case getOpt_member get_opt obj name of
        Some v \<Rightarrow> Inr v | None \<Rightarrow> Inl (UserExc (''Field '' @ name @ '' not found'')))"

definition get_document :: "(json \<Rightarrow> 'a option) \<Rightarrow> json \<Rightarrow> string \<Rightarrow> 'a fallible" where
  "get_document get_opt obj name =
     require (IsObject obj) (UserExc ''Json document not object'') (get_member get_opt obj name)"

definition get_json :: "(json \<Rightarrow> 'a option) \<Rightarrow> json \<Rightarrow> 'a fallible" where
  "get_json get_opt obj = (case get_opt obj of Some v \<Rightarrow> Inr v | None \<Rightarrow> Inl (UserExc ''Incorrect json''))"

text \<open>An unsigned number from the upper half of its range is taken for missing, a negative one is accepted and wraps.\<close>

lemma getOpt_uint_upper: "2 ^ 31 \<le> n \<Longrightarrow> getOpt_uint (JInt n) = None"
  by (auto simp: getOpt_uint_def as_int_def)

lemma getOpt_uint_negative: "getOpt_uint (JInt (-1)) = Some (2 ^ 32 - 1)"
  by (simp add: getOpt_uint_def as_int_def)

section \<open>LimitArray\<close>

record limit_array =
  la_limit :: nat
  la_arr :: "nat list"

definition LimitArray :: "nat \<Rightarrow> limit_array" where
  "LimitArray limit = \<lparr>la_limit = limit, la_arr = []\<rparr>"

definition la_add :: "nat \<Rightarrow> limit_array \<Rightarrow> limit_array" where
  "la_add element a =
     (let a = a\<lparr>la_arr := la_arr a @ [element]\<rparr>
      in if length (la_arr a) > la_limit a then a\<lparr>la_arr := tl (la_arr a)\<rparr> else a)"

definition la_max :: "limit_array \<Rightarrow> nat" where
  "la_max a = (if la_arr a = [] then 0 else fold max (la_arr a) (hd (la_arr a)))"

definition la_filled :: "limit_array \<Rightarrow> bool" where
  "la_filled a \<longleftrightarrow> length (la_arr a) = la_limit a"

text \<open>The window holds the last elements, and \<^verbatim>\<open>max\<close> is the greatest of them.\<close>

lemma la_add_parts:
  "la_arr (la_add e a) = (if length (la_arr a) < la_limit a then la_arr a @ [e] else tl (la_arr a @ [e]))"
  "la_limit (la_add e a) = la_limit a"
  by (simp_all add: la_add_def Let_def)

lemma limit_array_window:
  "la_arr (fold la_add es (LimitArray n)) = drop (length es - n) es \<and> la_limit (fold la_add es (LimitArray n)) = n"
proof (induction es rule: rev_induct)
  case (snoc e es)
  have arr: "la_arr (fold la_add es (LimitArray n)) = drop (length es - n) es"
    and lim: "la_limit (fold la_add es (LimitArray n)) = n" using snoc by auto
  show ?case
  proof (cases "length es < n")
    case False
    have "drop (length es - n) es @ [e] = drop (length es - n) (es @ [e])" by simp
    then have "tl (drop (length es - n) es @ [e]) = drop (Suc (length es - n)) (es @ [e])" by (simp only: drop_Suc tl_drop)
    then have "tl (drop (length es - n) es @ [e]) = drop (Suc (length es) - n) (es @ [e])"
      using False by (simp only: Suc_diff_le not_less)
    then show ?thesis using False by (simp add: la_add_parts arr lim del: drop_append)
  qed (simp add: la_add_parts arr lim)
qed (simp add: LimitArray_def)

lemma limit_array_max: "la_arr a \<noteq> [] \<Longrightarrow> la_max a = Max (set (la_arr a))"
  by (cases "la_arr a") (simp_all add: la_max_def Max.set_eq_fold del: list.set)

end
