(* ===== verification/Json_Schema.thy ===== *)
theory Json_Schema
  imports Json_Rpc
begin

text \<open>
  The schemas requests are validated with, \<^verbatim>\<open>src/src/jsonrpc/json_rpc_schema.{h,cpp}\<close>: a table that the constructor fills from
  the two texts linked into the program.  The parser of RapidJSON and the schema it makes of a document are arguments; a
  schema is the validator that session and handlers call.  The lemma shows what the table holds for good.
\<close>

datatype schema_type = request_schema | methods_schema

type_synonym validator = "json \<Rightarrow> json option"

record jsonrpc_schema =
  m_schemas :: "(schema_type \<times> validator) list"

definition schema_text :: "string \<Rightarrow> string \<Rightarrow> schema_type \<Rightarrow> string" where
  "schema_text request_json methods_json t = (case t of request_schema \<Rightarrow> request_json | methods_schema \<Rightarrow> methods_json)"

definition load_schema ::
  "(string \<Rightarrow> json option) \<Rightarrow> (json \<Rightarrow> validator) \<Rightarrow> (schema_type \<Rightarrow> string) \<Rightarrow> schema_type \<Rightarrow> jsonrpc_schema \<Rightarrow> validator option \<times> jsonrpc_schema" where
  "load_schema Parse SchemaDocument texts t s =
     (case Parse (texts t) of
        None \<Rightarrow> (None, s)
      | Some doc \<Rightarrow>
          if t \<in> fst ` set (m_schemas s) then (None, s)
          else (Some (SchemaDocument doc), s\<lparr>m_schemas := m_schemas s @ [(t, SchemaDocument doc)]\<rparr>))"

definition new_jsonrpc_schema ::
  "(string \<Rightarrow> json option) \<Rightarrow> (json \<Rightarrow> validator) \<Rightarrow> (schema_type \<Rightarrow> string) \<Rightarrow> jsonrpc_schema" where
  "new_jsonrpc_schema Parse SchemaDocument texts =
     (let s = snd (load_schema Parse SchemaDocument texts request_schema \<lparr>m_schemas = []\<rparr>)
      in snd (load_schema Parse SchemaDocument texts methods_schema s))"

definition get_schema :: "schema_type \<Rightarrow> jsonrpc_schema \<Rightarrow> validator option" where
  "get_schema t s = map_of (m_schemas s) t"

text \<open>A schema is found exactly when its text parses, and each kind is found under its own name.\<close>

lemma get_schema_new:
  "get_schema t (new_jsonrpc_schema Parse SchemaDocument texts) = map_option SchemaDocument (Parse (texts t))"
  by (cases t; cases "Parse (texts request_schema)"; cases "Parse (texts methods_schema)")
    (simp_all add: get_schema_def new_jsonrpc_schema_def load_schema_def Let_def)

end
