(* ===== verification/Statistics.thy ===== *)
theory Statistics
  imports Generate_Json
begin

text \<open>
  The reports about the node, \<^verbatim>\<open>src/src/Statistic\<close>: the counters of requests, the thread that reports them every second
  (\<^verbatim>\<open>StatisticsServer.cpp\<close>) and the guard that starts and stops it (\<^verbatim>\<open>Statistics.cpp\<close>, \<^verbatim>\<open>main.cpp\<close>).  The thread is a
  program counter between the places where it takes a lock, sends a report or sleeps, so that a run is any interleaving
  with the calls of the other threads.  \<^verbatim>\<open>Curl::request\<close>, the parser of RapidJSON and the time are arguments.  The lemmas
  show that no request is counted twice or lost between the counters and the reports, and that the guard that
  \<^verbatim>\<open>main\<close> copies stops the thread as soon as it is started.
\<close>

section \<open>The counters\<close>

text \<open>\<^verbatim>\<open>std::map<std::string, size_t>\<close>: the entries in the order of the keys.\<close>

fun str_less :: "string \<Rightarrow> string \<Rightarrow> bool" where
  "str_less [] ys \<longleftrightarrow> ys \<noteq> []"
| "str_less (x # xs) [] \<longleftrightarrow> False"
| "str_less (x # xs) (y # ys) \<longleftrightarrow> (of_char x :: nat) < of_char y \<or> x = y \<and> str_less xs ys"

fun inc_key :: "string \<Rightarrow> (string \<times> u64) list \<Rightarrow> (string \<times> u64) list" where
  "inc_key k [] = [(k, 1)]"
| "inc_key k ((a, v) # xs) =
     (if k = a then (a, v + 1) # xs else if str_less k a then (k, 1) # (a, v) # xs else (a, v) # inc_key k xs)"

record requests_stat =
  requests :: "(string \<times> u64) list"
  allRequests :: u64

definition RequestsStat :: requests_stat where
  "RequestsStat = \<lparr>requests = [], allRequests = 0\<rparr>"

definition incRequest_stat :: "string \<Rightarrow> requests_stat \<Rightarrow> requests_stat" where
  "incRequest_stat request s = s\<lparr>requests := inc_key request (requests s), allRequests := allRequests s + 1\<rparr>"

definition clear_stat :: "requests_stat \<Rightarrow> requests_stat" where
  "clear_stat s = s\<lparr>allRequests := 0, requests := []\<rparr>"

section \<open>The last block\<close>

record block_statistic =
  bs_bh :: BlockHeader
  bs_timeGet :: int
  bs_timeSave :: int
  bs_timeAll :: int
  bs_countTransferTxs :: nat
  bs_countInitTxs :: nat
  bs_tp :: "nat option"

definition setLastBlock_stat :: "nat \<Rightarrow> BlockHeader \<Rightarrow> block_statistic" where
  "setLastBlock_stat now bh =
     \<lparr>bs_bh = bh, bs_timeGet = 0, bs_timeSave = 0, bs_timeAll = 0, bs_countTransferTxs = 0, bs_countInitTxs = 0, bs_tp = Some now\<rparr>"

definition makeBlockStatistic :: "nat \<Rightarrow> BlockInfo \<Rightarrow> block_statistic" where
  "makeBlockStatistic now bi =
     \<lparr>bs_bh = bi_header bi, bs_timeGet = 0, bs_timeSave = 0, bs_timeAll = 0, bs_countTransferTxs = 0, bs_countInitTxs = 0,
      bs_tp = Some now\<rparr>"

section \<open>The report\<close>

record stat_config =
  sc_serverStatName :: string
  sc_network :: string
  sc_group :: string
  sc_server :: string
  sc_version :: string
  sc_thisIp :: string

record benchmark_info =
  bm_memory :: int
  bm_ioTest :: int
  bm_ioTest2 :: int
  bm_opensslTest :: int

text \<open>What a round of the thread meets: the time, the contents of the file with the latency (\<open>None\<close> where it cannot be opened)
  and what the variable for it holds before, the benchmarks, the library of JSON with its parser, the server of the reports,
  and whether the program has been told to stop.\<close>

record stat_env =
  sx_now :: nat
  sx_latency :: "string option"
  sx_garbage :: u64
  sx_bench :: benchmark_info
  sx_json :: json_lib
  sx_parse :: "string \<Rightarrow> json option"
  sx_curl :: "string \<Rightarrow> string \<Rightarrow> string fallible"
  sx_stop :: bool

text \<open>\<^verbatim>\<open>file >> result\<close>: nothing is written when the file has no character but spaces, 0 when there is no number, the greatest
  value when the number is too large.\<close>

definition getLatency :: "stat_env \<Rightarrow> u64" where
  "getLatency E =
     (case sx_latency E of
        None \<Rightarrow> 0
      | Some s \<Rightarrow>
          if dropWhile isspace s = [] then sx_garbage E
          else case strto_digits s of
                 None \<Rightarrow> 0
               | Some (neg, v) \<Rightarrow> if 2 ^ 64 \<le> v then - 1 else if neg then - of_nat v else of_nat v)"

definition stat_param :: "json_lib \<Rightarrow> string \<Rightarrow> string \<Rightarrow> json \<Rightarrow> json \<Rightarrow> json" where
  "stat_param J type metric v metricsJson =
     PushBack (AddMember ''value'' v (AddMember ''metric'' (strToJson J metric) (AddMember ''type'' (strToJson J type) (JObject []))))
       metricsJson"

definition block_info_string :: "BlockHeader \<Rightarrow> nat \<Rightarrow> string" where
  "block_info_string bh number =
     ''number: '' @ to_string number @ ''; '' @ ''type: '' @ to_string (bh_blockType bh) @ ''; ''
     @ ''size: '' @ to_string (bh_blockSize bh) @ ''; '' @ ''hash: '' @ toHex (bh_hash bh) @ ''; ''
     @ ''prev_hash: '' @ toHex (bh_prevHash bh)"

definition add_block_stat :: "json_lib \<Rightarrow> block_statistic \<Rightarrow> string \<Rightarrow> json \<Rightarrow> json fallible" where
  "add_block_stat J stat prefix j =
     (case bh_blockNumber (bs_bh stat) of
        None \<Rightarrow> Inl (StdExc ''bad_optional_access'')
      | Some number \<Rightarrow> Inr (
          stat_param J ''none'' (prefix @ ''transactions_transfer'') (JInt (int (bs_countTransferTxs stat))) (
          stat_param J ''none'' (prefix @ ''transactions_init'') (JInt (int (bs_countInitTxs stat))) (
          stat_param J ''none'' (prefix @ ''block_info'') (strToJson J (block_info_string (bs_bh stat) number)) (
          stat_param J ''none'' (prefix @ ''latency'') (JInt (bs_timeAll stat)) (
          stat_param J ''none'' (prefix @ ''time_work'') (JInt (bs_timeGet stat + bs_timeSave stat)) j))))))"

definition add_requests :: "json_lib \<Rightarrow> requests_stat \<Rightarrow> json \<Rightarrow> json" where
  "add_requests J r j =
     fold (\<lambda>(key, v). stat_param J ''sum'' (''count_requests_'' @ key) (JInt (uint v))) (requests r)
       (stat_param J ''sum'' ''count_requests'' (JInt (uint (allRequests r))) j)"

definition metrics_json :: "stat_config \<Rightarrow> stat_env \<Rightarrow> block_statistic \<Rightarrow> requests_stat \<Rightarrow> json fallible" where
  "metrics_json C E b r =
     (let J = sx_json E in
      bindE (if bs_tp b \<noteq> None then add_block_stat J b ''last_'' (JArray []) else Inr (JArray [])) (\<lambda>m.
        Inr (
          stat_param J ''none'' ''bench_ssl'' (JInt (bm_opensslTest (sx_bench E))) (
          stat_param J ''none'' ''bench_io2'' (JInt (bm_ioTest2 (sx_bench E))) (
          stat_param J ''none'' ''bench_io'' (JInt (bm_ioTest (sx_bench E))) (
          stat_param J ''none'' ''bench_mem'' (JInt (bm_memory (sx_bench E))) (
          stat_param J ''none'' ''version'' (strToJson J (sc_version C)) (
          stat_param J ''none'' ''ip'' (strToJson J (sc_thisIp C)) (
          stat_param J ''none'' ''core_latency'' (JInt (uint (getLatency E))) (
          add_requests J r m))))))))))"

definition report_json :: "stat_config \<Rightarrow> stat_env \<Rightarrow> block_statistic \<Rightarrow> requests_stat \<Rightarrow> json fallible" where
  "report_json C E b r =
     (let J = sx_json E in
      bindE (metrics_json C E b r) (\<lambda>m.
        Inr (AddMember ''params''
          (AddMember ''metrics'' m
          (AddMember ''timestamp_ms'' (JInt (int (sx_now E)))
          (AddMember ''server'' (strToJson J (sc_serverStatName C))
          (AddMember ''group'' (strToJson J (sc_group C))
          (AddMember ''network'' (strToJson J (sc_network C)) (JObject [])))))) (JObject []))))"

text \<open>The address of the server (\<open>None\<close> where an empty one is read out of its range), \<^verbatim>\<open>request\<close> and the test of its answer
  (\<open>None\<close> for the assertion that fails where the answer is not an object).\<close>

definition stat_url :: "stat_config \<Rightarrow> string option" where
  "stat_url C =
     (if sc_server C = [] then None
      else Some ((if last (sc_server C) \<noteq> CHR ''/'' then sc_server C @ ''/'' else sc_server C) @ ''save-metrics''))"

definition stat_request :: "stat_env \<Rightarrow> string \<Rightarrow> string \<Rightarrow> json fallible option" where
  "stat_request E url postData =
     (case sx_curl E url postData of
        Inl e \<Rightarrow> Some (Inl e)
      | Inr buffer \<Rightarrow>
          (case sx_parse E (c_str buffer) of
             None \<Rightarrow> Some (Inl (StringExc (''rapidjson parse error. Data: '' @ buffer @ ''. key '' @ postData)))
           | Some doc \<Rightarrow>
               if \<not> IsObject doc then None
               else case FindMember ''error'' doc of
                      None \<Rightarrow> Some (Inr doc)
                    | Some e \<Rightarrow> Some (if e = JNull then Inr doc
                        else Inl (StringExc (jsonToString (sx_json E) e False @ ''. Key '' @ postData)))))"

definition send_report :: "stat_config \<Rightarrow> stat_env \<Rightarrow> json \<Rightarrow> unit fallible option" where
  "send_report C E doc =
     (case Option.bind (stat_url C) (\<lambda>url. stat_request E url (jsonToString (sx_json E) doc False)) of
        None \<Rightarrow> None
      | Some (Inl e) \<Rightarrow> Some (Inl e)
      | Some (Inr response) \<Rightarrow> Some (
          if map_option c_str (Option.bind (FindMember ''result'' response) as_string) = Some ''ok'' then Inr ()
          else Inl (StringExc (''response field not found '' @ jsonToString (sx_json E) response False))))"

section \<open>The thread\<close>

datatype stat_pc =
    PNone
  | PHead
  | PTop
  | PBlock block_statistic
  | PSend block_statistic requests_stat
  | PSleep
  | PDone
  | PCrash

text \<open>Where \<^verbatim>\<open>main\<close> is at its statement \<^verbatim>\<open>statGuard = startStatistics()\<close>: before it, the temporary guard returned, assigned,
  the destructor of the temporary has called \<^verbatim>\<open>abort\<close>, and after the statement.\<close>

datatype main_pc = MBefore | MReturned | MAssigned | MJoining | MAfter

text \<open>Beside the fields of \<^verbatim>\<open>StatisticsServer\<close> and the guards, the counters every report so far was made of, with whether it
  was accepted.\<close>

record stat_server =
  ss_aborted :: bool
  ss_lastBlock :: block_statistic
  ss_requestStat :: requests_stat
  ss_pc :: stat_pc
  ss_main :: main_pc
  ss_tmpJoined :: bool
  ss_guardJoined :: bool
  ss_reports :: "(requests_stat \<times> bool) list"

definition StatisticsServer :: "BlockHeader \<Rightarrow> stat_server" where
  "StatisticsServer bh =
     \<lparr>ss_aborted = False, ss_lastBlock = (setLastBlock_stat 0 bh)\<lparr>bs_tp := None\<rparr>, ss_requestStat = RequestsStat, ss_pc = PNone,
      ss_main = MBefore, ss_tmpJoined = True, ss_guardJoined = True, ss_reports = []\<rparr>"

definition caught_pc :: "exc \<Rightarrow> stat_pc" where
  "caught_pc e = (case e of StringExc _ \<Rightarrow> PSleep | StdExc _ \<Rightarrow> PSleep | StopExc \<Rightarrow> PDone | _ \<Rightarrow> PCrash)"

definition send_step :: "stat_config \<Rightarrow> stat_env \<Rightarrow> block_statistic \<Rightarrow> requests_stat \<Rightarrow> stat_pc \<times> bool" where
  "send_step C E b r =
     (case report_json C E b r of
        Inl e \<Rightarrow> (caught_pc e, False)
      | Inr doc \<Rightarrow>
          (case send_report C E doc of
             None \<Rightarrow> (PCrash, False)
           | Some (Inl e) \<Rightarrow> (caught_pc e, False)
           | Some (Inr _) \<Rightarrow> (PSleep, True)))"

definition process_step :: "stat_config \<Rightarrow> stat_env \<Rightarrow> stat_server \<Rightarrow> stat_server" where
  "process_step C E s =
     (case ss_pc s of
        PHead \<Rightarrow> s\<lparr>ss_pc := (if ss_aborted s then PDone else PTop)\<rparr>
      | PTop \<Rightarrow> s\<lparr>ss_pc := PBlock (ss_lastBlock s)\<rparr>
      | PBlock b \<Rightarrow> s\<lparr>ss_pc := PSend b (ss_requestStat s), ss_requestStat := clear_stat (ss_requestStat s)\<rparr>
      | PSend b r \<Rightarrow> (let (pc, ok) = send_step C E b r in s\<lparr>ss_pc := pc, ss_reports := ss_reports s @ [(r, ok)]\<rparr>)
      | PSleep \<Rightarrow> s\<lparr>ss_pc := (if sx_stop E then PDone else PHead)\<rparr>
      | _ \<Rightarrow> s)"

section \<open>The other threads\<close>

definition incRequest :: "string \<Rightarrow> stat_server \<Rightarrow> stat_server" where
  "incRequest request s = s\<lparr>ss_requestStat := incRequest_stat request (ss_requestStat s)\<rparr>"

definition setLastBlock :: "nat \<Rightarrow> BlockHeader \<Rightarrow> stat_server \<Rightarrow> stat_server" where
  "setLastBlock now bh s = s\<lparr>ss_lastBlock := setLastBlock_stat now bh\<rparr>"

definition saveNewBlock :: "nat \<Rightarrow> BlockInfo \<Rightarrow> stat_server \<Rightarrow> stat_server" where
  "saveNewBlock now bi s = s\<lparr>ss_lastBlock := makeBlockStatistic now bi\<rparr>"

definition startStatistics :: "stat_server \<Rightarrow> stat_server" where
  "startStatistics s = s\<lparr>ss_pc := PHead, ss_tmpJoined := False, ss_main := MReturned\<rparr>"

definition assign_guard :: "stat_server \<Rightarrow> stat_server" where
  "assign_guard s = s\<lparr>ss_guardJoined := ss_tmpJoined s, ss_main := MAssigned\<rparr>"

text \<open>\<^verbatim>\<open>~StatisticGuard\<close> of the temporary: \<^verbatim>\<open>abort\<close> first, then \<^verbatim>\<open>join\<close>, which returns when the thread has ended.\<close>

definition abort_stat :: "stat_server \<Rightarrow> stat_server" where
  "abort_stat s = s\<lparr>ss_aborted := True\<rparr>"

definition guard_join :: "stat_server \<Rightarrow> stat_server" where
  "guard_join s = (if ss_tmpJoined s then s\<lparr>ss_main := MAfter\<rparr> else (abort_stat s)\<lparr>ss_main := MJoining\<rparr>)"

definition guard_joined :: "stat_server \<Rightarrow> stat_server" where
  "guard_joined s = (if ss_pc s = PDone then s\<lparr>ss_tmpJoined := True, ss_main := MAfter\<rparr> else s)"

definition main_step :: "stat_server \<Rightarrow> stat_server" where
  "main_step s =
     (case ss_main s of
        MBefore \<Rightarrow> startStatistics s
      | MReturned \<Rightarrow> assign_guard s
      | MAssigned \<Rightarrow> guard_join s
      | MJoining \<Rightarrow> guard_joined s
      | MAfter \<Rightarrow> s)"

datatype stat_event =
    SInc string
  | SLast nat BlockHeader
  | SSave nat BlockInfo
  | SMain
  | SThread stat_env

definition stat_step :: "stat_config \<Rightarrow> stat_event \<Rightarrow> stat_server \<Rightarrow> stat_server" where
  "stat_step C e s =
     (case e of
        SInc r \<Rightarrow> incRequest r s
      | SLast now bh \<Rightarrow> setLastBlock now bh s
      | SSave now bi \<Rightarrow> saveNewBlock now bi s
      | SMain \<Rightarrow> main_step s
      | SThread E \<Rightarrow> process_step C E s)"

definition stat_run :: "stat_config \<Rightarrow> stat_event list \<Rightarrow> stat_server \<Rightarrow> stat_server" where
  "stat_run C es s = fold (stat_step C) es s"

section \<open>Nothing is counted twice or lost\<close>

definition key_count :: "string \<Rightarrow> requests_stat \<Rightarrow> u64" where
  "key_count k r = sum_list (map snd (filter (\<lambda>p. fst p = k) (requests r)))"

definition in_flight :: "stat_server \<Rightarrow> requests_stat" where
  "in_flight s = (case ss_pc s of PSend b r \<Rightarrow> r | _ \<Rightarrow> RequestsStat)"

definition accounted :: "string \<Rightarrow> stat_server \<Rightarrow> u64" where
  "accounted k s =
     key_count k (ss_requestStat s) + key_count k (in_flight s) + sum_list (map (\<lambda>p. key_count k (fst p)) (ss_reports s))"

definition stat_ok :: "requests_stat \<Rightarrow> bool" where
  "stat_ok r \<longleftrightarrow> allRequests r = sum_list (map snd (requests r)) \<and> sorted_wrt str_less (map fst (requests r))"

lemma str_less_irrefl: "\<not> str_less x x"
  by (induction x) auto

lemma str_less_trans: "str_less x y \<Longrightarrow> str_less y z \<Longrightarrow> str_less x z"
proof (induction x y arbitrary: z rule: str_less.induct)
  case (1 ys)
  then show ?case by (cases ys; cases z) auto
next
  case (3 x xs y ys)
  then show ?case by (cases z) auto
qed auto

lemma str_less_linear: "x \<noteq> y \<Longrightarrow> \<not> str_less x y \<Longrightarrow> str_less y x"
proof (induction x y rule: str_less.induct)
  case (3 x xs y ys)
  then show ?case using less_linear [of "of_char x :: nat" "of_char y"] by (cases "x = y") auto
qed auto

lemma inc_key_keys: "set (map fst (inc_key k xs)) = insert k (set (map fst xs))"
  by (induction k xs rule: inc_key.induct) auto

lemma inc_key_sorted: "sorted_wrt str_less (map fst xs) \<Longrightarrow> sorted_wrt str_less (map fst (inc_key k xs))"
proof (induction k xs rule: inc_key.induct)
  case (2 k a v xs)
  have keys: "fst ` set (inc_key k xs) = insert k (fst ` set xs)" using inc_key_keys [of k xs] by simp
  show ?case
    using 2 keys str_less_linear [of k a] by (auto dest: str_less_trans)
qed simp

lemma inc_key_sum: "sum_list (map snd (inc_key k xs)) = sum_list (map snd xs) + 1"
  by (induction k xs rule: inc_key.induct) (auto simp: algebra_simps)

lemma inc_key_count:
  "sum_list (map snd (filter (\<lambda>p. fst p = j) (inc_key k xs))) =
     sum_list (map snd (filter (\<lambda>p. fst p = j) xs)) + (if j = k then 1 else 0)"
  by (induction k xs rule: inc_key.induct) (auto simp: algebra_simps)

lemma key_count_simps [simp]:
  "key_count k RequestsStat = 0"
  "key_count k (clear_stat r) = 0"
  "key_count j (incRequest_stat k r) = key_count j r + (if j = k then 1 else 0)"
  by (simp_all add: key_count_def RequestsStat_def clear_stat_def incRequest_stat_def inc_key_count)

lemma stat_ok_simps [simp]: "stat_ok RequestsStat" "stat_ok (clear_stat r)"
  by (simp_all add: stat_ok_def RequestsStat_def clear_stat_def)

lemma stat_ok_inc: "stat_ok r \<Longrightarrow> stat_ok (incRequest_stat k r)"
  by (simp add: stat_ok_def incRequest_stat_def inc_key_sum inc_key_sorted)

lemmas main_ops = main_step_def startStatistics_def assign_guard_def guard_join_def guard_joined_def abort_stat_def
lemmas call_ops = incRequest_def setLastBlock_def saveNewBlock_def

text \<open>Once the thread runs, a step of \<^verbatim>\<open>main\<close> does not move it; before, there is no copy of the counters.\<close>

definition guard_inv :: "stat_server \<Rightarrow> bool" where
  "guard_inv s \<longleftrightarrow>
     (case ss_main s of
        MBefore \<Rightarrow> ss_pc s = PNone
      | MReturned \<Rightarrow> \<not> ss_tmpJoined s
      | MAssigned \<Rightarrow> \<not> ss_tmpJoined s
      | MJoining \<Rightarrow> \<not> ss_tmpJoined s \<and> ss_aborted s \<and> ss_pc s \<noteq> PNone
      | MAfter \<Rightarrow> ss_pc s = PDone)
     \<and> (ss_main s \<noteq> MBefore \<longrightarrow> ss_pc s \<noteq> PNone)"

lemma send_step_pc: "send_step C E b r = (pc, ok) \<Longrightarrow> pc \<in> {PSleep, PDone, PCrash}"
  by (auto simp: send_step_def caught_pc_def split: sum.splits option.splits exc.splits)

lemma process_step_guard: "guard_inv s \<Longrightarrow> guard_inv (process_step C E s)"
  by (cases "ss_pc s") (auto simp: guard_inv_def process_step_def split: main_pc.splits prod.splits dest!: send_step_pc)

lemma main_step_guard: "guard_inv s \<Longrightarrow> guard_inv (main_step s)"
  by (cases "ss_main s") (auto simp: guard_inv_def main_ops)

lemma stat_step_guard: "guard_inv s \<Longrightarrow> guard_inv (stat_step C e s)"
proof (cases e)
  case SMain
  then show "guard_inv s \<Longrightarrow> ?thesis" by (simp add: stat_step_def main_step_guard)
next
  case (SThread E)
  then show "guard_inv s \<Longrightarrow> ?thesis" by (simp add: stat_step_def process_step_guard)
qed (simp_all add: stat_step_def call_ops guard_inv_def split: main_pc.splits)

lemma guard_start: "guard_inv (StatisticsServer bh)"
  by (simp add: guard_inv_def StatisticsServer_def)

lemma process_step_accounted: "accounted k (process_step C E s) = accounted k s"
proof (cases "ss_pc s")
  case (PSend b r)
  obtain pc ok where "send_step C E b r = (pc, ok)" by (cases "send_step C E b r")
  moreover have "pc \<in> {PSleep, PDone, PCrash}" using calculation by (rule send_step_pc)
  ultimately show ?thesis using PSend by (auto simp: accounted_def process_step_def in_flight_def)
qed (simp_all add: accounted_def process_step_def in_flight_def)

lemma main_step_accounted: "guard_inv s \<Longrightarrow> accounted k (main_step s) = accounted k s"
  by (cases "ss_main s") (simp_all add: accounted_def main_ops in_flight_def guard_inv_def)

lemma stat_step_accounted: "guard_inv s \<Longrightarrow> accounted k (stat_step C e s) = accounted k s + (if e = SInc k then 1 else 0)"
  by (cases e) (auto simp: stat_step_def process_step_accounted main_step_accounted call_ops, auto simp: accounted_def in_flight_def)

definition reports_ok :: "stat_server \<Rightarrow> bool" where
  "reports_ok s \<longleftrightarrow> stat_ok (ss_requestStat s) \<and> stat_ok (in_flight s) \<and> (\<forall>p \<in> set (ss_reports s). stat_ok (fst p))"

lemma process_step_ok: "reports_ok s \<Longrightarrow> reports_ok (process_step C E s)"
  by (cases "ss_pc s") (auto simp: reports_ok_def process_step_def in_flight_def split: prod.splits dest!: send_step_pc)

lemma main_step_ok: "guard_inv s \<Longrightarrow> reports_ok s \<Longrightarrow> reports_ok (main_step s)"
  by (cases "ss_main s") (simp_all add: main_ops reports_ok_def in_flight_def guard_inv_def)

lemma stat_step_ok: "guard_inv s \<Longrightarrow> reports_ok s \<Longrightarrow> reports_ok (stat_step C e s)"
  by (cases e) (simp_all add: stat_step_def process_step_ok main_step_ok, simp_all add: call_ops reports_ok_def in_flight_def stat_ok_inc)

text \<open>Any interleaving keeps the invariants.\<close>

interpretation reporting: stable "\<lambda>s e t. t = stat_step C e s" "\<lambda>s. guard_inv s \<and> reports_ok s" for C
  by unfold_locales (simp add: stat_step_guard stat_step_ok)

lemma stat_run_run: "run (\<lambda>s e t. t = stat_step C e s) s es (stat_run C es s)"
  by (induction es rule: rev_induct) (auto simp: stat_run_def intro: run.intros)

lemma stat_run_inv: "guard_inv (stat_run C es (StatisticsServer bh)) \<and> reports_ok (stat_run C es (StatisticsServer bh))"
proof -
  have "reports_ok (StatisticsServer bh)" by (simp add: reports_ok_def StatisticsServer_def in_flight_def)
  with reporting.run_keeps [OF stat_run_run] guard_start show ?thesis by blast
qed

lemma str_less_distinct: "sorted_wrt str_less xs \<Longrightarrow> distinct xs"
  using str_less_irrefl by (induction xs) auto

text \<open>C22: Over every interleaving of the calls of \<^verbatim>\<open>incRequest\<close> with the reporting thread, the calls for a name are, modulo
  \<open>2 ^ 64\<close>, the sum of the count that waits, of the count in the copy the thread is about to send and of the counts in the
  reports: nothing is reported twice, nothing disappears between the counters and the reports.  Every report names a request
  once and its total is the sum of its counts.\<close>

theorem requests_accounted:
  "of_nat (count_list es (SInc k)) = accounted k (stat_run C es (StatisticsServer bh))
   \<and> (\<forall>p \<in> set (ss_reports (stat_run C es (StatisticsServer bh))).
        allRequests (fst p) = sum_list (map snd (requests (fst p))) \<and> distinct (map fst (requests (fst p))))"
proof
  show "of_nat (count_list es (SInc k)) = accounted k (stat_run C es (StatisticsServer bh))"
  proof (induction es rule: rev_induct)
    case (snoc e es)
    have "accounted k (stat_step C e (stat_run C es (StatisticsServer bh))) =
        accounted k (stat_run C es (StatisticsServer bh)) + (if e = SInc k then 1 else 0)"
      by (rule stat_step_accounted) (simp add: stat_run_inv)
    then show ?case using snoc by (auto simp: stat_run_def)
  qed (simp add: stat_run_def accounted_def StatisticsServer_def in_flight_def)
  show "\<forall>p \<in> set (ss_reports (stat_run C es (StatisticsServer bh))).
      allRequests (fst p) = sum_list (map snd (requests (fst p))) \<and> distinct (map fst (requests (fst p)))"
    using stat_run_inv [of C es bh] str_less_distinct by (auto simp: reports_ok_def stat_ok_def)
qed

theorem requests_accounted_witness:
  "\<forall>C bh. accounted ''get'' (stat_run C [SMain, SInc ''get'', SInc ''put'', SInc ''get''] (StatisticsServer bh)) = 2"
proof (intro allI)
  fix C bh
  show "accounted ''get'' (stat_run C [SMain, SInc ''get'', SInc ''put'', SInc ''get''] (StatisticsServer bh)) = 2"
    using requests_accounted [of "[SMain, SInc ''get'', SInc ''put'', SInc ''get'']" "''get''" C bh] by simp
qed

section \<open>The guard stops the thread\<close>

lemma after_step: "ss_main s = MAfter \<Longrightarrow> ss_pc s = PDone \<Longrightarrow>
    ss_main (stat_step C e s) = MAfter \<and> ss_pc (stat_step C e s) = PDone \<and> ss_reports (stat_step C e s) = ss_reports s"
  by (cases e) (simp_all add: stat_step_def call_ops main_step_def process_step_def)

lemma after_run: "ss_main s = MAfter \<Longrightarrow> ss_pc s = PDone \<Longrightarrow>
    ss_main (stat_run C es s) = MAfter \<and> ss_pc (stat_run C es s) = PDone \<and> ss_reports (stat_run C es s) = ss_reports s"
  by (induction es rule: rev_induct) (auto simp: stat_run_def after_step)

text \<open>C26: The guard that \<^verbatim>\<open>main\<close> gets from \<^verbatim>\<open>startStatistics\<close> is copied, and the destructor of the temporary stops the thread
  and waits for its end: once \<^verbatim>\<open>main\<close> has passed the statement that starts the reports, the thread has ended and no report
  is ever made again, whatever happens.\<close>

theorem statistics_stopped_at_start:
  assumes "ss_main (stat_run C es (StatisticsServer bh)) = MAfter"
  shows "ss_pc (stat_run C es (StatisticsServer bh)) = PDone
    \<and> ss_reports (stat_run C (es @ fs) (StatisticsServer bh)) = ss_reports (stat_run C es (StatisticsServer bh))"
proof -
  have d: "ss_pc (stat_run C es (StatisticsServer bh)) = PDone"
    using stat_run_inv [of C es bh] assms by (simp add: guard_inv_def)
  have "stat_run C (es @ fs) (StatisticsServer bh) = stat_run C fs (stat_run C es (StatisticsServer bh))"
    by (simp add: stat_run_def)
  with after_run [OF assms d] d show ?thesis by simp
qed

theorem statistics_stopped_at_start_witness:
  "\<forall>C E bh fs. ss_reports (stat_run C ([SMain, SMain, SMain, SThread E, SMain] @ fs) (StatisticsServer bh)) = []"
proof (intro allI)
  fix C E bh fs
  let ?es = "[SMain, SMain, SMain, SThread E, SMain]"
  have ops: "ss_main (stat_run C ?es (StatisticsServer bh)) = MAfter" "ss_reports (stat_run C ?es (StatisticsServer bh)) = []"
    by (simp_all add: stat_run_def stat_step_def main_ops process_step_def StatisticsServer_def)
  then show "ss_reports (stat_run C (?es @ fs) (StatisticsServer bh)) = []"
    using statistics_stopped_at_start [OF ops(1)] by simp
qed

text \<open>The number of its own steps a thread that is told to stop makes at most.\<close>

fun stat_rank :: "stat_pc \<Rightarrow> nat" where
  "stat_rank PTop = 5"
| "stat_rank (PBlock b) = 4"
| "stat_rank (PSend b r) = 3"
| "stat_rank PSleep = 2"
| "stat_rank PHead = 1"
| "stat_rank _ = 0"

definition is_thread_event :: "stat_event \<Rightarrow> bool" where
  "is_thread_event e = (case e of SThread _ \<Rightarrow> True | _ \<Rightarrow> False)"

lemma aborted_step:
  assumes "ss_aborted s" and "ss_main s \<noteq> MBefore"
  shows "ss_aborted (stat_step C e s) \<and> ss_main (stat_step C e s) \<noteq> MBefore
    \<and> stat_rank (ss_pc (stat_step C e s)) \<le> stat_rank (ss_pc s) - (if is_thread_event e then 1 else 0)"
proof (cases e)
  case SMain
  then show ?thesis using assms by (cases "ss_main s") (simp_all add: stat_step_def main_ops is_thread_event_def)
next
  case (SThread E)
  show ?thesis
  proof (cases "ss_pc s")
    case (PSend b r)
    obtain pc ok where "send_step C E b r = (pc, ok)" by (cases "send_step C E b r")
    moreover have "pc \<in> {PSleep, PDone, PCrash}" using calculation by (rule send_step_pc)
    ultimately show ?thesis using SThread PSend assms by (auto simp: stat_step_def process_step_def is_thread_event_def)
  qed (use SThread assms in \<open>simp_all add: stat_step_def process_step_def is_thread_event_def\<close>)
qed (use assms in \<open>simp_all add: stat_step_def call_ops is_thread_event_def\<close>)

lemma aborted_run:
  assumes "ss_aborted s" and "ss_main s \<noteq> MBefore"
  shows "ss_aborted (stat_run C es s) \<and> ss_main (stat_run C es s) \<noteq> MBefore
    \<and> stat_rank (ss_pc (stat_run C es s)) \<le> stat_rank (ss_pc s) - length (filter is_thread_event es)"
proof (induction es rule: rev_induct)
  case (snoc e es)
  have "stat_run C (es @ [e]) s = stat_step C e (stat_run C es s)" by (simp add: stat_run_def)
  with aborted_step [of "stat_run C es s" C e] snoc show ?case by auto
qed (simp add: stat_run_def assms)

lemma stat_rank_zero: "stat_rank pc = 0 \<longleftrightarrow> pc \<in> {PNone, PDone, PCrash}"
  by (cases pc) auto

lemma stat_rank_le: "stat_rank pc \<le> 5"
  by (cases pc) auto

text \<open>The destructor's wait is over after five steps of the reporting thread, in whatever interleaving: then the thread has
  ended, or an answer that is no JSON object has taken the program down.\<close>

lemma statistics_join_returns:
  assumes "ss_main (stat_run C es (StatisticsServer bh)) = MJoining" and "5 \<le> length (filter is_thread_event fs)"
  shows "ss_pc (stat_run C (es @ fs) (StatisticsServer bh)) \<in> {PDone, PCrash}"
proof -
  let ?s = "stat_run C es (StatisticsServer bh)"
  have run: "stat_run C (es @ fs) (StatisticsServer bh) = stat_run C fs ?s" by (simp add: stat_run_def)
  have ab: "ss_aborted ?s" "ss_main ?s \<noteq> MBefore" using stat_run_inv [of C es bh] assms(1) by (auto simp: guard_inv_def)
  have main: "ss_main (stat_run C fs ?s) \<noteq> MBefore" using aborted_run [OF ab] by blast
  have "stat_rank (ss_pc (stat_run C fs ?s)) \<le> stat_rank (ss_pc ?s) - length (filter is_thread_event fs)"
    using aborted_run [OF ab] by blast
  then have "stat_rank (ss_pc (stat_run C fs ?s)) = 0" using stat_rank_le [of "ss_pc ?s"] assms(2) by simp
  moreover have "ss_pc (stat_run C fs ?s) \<noteq> PNone"
    using stat_run_inv [of C "es @ fs" bh] main unfolding run by (auto simp: guard_inv_def)
  ultimately show ?thesis unfolding run stat_rank_zero by blast
qed

lemma statistics_join_returns_witness:
  "\<forall>C E bh. ss_pc (stat_run C ([SMain, SThread E, SMain, SMain] @ replicate 5 (SThread E)) (StatisticsServer bh)) \<in> {PDone, PCrash}"
proof (intro allI)
  fix C E bh
  have "ss_main (stat_run C [SMain, SThread E, SMain, SMain] (StatisticsServer bh)) = MJoining"
    by (simp add: stat_run_def stat_step_def main_ops process_step_def StatisticsServer_def)
  moreover have "5 \<le> length (filter is_thread_event (replicate 5 (SThread E)))" by (simp add: is_thread_event_def)
  ultimately show "ss_pc (stat_run C ([SMain, SThread E, SMain, SMain] @ replicate 5 (SThread E)) (StatisticsServer bh)) \<in> {PDone, PCrash}"
    by (rule statistics_join_returns)
qed

end
