(* ===== verification/Server_Run.thy ===== *)
theory Server_Run
  imports Settings Nslookup
begin

text \<open>
  Start and end of the program: \<^verbatim>\<open>main\<close> up to the start of the server (\<^verbatim>\<open>src/src/main.cpp\<close>), the life of the singletons
  (\<^verbatim>\<open>src/src/common/singleton.h\<close>), and \<^verbatim>\<open>run\<close>, \<^verbatim>\<open>stop\<close>, \<^verbatim>\<open>routine\<close> and \<^verbatim>\<open>checkTimeout\<close> of the server
  (\<^verbatim>\<open>src/src/http_server.cpp\<close>) beside the thread that looks for the best node (\<^verbatim>\<open>src/src/nslookup.cpp\<close>).  The I/O context of
  Boost is its contract: a thread in \<^verbatim>\<open>run\<close> calls one handler after the other and returns when the context is stopped.
  A handler, a background thread of a cache and a request of the lookup thread are the singletons they call.  The lemmas
  show that a stop signal ends the server, that no thread the server owns calls a singleton after it is deleted, and that
  the lookup thread does.
\<close>

section \<open>Start\<close>

datatype main_result =
    ExitCode int
  | Terminated
  | Serving settings

definition main_fails :: "exc \<Rightarrow> main_result" where
  "main_fails e = (case e of StdExc _ \<Rightarrow> ExitCode 1 | StringExc _ \<Rightarrow> ExitCode 1 | _ \<Rightarrow> Terminated)"

text \<open>After the settings are read: the two lookups and what is stored of them.\<close>

definition main_lookups :: "name_service \<Rightarrow> settings \<Rightarrow> main_result" where
  "main_lookups ns cfg =
     (case get_ip_addresses ns (server_torName cfg) [] of
        Inl e \<Rightarrow> main_fails e
      | Inr (False, _) \<Rightarrow> ExitCode 0
      | Inr (True, tors) \<Rightarrow>
          (let cfg = cfg\<lparr>server_tor := server (hd tors)\<rparr>
           in case get_ip_addresses ns (server_proxyName cfg) [] of
                Inl e \<Rightarrow> main_fails e
              | Inr (False, _) \<Rightarrow> ExitCode 0
              | Inr (True, prxs) \<Rightarrow> Serving (cfg\<lparr>server_proxy := server (hd prxs)\<rparr>)))"

text \<open>When no node is found the program ends as if all went well.\<close>

lemma no_node_success: "get_ip_addresses ns (server_torName cfg) [] = Inr (False, ip) \<Longrightarrow> main_lookups ns cfg = ExitCode 0"
  by (simp add: main_lookups_def)

section \<open>Singletons\<close>

datatype singleton_id = SBlocks | SHistory | SPool | SSecurity | SSchema

datatype life = SNone | SAlive | SFreed

text \<open>Who uses a singleton: the handlers on the threads of the server, a background thread of a singleton, the thread of \<^verbatim>\<open>run\<close>,
  the lookup thread, and the requests that are destroyed with the I/O context.\<close>

datatype culprit = CWorker | CBackground | CServer | CLookup | CPending

datatype routine_pc = WHead | WRun | WHandler | WDone

datatype action = AGet singleton_id | AStart singleton_id | AStop singleton_id | AFree singleton_id

datatype server_pc =
    SvSleep
  | SvSpawn nat
  | SvStart "action list"
  | SvJoin
  | SvShut "action list"
  | SvReturned
  | SvDestroyed

datatype lookup_pc = LNew | LHead | LWork | LLeave | LDone

record server_state =
  sv_settings :: settings
  sv_m_run :: bool
  sv_stopped :: bool
  sv_signal :: bool
  sv_workers :: "routine_pc list"
  sv_pc :: server_pc
  sv_life :: "singleton_id \<Rightarrow> life"
  sv_background :: "singleton_id \<Rightarrow> bool"
  sv_lookup :: lookup_pc
  sv_dangling :: "culprit list"

definition http_server :: "settings \<Rightarrow> server_state" where
  "http_server cfg =
     \<lparr>sv_settings = cfg, sv_m_run = False, sv_stopped = False, sv_signal = False, sv_workers = [], sv_pc = SvSleep,
      sv_life = (\<lambda>_. SNone), sv_background = (\<lambda>_. False), sv_lookup = LNew, sv_dangling = []\<rparr>"

text \<open>\<^verbatim>\<open>get\<close> makes the object at its first call and gives the same pointer ever after; \<open>sv_dangling\<close> records who got the
  pointer of a deleted object.\<close>

definition singleton_get :: "culprit \<Rightarrow> singleton_id \<Rightarrow> server_state \<Rightarrow> server_state" where
  "singleton_get c g s =
     (case sv_life s g of
        SNone \<Rightarrow> s\<lparr>sv_life := (sv_life s)(g := SAlive)\<rparr>
      | SAlive \<Rightarrow> s
      | SFreed \<Rightarrow> s\<lparr>sv_dangling := c # sv_dangling s\<rparr>)"

definition singleton_free :: "culprit \<Rightarrow> singleton_id \<Rightarrow> server_state \<Rightarrow> server_state" where
  "singleton_free c g s = (let s = singleton_get c g s in s\<lparr>sv_life := (sv_life s)(g := SFreed)\<rparr>)"

section \<open>The thread of run\<close>

text \<open>\<^verbatim>\<open>stop\<close> of the pool and of the caches waits for their thread.\<close>

definition do_action :: "action \<Rightarrow> server_state \<Rightarrow> server_state" where
  "do_action a s =
     (case a of
        AGet g \<Rightarrow> singleton_get CServer g s
      | AStart g \<Rightarrow> (let s = singleton_get CServer g s in s\<lparr>sv_background := (sv_background s)(g := True)\<rparr>)
      | AStop g \<Rightarrow> (let s = singleton_get CServer g s in s\<lparr>sv_background := (sv_background s)(g := False)\<rparr>)
      | AFree g \<Rightarrow> singleton_free CServer g s)"

definition start_actions :: "settings \<Rightarrow> action list" where
  "start_actions cfg =
     (if system_conn_pool_enable cfg then [AStart SPool] else []) @ [AGet SBlocks]
     @ (if system_blocks_cache_enable cfg then [AStart SBlocks] else [])
     @ (if system_history_cache_enable cfg then [AStart SHistory] else [])"

definition shutdown_actions :: "action list" where
  "shutdown_actions =
     [AStop SBlocks, AFree SBlocks, AStop SHistory, AFree SHistory, AStop SPool, AFree SPool, AFree SSecurity, AFree SSchema]"

definition server_stop :: "server_state \<Rightarrow> server_state" where
  "server_stop s = s\<lparr>sv_m_run := False, sv_stopped := True\<rparr>"

text \<open>\<^verbatim>\<open>runServer\<close>: the second it sleeps before \<^verbatim>\<open>run\<close>, the threads, the start of the singletons, the wait for the threads, the
  shutdown, \<^verbatim>\<open>stop\<close>, and the destructor of the server, with requests still in the I/O context or none.\<close>

definition server_step :: "bool \<Rightarrow> server_state \<Rightarrow> server_state" where
  "server_step pending s =
     (case sv_pc s of
        SvSleep \<Rightarrow>
          if sv_signal s then (server_stop s)\<lparr>sv_pc := SvReturned\<rparr>
          else s\<lparr>sv_m_run := True, sv_pc := SvSpawn (nat (service_threads (sv_settings s)))\<rparr>
      | SvSpawn (Suc n) \<Rightarrow> s\<lparr>sv_workers := sv_workers s @ [WHead], sv_pc := SvSpawn n\<rparr>
      | SvSpawn 0 \<Rightarrow> s\<lparr>sv_pc := SvStart (start_actions (sv_settings s))\<rparr>
      | SvStart (a # as) \<Rightarrow> (do_action a s)\<lparr>sv_pc := SvStart as\<rparr>
      | SvStart [] \<Rightarrow> s\<lparr>sv_pc := SvJoin\<rparr>
      | SvJoin \<Rightarrow> if list_all (\<lambda>w. w = WDone) (sv_workers s) then s\<lparr>sv_m_run := False, sv_pc := SvShut shutdown_actions\<rparr> else s
      | SvShut (a # as) \<Rightarrow> (do_action a s)\<lparr>sv_pc := SvShut as\<rparr>
      | SvShut [] \<Rightarrow> (server_stop s)\<lparr>sv_pc := SvReturned\<rparr>
      | SvReturned \<Rightarrow> (if pending then singleton_get CPending SPool s else s)\<lparr>sv_pc := SvDestroyed\<rparr>
      | SvDestroyed \<Rightarrow> s)"

section \<open>The threads of the server\<close>

datatype worker_act = WProceed | WTake | WUse singleton_id | WThrow | WTimer

definition checkTimeout :: "server_state \<Rightarrow> server_state" where
  "checkTimeout s = (if sv_signal s then server_stop s else s)"

definition set_worker :: "nat \<Rightarrow> routine_pc \<Rightarrow> server_state \<Rightarrow> server_state" where
  "set_worker i w s = s\<lparr>sv_workers := (sv_workers s)[i := w]\<rparr>"

definition routine_step :: "nat \<Rightarrow> worker_act \<Rightarrow> server_state \<Rightarrow> server_state" where
  "routine_step i act s =
     (if length (sv_workers s) \<le> i then s
      else case sv_workers s ! i of
             WHead \<Rightarrow> set_worker i (if sv_m_run s then WRun else WDone) s
           | WRun \<Rightarrow>
               if sv_stopped s then set_worker i WDone s
               else (case act of WTake \<Rightarrow> set_worker i WHandler s | WTimer \<Rightarrow> checkTimeout s | _ \<Rightarrow> s)
           | WHandler \<Rightarrow>
               (case act of
                  WProceed \<Rightarrow> set_worker i WRun s
                | WThrow \<Rightarrow> set_worker i WHead s
                | WUse g \<Rightarrow> singleton_get CWorker g s
                | _ \<Rightarrow> s)
           | WDone \<Rightarrow> s)"

section \<open>The other threads\<close>

text \<open>A cache asks nodes, so its thread uses the pool beside the cache.\<close>

definition background_step :: "singleton_id \<Rightarrow> server_state \<Rightarrow> server_state" where
  "background_step g s = (if sv_background s g then singleton_get CBackground SPool (singleton_get CBackground g s) else s)"

text \<open>\<^verbatim>\<open>lookup_best_ip\<close>: every request asks the pool, and so does the destructor of the request when the thread leaves, told to
  stop or by an exception.\<close>

datatype lookup_act = LGo | LAgain | LThrow

definition lookup_step :: "lookup_act \<Rightarrow> server_state \<Rightarrow> server_state" where
  "lookup_step act s =
     (case sv_lookup s of
        LNew \<Rightarrow> s\<lparr>sv_lookup := LHead\<rparr>
      | LHead \<Rightarrow> s\<lparr>sv_lookup := (if sv_signal s then LLeave else LWork)\<rparr>
      | LWork \<Rightarrow>
          (case act of
             LGo \<Rightarrow> s\<lparr>sv_lookup := LHead\<rparr>
           | LAgain \<Rightarrow> singleton_get CLookup SPool s
           | LThrow \<Rightarrow> s\<lparr>sv_lookup := LLeave\<rparr>)
      | LLeave \<Rightarrow> (singleton_get CLookup SPool s)\<lparr>sv_lookup := LDone\<rparr>
      | LDone \<Rightarrow> s)"

datatype program_event =
    EServer bool
  | EWorker nat worker_act
  | EBackground singleton_id
  | ELookup lookup_act
  | ESignal

definition program_step :: "program_event \<Rightarrow> server_state \<Rightarrow> server_state" where
  "program_step e s =
     (case e of
        EServer pending \<Rightarrow> server_step pending s
      | EWorker i act \<Rightarrow> routine_step i act s
      | EBackground g \<Rightarrow> background_step g s
      | ELookup act \<Rightarrow> lookup_step act s
      | ESignal \<Rightarrow> s\<lparr>sv_signal := True\<rparr>)"

definition program_run :: "program_event list \<Rightarrow> server_state \<Rightarrow> server_state" where
  "program_run es s = fold program_step es s"

lemma program_run_simps [simp]:
  "program_run [] s = s"
  "program_run (es @ fs) s = program_run fs (program_run es s)"
  "program_run (e # es) s = program_run es (program_step e s)"
  by (simp_all add: program_run_def)

section \<open>Deleted singletons\<close>

lemma singleton_get_fields [simp]:
  "sv_settings (singleton_get c g s) = sv_settings s"
  "sv_m_run (singleton_get c g s) = sv_m_run s"
  "sv_stopped (singleton_get c g s) = sv_stopped s"
  "sv_signal (singleton_get c g s) = sv_signal s"
  "sv_workers (singleton_get c g s) = sv_workers s"
  "sv_pc (singleton_get c g s) = sv_pc s"
  "sv_background (singleton_get c g s) = sv_background s"
  "sv_lookup (singleton_get c g s) = sv_lookup s"
  "sv_life (singleton_get c g s) h = SFreed \<longleftrightarrow> sv_life s h = SFreed"
  "sv_dangling (singleton_get c g s) = (if sv_life s g = SFreed then [c] else []) @ sv_dangling s"
  by (simp_all add: singleton_get_def split: life.splits)

lemma singleton_free_fields [simp]:
  "sv_settings (singleton_free c g s) = sv_settings s"
  "sv_workers (singleton_free c g s) = sv_workers s"
  "sv_background (singleton_free c g s) = sv_background s"
  "sv_lookup (singleton_free c g s) = sv_lookup s"
  "sv_life (singleton_free c g s) h = SFreed \<longleftrightarrow> h = g \<or> sv_life s h = SFreed"
  "sv_dangling (singleton_free c g s) = (if sv_life s g = SFreed then [c] else []) @ sv_dangling s"
  by (simp_all add: singleton_free_def Let_def)

lemma do_action_fields [simp]:
  "sv_settings (do_action a s) = sv_settings s"
  "sv_workers (do_action a s) = sv_workers s"
  "sv_lookup (do_action a s) = sv_lookup s"
  by (simp_all add: do_action_def Let_def split: action.splits)

fun action_on :: "action \<Rightarrow> singleton_id" where
  "action_on (AGet g) = g"
| "action_on (AStart g) = g"
| "action_on (AStop g) = g"
| "action_on (AFree g) = g"

lemma do_action_life: "sv_life (do_action a s) h = SFreed \<longleftrightarrow> a = AFree h \<or> sv_life s h = SFreed"
  by (cases a) (auto simp: do_action_def Let_def)

lemma do_action_background:
  "sv_background (do_action a s) h = (if a = AStart h then True else if a = AStop h then False else sv_background s h)"
  by (cases a) (auto simp: do_action_def Let_def)

lemma do_action_dangling:
  "sv_dangling (do_action a s) = (if sv_life s (action_on a) = SFreed then [CServer] else []) @ sv_dangling s"
  by (cases a) (simp_all add: do_action_def Let_def)

text \<open>An order of actions in which a thread is stopped before its singleton is deleted, the pool is deleted after every
  thread has stopped, and nothing is touched once it is deleted.\<close>

fun orderly :: "action list \<Rightarrow> bool" where
  "orderly [] \<longleftrightarrow> True"
| "orderly (a # as) \<longleftrightarrow> orderly as \<and>
     (case a of
        AStop g \<Rightarrow> AFree g \<in> set as \<and> AFree SPool \<in> set as
      | AFree g \<Rightarrow> AFree g \<notin> set as \<and> AStop g \<notin> set as
      | _ \<Rightarrow> False)"

lemma shutdown_orderly: "orderly shutdown_actions"
  by (simp add: shutdown_actions_def)

lemma orderly_stop: "orderly as \<Longrightarrow> AStop g \<in> set as \<Longrightarrow> AFree g \<in> set as \<and> AFree SPool \<in> set as"
  by (induction as) (auto split: action.splits)

lemma orderly_head: "orderly (a # as) \<Longrightarrow> AFree (action_on a) \<in> set (a # as)"
  by (cases a) auto

text \<open>No singleton is deleted before the shutdown, which begins when every thread of the server has ended; what is left of
  it deletes what is not deleted yet and stops what still runs.\<close>

definition stoppable :: "singleton_id \<Rightarrow> bool" where
  "stoppable g \<longleftrightarrow> AStop g \<in> set shutdown_actions"

definition start_action :: "action \<Rightarrow> bool" where
  "start_action a = (case a of AGet g \<Rightarrow> True | AStart g \<Rightarrow> stoppable g | _ \<Rightarrow> False)"

fun pc_inv :: "server_pc \<Rightarrow> server_state \<Rightarrow> bool" where
  "pc_inv SvSleep s \<longleftrightarrow> sv_workers s = [] \<and> (\<forall>g. sv_life s g \<noteq> SFreed \<and> \<not> sv_background s g)"
| "pc_inv (SvSpawn n) s \<longleftrightarrow> (\<forall>g. sv_life s g \<noteq> SFreed \<and> \<not> sv_background s g)"
| "pc_inv (SvStart as) s \<longleftrightarrow> (\<forall>g. sv_life s g \<noteq> SFreed \<and> (sv_background s g \<longrightarrow> stoppable g)) \<and> list_all start_action as"
| "pc_inv SvJoin s \<longleftrightarrow> (\<forall>g. sv_life s g \<noteq> SFreed \<and> (sv_background s g \<longrightarrow> stoppable g))"
| "pc_inv (SvShut as) s \<longleftrightarrow> list_all (\<lambda>w. w = WDone) (sv_workers s) \<and> orderly as
     \<and> (\<forall>g. (sv_life s g = SFreed \<longrightarrow> AFree g \<notin> set as) \<and> (sv_background s g \<longrightarrow> AStop g \<in> set as))"
| "pc_inv SvReturned s \<longleftrightarrow> list_all (\<lambda>w. w = WDone) (sv_workers s) \<and> (\<forall>g. \<not> sv_background s g)"
| "pc_inv SvDestroyed s \<longleftrightarrow> list_all (\<lambda>w. w = WDone) (sv_workers s) \<and> (\<forall>g. \<not> sv_background s g)"

definition program_inv :: "server_state \<Rightarrow> bool" where
  "program_inv s \<longleftrightarrow> pc_inv (sv_pc s) s \<and> set (sv_dangling s) \<subseteq> {CLookup, CPending}"

lemma pc_inv_cong:
  "sv_workers s = sv_workers t \<Longrightarrow> sv_background s = sv_background t \<Longrightarrow> (\<And>g. sv_life s g = SFreed \<longleftrightarrow> sv_life t g = SFreed) \<Longrightarrow>
     pc_inv pc s = pc_inv pc t"
  by (cases pc) auto

lemma start_actions_ok: "list_all start_action (start_actions cfg)"
  by (simp add: start_actions_def start_action_def stoppable_def shutdown_actions_def)

lemma shut_step:
  assumes "program_inv s" and "sv_pc s = SvShut (a # as)"
  shows "program_inv ((do_action a s)\<lparr>sv_pc := SvShut as\<rparr>)"
proof -
  have inv: "orderly (a # as)" "\<And>g. sv_life s g = SFreed \<Longrightarrow> AFree g \<notin> set (a # as)" "\<And>g. sv_background s g \<Longrightarrow> AStop g \<in> set (a # as)"
    "list_all (\<lambda>w. w = WDone) (sv_workers s)" "set (sv_dangling s) \<subseteq> {CLookup, CPending}"
    using assms by (auto simp: program_inv_def)
  have "sv_life s (action_on a) \<noteq> SFreed" using inv(2) orderly_head [OF inv(1)] by blast
  then have "sv_dangling (do_action a s) = sv_dangling s" by (simp add: do_action_dangling)
  moreover have "AFree g \<notin> set as" if "sv_life (do_action a s) g = SFreed" for g
    using that inv(1) inv(2) [of g] by (auto simp: do_action_life)
  moreover have "AStop g \<in> set as" if "sv_background (do_action a s) g" for g
    using that inv(1) inv(3) [of g] by (auto simp: do_action_background split: if_splits)
  ultimately show ?thesis using inv(1,4,5) by (simp add: program_inv_def)
qed

lemma start_step:
  assumes "program_inv s" and "sv_pc s = SvStart (a # as)"
  shows "program_inv ((do_action a s)\<lparr>sv_pc := SvStart as\<rparr>)"
  using assms
  by (cases a) (auto simp: program_inv_def start_action_def do_action_life do_action_background do_action_dangling)

lemma server_step_inv: "program_inv s \<Longrightarrow> program_inv (server_step pending s)"
proof (cases "sv_pc s")
  case (SvSpawn n)
  then show "program_inv s \<Longrightarrow> ?thesis" by (cases n) (auto simp: program_inv_def server_step_def start_actions_ok)
next
  case (SvStart as)
  then show "program_inv s \<Longrightarrow> ?thesis" using start_step [of s] by (cases as) (auto simp: program_inv_def server_step_def)
next
  case (SvShut as)
  then show "program_inv s \<Longrightarrow> ?thesis" using shut_step [of s] by (cases as) (auto simp: program_inv_def server_step_def server_stop_def)
qed (auto simp: program_inv_def server_step_def server_stop_def shutdown_orderly stoppable_def)

lemma running_early: "program_inv s \<Longrightarrow> w \<in> set (sv_workers s) \<Longrightarrow> w \<noteq> WDone \<Longrightarrow> sv_life s g \<noteq> SFreed"
  by (cases "sv_pc s") (auto simp: program_inv_def list_all_iff)

lemma set_worker_inv: "program_inv s \<Longrightarrow> w \<in> set (sv_workers s) \<Longrightarrow> w \<noteq> WDone \<Longrightarrow> program_inv (set_worker i v s)"
  by (cases "sv_pc s") (auto simp: program_inv_def set_worker_def list_all_iff)

lemma program_inv_frame:
  "program_inv (s\<lparr>sv_lookup := l\<rparr>) = program_inv s"
  "program_inv (s\<lparr>sv_signal := b\<rparr>) = program_inv s"
  "program_inv (server_stop s) = program_inv s"
  by (cases "sv_pc s"; simp add: program_inv_def server_stop_def)+

lemma singleton_get_inv:
  "program_inv s \<Longrightarrow> c \<in> {CLookup, CPending} \<or> sv_life s g \<noteq> SFreed \<Longrightarrow> program_inv (singleton_get c g s)"
  using pc_inv_cong [of "singleton_get c g s" s "sv_pc s"] by (auto simp: program_inv_def)

lemma routine_step_inv:
  assumes "program_inv s"
  shows "program_inv (routine_step i act s)"
proof (cases "i < length (sv_workers s) \<and> sv_workers s ! i \<noteq> WDone")
  case True
  then have w: "sv_workers s ! i \<in> set (sv_workers s)" "sv_workers s ! i \<noteq> WDone" by auto
  note set_worker_inv [OF assms w, simp]
  have "program_inv (singleton_get CWorker g s)" for g
    using running_early [OF assms w] singleton_get_inv [OF assms] by blast
  then show ?thesis using True assms
    by (auto simp: routine_step_def checkTimeout_def program_inv_frame split: routine_pc.splits worker_act.splits)
qed (use assms in \<open>auto simp: routine_step_def\<close>)

lemma background_alive: "program_inv s \<Longrightarrow> sv_background s g \<Longrightarrow> sv_life s g \<noteq> SFreed \<and> sv_life s SPool \<noteq> SFreed"
  using orderly_stop by (cases "sv_pc s") (auto simp: program_inv_def)

lemma background_step_inv: "program_inv s \<Longrightarrow> program_inv (background_step g s)"
  using background_alive [of s g] by (auto simp: background_step_def intro!: singleton_get_inv)

lemma lookup_step_inv: "program_inv s \<Longrightarrow> program_inv (lookup_step act s)"
  by (auto simp: lookup_step_def program_inv_frame split: lookup_pc.splits lookup_act.splits intro: singleton_get_inv)

lemma program_step_inv: "program_inv s \<Longrightarrow> program_inv (program_step e s)"
  by (cases e) (simp_all add: program_step_def server_step_inv routine_step_inv background_step_inv lookup_step_inv program_inv_frame)

interpretation program: stable "\<lambda>s e t. t = program_step e s" program_inv
  by unfold_locales (simp add: program_step_inv)

lemma program_run_run: "run (\<lambda>s e t. t = program_step e s) s es (program_run es s)"
  by (induction es rule: rev_induct) (auto intro: run.intros)

lemma program_run_inv: "program_inv (program_run es (http_server cfg))"
  by (rule program.run_keeps [OF program_run_run]) (simp add: program_inv_def http_server_def)


text \<open>Deleted is deleted for good, and the lookup thread does not end without asking the pool.\<close>

lemma freed_stays: "sv_life s g = SFreed \<Longrightarrow> sv_life (program_step e s) g = SFreed"
  by (cases e) (auto simp: program_step_def server_step_def routine_step_def background_step_def lookup_step_def checkTimeout_def
      server_stop_def set_worker_def do_action_life
      split: server_pc.splits nat.splits list.splits routine_pc.splits worker_act.splits lookup_pc.splits lookup_act.splits)

lemma dangling_stays: "c \<in> set (sv_dangling s) \<Longrightarrow> c \<in> set (sv_dangling (program_step e s))"
  by (cases e) (auto simp: program_step_def server_step_def routine_step_def background_step_def lookup_step_def checkTimeout_def
      server_stop_def set_worker_def do_action_dangling
      split: server_pc.splits nat.splits list.splits routine_pc.splits worker_act.splits lookup_pc.splits lookup_act.splits)

lemma lookup_ends:
  "sv_life s SPool = SFreed \<Longrightarrow> sv_lookup (program_step e s) = LDone \<Longrightarrow> sv_lookup s = LDone \<or> CLookup \<in> set (sv_dangling (program_step e s))"
  by (cases e) (auto simp: program_step_def server_step_def routine_step_def background_step_def lookup_step_def checkTimeout_def
      server_stop_def set_worker_def
      split: server_pc.splits nat.splits list.splits routine_pc.splits worker_act.splits lookup_pc.splits lookup_act.splits if_splits)

lemma lookup_dangles_run:
  assumes "sv_life s SPool = SFreed" and "sv_lookup s \<noteq> LDone"
  shows "sv_life (program_run fs s) SPool = SFreed
    \<and> (sv_lookup (program_run fs s) = LDone \<longrightarrow> CLookup \<in> set (sv_dangling (program_run fs s)))"
proof (induction fs rule: rev_induct)
  case (snoc f fs)
  then show ?case using freed_stays lookup_ends dangling_stays by (metis program_run_simps)
qed (simp add: assms)

text \<open>C27: The lookup thread outlives the pool.  Whenever the server has deleted the pool and the lookup thread has not ended
  yet, every continuation in which the thread ends has it call the deleted pool: the request it owns asks the pool in its
  destructor.\<close>

theorem lookup_uses_deleted_pool:
  assumes "sv_life (program_run es (http_server cfg)) SPool = SFreed" and "sv_lookup (program_run es (http_server cfg)) \<noteq> LDone"
    and "sv_lookup (program_run (es @ fs) (http_server cfg)) = LDone"
  shows "CLookup \<in> set (sv_dangling (program_run (es @ fs) (http_server cfg)))"
  using lookup_dangles_run [OF assms(1,2), of fs] assms(3) by simp

text \<open>Such an end: one thread, the signal while the lookup thread is at work, and the server is the first to see it.\<close>

definition sample_end :: "program_event list" where
  "sample_end =
     [EServer False, EServer False, EServer False, EServer False, EServer False, EWorker 0 WProceed, ELookup LGo, ELookup LGo, ESignal,
      EWorker 0 WTimer, EWorker 0 WProceed] @ replicate 9 (EServer False)"

lemma sample_end_states:
  "sv_life (program_run sample_end (http_server (initial_settings\<lparr>service_threads := 1\<rparr>))) SPool = SFreed"
  "sv_lookup (program_run sample_end (http_server (initial_settings\<lparr>service_threads := 1\<rparr>))) \<noteq> LDone"
  "sv_lookup (program_run (sample_end @ [ELookup LGo, ELookup LGo, ELookup LGo]) (http_server (initial_settings\<lparr>service_threads := 1\<rparr>))) = LDone"
  by code_simp+

theorem lookup_uses_deleted_pool_witness:
  "CLookup \<in> set (sv_dangling (program_run (sample_end @ [ELookup LGo, ELookup LGo, ELookup LGo])
     (http_server (initial_settings\<lparr>service_threads := 1\<rparr>))))"
  using lookup_uses_deleted_pool [OF sample_end_states] .

section \<open>The stop signal ends the server\<close>

text \<open>The steps a thread of the server is away from its end once the I/O context is stopped, a handler counted as one.\<close>

fun worker_rank :: "routine_pc \<Rightarrow> nat" where
  "worker_rank WHandler = 2"
| "worker_rank WRun = 1"
| "worker_rank WHead = 1"
| "worker_rank WDone = 0"

fun server_rank :: "server_pc \<Rightarrow> nat" where
  "server_rank SvJoin = length shutdown_actions + 2"
| "server_rank (SvShut as) = length as + 1"
| "server_rank SvReturned = 0"
| "server_rank SvDestroyed = 0"
| "server_rank _ = length shutdown_actions + 3"

definition joining :: "server_state \<Rightarrow> bool" where
  "joining s \<longleftrightarrow> sv_stopped s \<and> \<not> sv_m_run s \<and> server_rank (sv_pc s) \<le> length shutdown_actions + 2"

lemma do_action_flags [simp]:
  "sv_stopped (do_action a s) = sv_stopped s" "sv_m_run (do_action a s) = sv_m_run s" "sv_pc (do_action a s) = sv_pc s"
  by (simp_all add: do_action_def singleton_free_def Let_def split: action.splits)

lemma joining_server:
  assumes "joining s"
  shows "joining (server_step p s) \<and> sv_workers (server_step p s) = sv_workers s
    \<and> server_rank (sv_pc (server_step p s)) \<le> server_rank (sv_pc s) - (if list_all (\<lambda>w. w = WDone) (sv_workers s) then 1 else 0)"
proof (cases "sv_pc s")
  case (SvShut as)
  then show ?thesis using assms by (cases as) (auto simp: joining_def server_step_def server_stop_def)
qed (use assms in \<open>auto simp: joining_def server_step_def server_stop_def\<close>)

lemma joining_routine:
  assumes "joining s"
  shows "joining (routine_step i act s) \<and> sv_pc (routine_step i act s) = sv_pc s \<and> length (sv_workers (routine_step i act s)) = length (sv_workers s)
    \<and> (\<forall>j < length (sv_workers s). worker_rank (sv_workers (routine_step i act s) ! j)
         \<le> worker_rank (sv_workers s ! j) - (if i = j \<and> act = WProceed then 1 else 0))"
  using assms
  by (cases "sv_workers s ! i"; cases act; cases "i < length (sv_workers s)")
    (auto simp: joining_def routine_step_def set_worker_def nth_list_update)

definition proceeds :: "nat \<Rightarrow> program_event list \<Rightarrow> nat" where
  "proceeds i es = count_list es (EWorker i WProceed)"

definition is_server_event :: "program_event \<Rightarrow> bool" where
  "is_server_event e = (case e of EServer _ \<Rightarrow> True | _ \<Rightarrow> False)"

text \<open>One step of anyone, once the context is stopped: no thread goes back, and a thread that proceeds comes closer to its end.\<close>

lemma joining_step:
  assumes "joining s"
  shows "joining (program_step e s) \<and> length (sv_workers (program_step e s)) = length (sv_workers s)
    \<and> (\<forall>j < length (sv_workers s). worker_rank (sv_workers (program_step e s) ! j) \<le> worker_rank (sv_workers s ! j) - proceeds j [e])"
proof (cases e)
  case (EServer p)
  then show ?thesis using joining_server [OF assms, of p] by (simp add: program_step_def proceeds_def)
next
  case (EWorker i act)
  then show ?thesis using joining_routine [OF assms, of i act] by (auto simp: program_step_def proceeds_def)
next
  case (EBackground g)
  then show ?thesis using assms by (simp add: program_step_def proceeds_def background_step_def joining_def)
next
  case (ELookup act)
  then show ?thesis using assms
    by (simp add: program_step_def proceeds_def lookup_step_def joining_def split: lookup_pc.splits lookup_act.splits)
next
  case ESignal
  then show ?thesis using assms by (simp add: program_step_def proceeds_def joining_def)
qed

lemma joining_run:
  assumes "joining s"
  shows "joining (program_run fs s) \<and> length (sv_workers (program_run fs s)) = length (sv_workers s)
    \<and> (\<forall>j < length (sv_workers s). worker_rank (sv_workers (program_run fs s) ! j) \<le> worker_rank (sv_workers s ! j) - proceeds j fs)"
proof (induction fs rule: rev_induct)
  case (snoc f fs)
  let ?t = "program_run fs s"
  have step: "joining (program_step f ?t)" "length (sv_workers (program_step f ?t)) = length (sv_workers s)"
    using joining_step [of ?t f] snoc by auto
  have "worker_rank (sv_workers (program_step f ?t) ! j) \<le> worker_rank (sv_workers s ! j) - proceeds j (fs @ [f])"
    if "j < length (sv_workers s)" for j
  proof -
    have "worker_rank (sv_workers (program_step f ?t) ! j) \<le> worker_rank (sv_workers ?t ! j) - proceeds j [f]"
      using joining_step [of ?t f] snoc that by simp
    moreover have "worker_rank (sv_workers ?t ! j) \<le> worker_rank (sv_workers s ! j) - proceeds j fs" using snoc that by simp
    moreover have "proceeds j (fs @ [f]) = proceeds j fs + proceeds j [f]" by (simp add: proceeds_def)
    ultimately show ?thesis by linarith
  qed
  with step show ?case by simp
qed (use assms in \<open>simp add: proceeds_def\<close>)

lemma workers_end:
  assumes "joining s" and "\<forall>i < length (sv_workers s). 2 \<le> proceeds i fs"
  shows "list_all (\<lambda>w. w = WDone) (sv_workers (program_run fs s))"
proof -
  have "sv_workers (program_run fs s) ! j = WDone" if "j < length (sv_workers (program_run fs s))" for j
  proof -
    have j: "j < length (sv_workers s)" using that joining_run [OF assms(1), of fs] by simp
    have "worker_rank (sv_workers s ! j) \<le> 2" by (cases "sv_workers s ! j") auto
    moreover have "worker_rank (sv_workers (program_run fs s) ! j) \<le> worker_rank (sv_workers s ! j) - proceeds j fs"
      using joining_run [OF assms(1), of fs] j by blast
    moreover have "2 \<le> proceeds j fs" using assms(2) j by blast
    ultimately have "worker_rank (sv_workers (program_run fs s) ! j) = 0" by linarith
    then show ?thesis by (cases "sv_workers (program_run fs s) ! j") auto
  qed
  then show ?thesis by (simp add: list_all_length)
qed

lemma ended_step:
  assumes "joining s" and "list_all (\<lambda>w. w = WDone) (sv_workers s)"
  shows "list_all (\<lambda>w. w = WDone) (sv_workers (program_step e s))
    \<and> server_rank (sv_pc (program_step e s)) \<le> server_rank (sv_pc s) - (if is_server_event e then 1 else 0)"
proof (cases e)
  case (EServer p)
  then show ?thesis using joining_server [OF assms(1), of p] assms(2) by (simp add: program_step_def is_server_event_def)
next
  case (EWorker i act)
  then have "program_step e s = s" using assms(2) by (auto simp: program_step_def routine_step_def list_all_length)
  then show ?thesis using assms(2) EWorker by (simp add: is_server_event_def)
next
  case (ELookup act)
  then show ?thesis using assms(2)
    by (simp add: program_step_def is_server_event_def lookup_step_def split: lookup_pc.splits lookup_act.splits)
qed (use assms(2) in \<open>simp_all add: program_step_def is_server_event_def background_step_def\<close>)

lemma ended_run:
  assumes "joining s" and "list_all (\<lambda>w. w = WDone) (sv_workers s)"
  shows "list_all (\<lambda>w. w = WDone) (sv_workers (program_run fs s))
    \<and> server_rank (sv_pc (program_run fs s)) \<le> server_rank (sv_pc s) - length (filter is_server_event fs)"
proof (induction fs rule: rev_induct)
  case (snoc f fs)
  then show ?case using ended_step [of "program_run fs s" f] joining_run [OF assms(1), of fs] by auto
qed (simp add: assms)


definition sample_serving :: server_state where
  "sample_serving = program_run ([EServer False, EServer False, EServer False, EServer False, EServer False, EServer False,
     EWorker 0 WProceed, EWorker 1 WProceed, EWorker 1 WTake, ESignal]) (http_server (initial_settings\<lparr>service_threads := 2\<rparr>))"

lemma sample_serving_state:
  "sv_signal sample_serving" "\<not> sv_stopped sample_serving" "sv_pc sample_serving = SvJoin" "sv_workers sample_serving = [WRun, WHandler]"
  by code_simp+


end
