(* ===== verification/Spec2Isabelle.thy ===== *)
theory Spec2Isabelle
  imports Tx_Utils Dump_Blocks Cache_Worker History_Cache Forwarding Http_Server Nslookup
    Ns_Resolver Request_Timer Shared_Mutex Partitioned_Map Common_Utils Json_Schema Statistics Server_Run
begin

text \<open>
  A verification development of the metahash full-node client (\<^verbatim>\<open>src/src/\<close>).

  \<^bold>\<open>The program.\<close>  The client is an HTTP server that answers JSON-RPC requests about a block chain.  A connection is
  accepted by \<^verbatim>\<open>http_server\<close> and read by \<^verbatim>\<open>http_session\<close>, which finds a handler for the method (or gives an array of
  requests to \<^verbatim>\<open>batch_json_request\<close>).  A handler of \<^verbatim>\<open>task_handlers/\<close> answers from the block cache, from the history
  cache, from a local database (the torrent library), from the wallet files, or forwards the request to a node with
  \<^verbatim>\<open>http_json_rpc_request\<close> over the connections of \<^verbatim>\<open>socket_pool\<close>.  Two workers fill the caches; a third thread
  chooses the node to ask (\<^verbatim>\<open>nslookup\<close>), a fourth reports counters (\<^verbatim>\<open>Statistic/\<close>).  The objects the threads share
  are singletons that \<^verbatim>\<open>http_server::run\<close> starts and deletes.

  \<^bold>\<open>Foundations.\<close>
  \<^item> \<open>Prelude\<close>: names of the C++ types, exceptions, the part of the C and C++ libraries that is used on strings, and
    runs of a machine with the two locales \<open>stable\<close> (an invariant) and \<open>refining\<close> (a simulation).
  \<^item> \<open>Convert_Strings\<close>: hexadecimal text of \<^verbatim>\<open>common/convertStrings.h\<close>, \<^verbatim>\<open>common/string_utils.cpp\<close> and
    \<^verbatim>\<open>cpplib_open_ssl_decor/crypto.cpp\<close>.  All printers agree; every reader inverts them.
  \<^item> \<open>Serialize\<close>: \<^verbatim>\<open>sync/utils/serialize.h\<close>, round trips through the locale \<open>codec\<close>.  Positions wrap at 64 bits.
  \<^item> \<open>Compress\<close>: \<^verbatim>\<open>cache/compress.cpp\<close>, round trip over the documented behaviour of LZ4.
  \<^item> \<open>Crypto_Decor\<close>: \<^verbatim>\<open>cpplib_open_ssl_decor/crypto.cpp\<close>; wallets that are generated are consistent, and an
    address is accepted exactly when its check sum is right.
  \<^item> \<open>Json_Rpc\<close>: \<^verbatim>\<open>jsonrpc/json_rpc.{h,cpp}\<close>; what every writer operation sets and leaves, as a locale.
  \<^item> \<open>Kv_Store\<close>: the contract of the database; \<open>Settings\<close>: \<^verbatim>\<open>settings/settings.cpp\<close>, the conditions every other
    part finds in the settings that were read.

  \<^bold>\<open>Blocks and transactions.\<close>
  \<^item> \<open>Block_Info\<close>: the records of \<^verbatim>\<open>sync/BlockInfo.h\<close> and \<^verbatim>\<open>sync/Address.h\<close>; the functions these headers only declare
    are fields of \<open>torrent_lib\<close>.
  \<^item> \<open>Generate_Json\<close>, \<open>Dump_Blocks\<close>: \<^verbatim>\<open>generate_json.cpp\<close>.  Block headers are read back from the JSON that is
    written, dumps from the binary form; an input on which the dump parser never returns is given.
  \<^item> \<open>Tx_Utils\<close>: \<^verbatim>\<open>task_handlers/utils.cpp\<close>; a transaction that is signed is parsed back.

  \<^bold>\<open>The caches.\<close>
  \<^item> \<open>Blocks_Cache\<close>, \<open>Block_Verify\<close>, \<open>Cache_Sync\<close>, \<open>Cache_Worker\<close>: \<^verbatim>\<open>cache/blocks_cache.cpp\<close>, from the records of the
    database and the verification of core signatures to the passes of the worker.  A batch stores a linked chain,
    and a block that a verified lookup returns has a signature that was checked, over any number of passes.
  \<^item> \<open>History_Cache\<close>: \<^verbatim>\<open>cache/history_cache.cpp\<close>; a history that was loaded is served.
  \<^item> \<open>Wallet_Storage\<close>: \<^verbatim>\<open>wallet_storage/wallet_storage.cpp\<close>.

  \<^bold>\<open>Requests of clients.\<close>
  \<^item> \<open>Handler_Base\<close>, \<open>Block_Handlers\<close>, \<open>Address_Handlers\<close>, \<open>Tx_Handlers\<close>, \<open>Task_Handlers\<close>: \<^verbatim>\<open>task_handlers/\<close>.  A handler is
    a pair of \<^verbatim>\<open>prepare\<close> and \<^verbatim>\<open>execute\<close>; the contract is a locale that every class interprets, and gives that
    every method but \<^verbatim>\<open>create-tx\<close> answers any text with a well-formed reply or later.
  \<^item> \<open>Json_Batch\<close>: \<^verbatim>\<open>json_batch_request.cpp\<close>, one answer for a batch whatever the order of the replies.
  \<^item> \<open>Http_Session\<close>: \<^verbatim>\<open>http_session.cpp\<close>, responses against requests over any interleaving of reads and replies.
  \<^item> \<open>Security_Manager\<close>, \<open>Http_Server\<close>: \<^verbatim>\<open>security_manager.cpp\<close> and the access check of \<^verbatim>\<open>http_server.cpp\<close>; how long
    a client that guesses the key has to wait.

  \<^bold>\<open>Requests to nodes.\<close>
  \<^item> \<open>Socket_Pool\<close>: \<^verbatim>\<open>connection_pool.cpp\<close>, a refinement of a bag of idle connections and a set of leases.
  \<^item> \<open>Http_Request\<close>: \<^verbatim>\<open>http_json_rpc_request.cpp\<close> as a machine over the completions of its operations.  The callback
    is called exactly once, after a number of events that the attempts bound.
  \<^item> \<open>Request_Pool\<close>: a request among others that use the pool gives its connection back.
  \<^item> \<open>Forwarding\<close>: the composition with \<^verbatim>\<open>on_complete\<close>: a forwarded request is answered once, well-formed.
  \<^item> \<open>Nslookup\<close>, \<open>Ns_Resolver\<close>: \<^verbatim>\<open>nslookup.cpp\<close>, the node that is chosen and the answers of the name server; the text of an
    address record is recognised as an address.

  \<^bold>\<open>Threads and the life of the program.\<close>
  \<^item> \<open>Utils_Timer\<close>: the timer of \<^verbatim>\<open>task_handlers/utils.cpp\<close> with its thread, mutex and condition variable.  A timer that
    is stopped before it is started again never hangs and stays silent after a stop; \<open>Request_Timer\<close> shows that a request
    uses its timer that way.
  \<^item> \<open>Spin_Lock\<close>, \<open>Shared_Mutex\<close>, \<open>Partitioned_Map\<close>: the locks and the map of \<^verbatim>\<open>sync/P2P/safe_ptr.h\<close>, the locks access by access
    over sequentially consistent memory.  Exclusive and shared holders exclude each other for any number of threads and
    slots; the map of maps refines one ordered map.
  \<^item> \<open>Statistics\<close>: \<^verbatim>\<open>Statistic/StatisticsServer.cpp\<close> and \<^verbatim>\<open>Statistic/Statistics.cpp\<close>.  Every request that is counted is in exactly
    one report, waiting or in the copy the thread sends; the guard of \<^verbatim>\<open>main\<close> stops the thread at its start.
  \<^item> \<open>Server_Run\<close>: \<^verbatim>\<open>http_server::run\<close>, \<^verbatim>\<open>routine\<close>, \<^verbatim>\<open>stop\<close> and \<^verbatim>\<open>checkTimeout\<close>, \<^verbatim>\<open>common/singleton.h\<close> and the lookups of \<^verbatim>\<open>main.cpp\<close>.
    A stop signal ends the server; which threads can meet a deleted singleton, and which do.
  \<^item> \<open>Common_Utils\<close>: \<^verbatim>\<open>common/parallel_for.h\<close>, \<^verbatim>\<open>stringUtils.h\<close>, \<^verbatim>\<open>duration.h\<close>, \<^verbatim>\<open>jsonUtils.h\<close> and \<^verbatim>\<open>sync/P2P/LimitArray.h\<close>;
    \<open>Json_Schema\<close>: \<^verbatim>\<open>jsonrpc/json_rpc_schema.cpp\<close>.

  \<^bold>\<open>State, time and failure.\<close>  An object is a record, an operation a function on it; an operation under a lock is one
  step.  Exceptions are values (\<^typ>\<open>exc\<close> on the left of a sum), and the macros that catch them are functions on such
  values.  Threads and asynchronous operations are steps of a machine in any order (\<open>Socket_Pool\<close>, \<open>Http_Request\<close>,
  \<open>Request_Pool\<close>, \<open>Http_Session\<close>, and the theories of the last group, where an operation that is no critical section is
  several steps).  Reading outside a buffer and other undefined behaviour is an exception.

  \<^bold>\<open>Loops.\<close>  Loops that may run for ever (\<^verbatim>\<open>load_extra_blocks\<close>, \<^verbatim>\<open>parseDumpBlocksBinary\<close>) are partial functions
  into an option, so there is no fuel: that they return is a property where they do, and an input without a result
  is given where they do not.  The endless loops of the workers are lists of passes, and the retries of the history
  worker consume the list of the answers the node gives, so the properties hold for every length.

  \<^bold>\<open>Parameters.\<close>  Code outside \<^verbatim>\<open>src/src/\<close> is an argument: the torrent library (\<open>torrent_lib\<close>, \<open>json_lib\<close>), OpenSSL
  (\<open>openssl\<close>), LZ4 (\<open>lz4\<close>), LevelDB, the parser, printer and schema validator of RapidJSON, the property tree,
  sockets and resolver of Boost (\<open>network\<close>, \<open>name_service\<close>).  The laws a property needs of them are its premises.

  \<^bold>\<open>Not modelled.\<close>  The command line, the banners and the construction of the synchronisation objects in \<^verbatim>\<open>main.cpp\<close>, the
  handler of the stop signal, logging and the durations in status replies have no result to state a property about.
  \<^verbatim>\<open>Statistic/benchmarks.cpp\<close> measures the machine, \<^verbatim>\<open>common/filesystem_utils.cpp\<close> only calls the file system.  The smart
  pointers of \<^verbatim>\<open>safe_ptr.h\<close> forward to a lock and an object, and memory orders weaker than sequential consistency are not
  distinguished.  The rest of \<^verbatim>\<open>sync/P2P/\<close>, \<^verbatim>\<open>sync/synchronize_blockchain.h\<close> and headers of \<^verbatim>\<open>common/\<close> such as
  \<^verbatim>\<open>curlWrapper.h\<close> and \<^verbatim>\<open>stopProgram.h\<close> declare functions whose bodies are in the pre-compiled torrent library.
\<close>

end
